(* ===== verification/Prelude.thy ===== *)
theory Prelude
  imports Main "HOL-Library.Word" "HOL-Library.Monad_Syntax"
begin

text \<open>
  What every component shares: the machine integer types of the C code, the \<open>errno\<close> values it
  compares with, the C string functions it calls, decimal printing, and the two predicates
  \<open>returns\<close> (total correctness) and \<open>upon\<close> (partial correctness) with their rules.

  A stateful C function is a HOL function \<open>s \<Rightarrow> ('a \<times> 's) option\<close>. The value \<open>Some (r, s')\<close> is a
  return of \<open>r\<close> in state \<open>s'\<close>. The value \<open>None\<close> means that control does not come back to the caller
  with a defined state: an endless loop, a process that left through \<open>die\<close> or through a loaded
  executable, or undefined behaviour of C (an array written past its end, a pointer followed that
  points to nothing). So \<open>returns m Q\<close> also says that none of these happens.
\<close>

unbundle bit_operations_syntax

type_synonym u8 = "8 word"
type_synonym u16 = "16 word"
type_synonym u32 = "32 word"
type_synonym u64 = "64 word"

named_theorems errno_defs \<open>the errno values\<close>

section \<open>Error numbers\<close>

text \<open>The values of newlib's \<open>errno.h\<close>, which the code uses with a minus sign as results.\<close>

definition ENOENT :: int where [errno_defs]: "ENOENT = 2"
definition EAGAIN :: int where [errno_defs]: "EAGAIN = 11"
definition ENOMEM :: int where [errno_defs]: "ENOMEM = 12"
definition ENODEV :: int where [errno_defs]: "ENODEV = 19"
definition ENOTDIR :: int where [errno_defs]: "ENOTDIR = 20"
definition EINVAL :: int where [errno_defs]: "EINVAL = 22"
definition ENODATA :: int where [errno_defs]: "ENODATA = 61"
definition EINPROGRESS :: int where [errno_defs]: "EINPROGRESS = 119"
definition EALREADY :: int where [errno_defs]: "EALREADY = 120"
definition EISCONN :: int where [errno_defs]: "EISCONN = 127"

section \<open>Results of stateful functions\<close>

definition returns :: "('a \<times> 's) option \<Rightarrow> ('a \<Rightarrow> 's \<Rightarrow> bool) \<Rightarrow> bool" where
  "returns m Q \<longleftrightarrow> (case m of None \<Rightarrow> False | Some (r, s) \<Rightarrow> Q r s)"

definition upon :: "('a \<times> 's) option \<Rightarrow> ('a \<Rightarrow> 's \<Rightarrow> bool) \<Rightarrow> bool" where
  "upon m Q \<longleftrightarrow> (case m of None \<Rightarrow> True | Some (r, s) \<Rightarrow> Q r s)"

lemma returns_simps [simp]:
  "returns (Some (r, s)) Q \<longleftrightarrow> Q r s"
  "\<not> returns None Q"
  by (simp_all add: returns_def)

lemma upon_simps [simp]:
  "upon (Some (r, s)) Q \<longleftrightarrow> Q r s"
  "upon None Q"
  by (simp_all add: upon_def)

lemma returns_bind [simp]:
  "returns (Option.bind m f) Q \<longleftrightarrow> returns m (\<lambda>r s. returns (f (r, s)) Q)"
  by (cases m) (auto simp: returns_def)

lemma upon_bind [simp]:
  "upon (Option.bind m f) Q \<longleftrightarrow> upon m (\<lambda>r s. upon (f (r, s)) Q)"
  by (cases m) (auto simp: upon_def)

lemma returns_iff: "returns m Q \<longleftrightarrow> (\<exists>r s. m = Some (r, s) \<and> Q r s)"
  by (auto simp: returns_def split: option.splits)

lemma upon_iff: "upon m Q \<longleftrightarrow> (\<forall>r s. m = Some (r, s) \<longrightarrow> Q r s)"
  by (auto simp: upon_def split: option.splits)

lemma returns_mono:
  "returns m P \<Longrightarrow> (\<And>r s. P r s \<Longrightarrow> Q r s) \<Longrightarrow> returns m Q"
  by (auto simp: returns_iff)

lemma upon_mono:
  "upon m P \<Longrightarrow> (\<And>r s. P r s \<Longrightarrow> Q r s) \<Longrightarrow> upon m Q"
  by (auto simp: upon_iff)

lemma returns_ifI:
  "(b \<Longrightarrow> returns m Q) \<Longrightarrow> (\<not> b \<Longrightarrow> returns n Q) \<Longrightarrow> returns (if b then m else n) Q"
  by simp

lemma upon_ifI:
  "(b \<Longrightarrow> upon m Q) \<Longrightarrow> (\<not> b \<Longrightarrow> upon n Q) \<Longrightarrow> upon (if b then m else n) Q"
  by simp

lemmas vc_simps = returns_simps returns_bind upon_simps upon_bind prod.case Let_def

lemma returns_conj: "returns m P \<Longrightarrow> upon m Q \<Longrightarrow> returns m (\<lambda>r s. P r s \<and> Q r s)"
  by (auto simp: returns_iff upon_iff)

lemma upon_conj: "upon m P \<Longrightarrow> upon m Q \<Longrightarrow> upon m (\<lambda>r s. P r s \<and> Q r s)"
  by (auto simp: upon_iff)

lemma returns_upon: "returns m Q \<Longrightarrow> upon m Q"
  by (auto simp: returns_iff upon_iff)

text \<open>
  Both at once: \<open>triple b m Q\<close> is total correctness if \<open>b\<close> and partial correctness if not. What is
  shown of it for all \<open>b\<close> is shown of both.
\<close>

definition triple :: "bool \<Rightarrow> ('a \<times> 's) option \<Rightarrow> ('a \<Rightarrow> 's \<Rightarrow> bool) \<Rightarrow> bool" where
  "triple b m Q \<longleftrightarrow> (case m of None \<Rightarrow> \<not> b | Some (r, s) \<Rightarrow> Q r s)"

lemma triple_True: "triple True m Q \<longleftrightarrow> returns m Q"
  by (simp add: triple_def returns_def split: option.split)

lemma triple_False: "triple False m Q \<longleftrightarrow> upon m Q"
  by (simp add: triple_def upon_def split: option.split)

lemma triple_simps [simp]:
  "triple b (Some (r, s)) Q \<longleftrightarrow> Q r s"
  "triple b None Q \<longleftrightarrow> \<not> b"
  by (simp_all add: triple_def)

lemma triple_bind [simp]:
  "triple b (Option.bind m f) Q \<longleftrightarrow> triple b m (\<lambda>r s. triple b (f (r, s)) Q)"
  by (cases m) (auto simp: triple_def)

lemma triple_mono:
  "triple b m P \<Longrightarrow> (\<And>r s. P r s \<Longrightarrow> Q r s) \<Longrightarrow> triple b m Q"
  by (auto simp: triple_def split: option.splits)

lemma triple_ifI:
  "(c \<Longrightarrow> triple b m Q) \<Longrightarrow> (\<not> c \<Longrightarrow> triple b n Q) \<Longrightarrow> triple b (if c then m else n) Q"
  by simp

lemma triple_returns: "returns m Q \<Longrightarrow> triple b m Q"
  by (auto simp: returns_iff)

lemma triple_upon: "triple b m Q \<Longrightarrow> upon m Q"
  by (auto simp: triple_def upon_def split: option.splits)

lemma upon_True [simp]: "upon m (\<lambda>r s. True)"
  by (simp add: upon_iff)

lemma upon_Some: "m = Some (r, s) \<Longrightarrow> upon m Q \<Longrightarrow> Q r s"
  by simp

text \<open>
  Loops: a triple of partial correctness holds of a \<open>partial_function\<close> if the body keeps it. The rules
  are for the rule \<open>fixp_induct\<close> of a loop with two to six arguments, its state included.
\<close>

lemma upon_admissible: "option.admissible (\<lambda>f. \<forall>x. P x \<longrightarrow> upon (f x) (Q x))"
proof -
  have "(\<lambda>f. \<forall>x. P x \<longrightarrow> upon (f x) (Q x)) = (\<lambda>f. \<forall>x y. f x = Some y \<longrightarrow> P x \<longrightarrow> Q x (fst y) (snd y))"
    by (auto simp: upon_iff fun_eq_iff)
  then show ?thesis by (simp only: option_admissible)
qed

lemma loop_admissible:
  "option.admissible (\<lambda>f. \<forall>a b. P2 a b \<longrightarrow> upon (curry f a b) (Q2 a b))"
  "option.admissible (\<lambda>f. \<forall>a b c. P3 a b c \<longrightarrow> upon (curry (curry f) a b c) (Q3 a b c))"
  "option.admissible (\<lambda>f. \<forall>a b c d. P4 a b c d \<longrightarrow> upon (curry (curry (curry f)) a b c d) (Q4 a b c d))"
  "option.admissible (\<lambda>f. \<forall>a b c d e. P5 a b c d e \<longrightarrow> upon (curry (curry (curry (curry f))) a b c d e) (Q5 a b c d e))"
  "option.admissible (\<lambda>f. \<forall>a b c d e g. P6 a b c d e g \<longrightarrow> upon (curry (curry (curry (curry (curry f)))) a b c d e g) (Q6 a b c d e g))"
  using upon_admissible[of "\<lambda>(a, b). P2 a b" "\<lambda>(a, b). Q2 a b"]
    upon_admissible[of "\<lambda>((a, b), c). P3 a b c" "\<lambda>((a, b), c). Q3 a b c"]
    upon_admissible[of "\<lambda>(((a, b), c), d). P4 a b c d" "\<lambda>(((a, b), c), d). Q4 a b c d"]
    upon_admissible[of "\<lambda>((((a, b), c), d), e). P5 a b c d e" "\<lambda>((((a, b), c), d), e). Q5 a b c d e"]
    upon_admissible[of "\<lambda>(((((a, b), c), d), e), g). P6 a b c d e g" "\<lambda>(((((a, b), c), d), e), g). Q6 a b c d e g"]
  by simp_all

section \<open>Characters and C strings\<close>

text \<open>
  A C string is the list of its characters before the terminating NUL. \<open>strcasecmp\<close> and
  \<open>strncasecmp\<close> are only ever tested for zero, which is what the two predicates say.
\<close>

abbreviation CR :: char where "CR \<equiv> CHR 0x0D"
abbreviation LF :: char where "LF \<equiv> CHR 0x0A"
abbreviation NUL :: char where "NUL \<equiv> CHR 0x00"

definition CRLF :: string where "CRLF = [CR, LF]"

definition to_lower :: "char \<Rightarrow> char" where
  "to_lower c = (let n = (of_char c :: nat) in if 65 \<le> n \<and> n \<le> 90 then char_of (n + 32) else c)"

definition strcaseeq :: "string \<Rightarrow> string \<Rightarrow> bool" where
  "strcaseeq a b \<longleftrightarrow> map to_lower a = map to_lower b"

definition strncaseeq :: "string \<Rightarrow> string \<Rightarrow> nat \<Rightarrow> bool" where
  "strncaseeq a b n \<longleftrightarrow> strcaseeq (take n a) (take n b)"

lemma strcaseeq_refl [simp]: "strcaseeq a a"
  by (simp add: strcaseeq_def)

lemma strcaseeq_sym: "strcaseeq a b \<Longrightarrow> strcaseeq b a"
  by (simp add: strcaseeq_def)

lemma strcaseeq_trans: "strcaseeq a b \<Longrightarrow> strcaseeq b c \<Longrightarrow> strcaseeq a c"
  by (simp add: strcaseeq_def)

lemma strcaseeq_length: "strcaseeq a b \<Longrightarrow> length a = length b"
  unfolding strcaseeq_def by (metis length_map)

text \<open>\<open>strrchr\<close> as the index of the last occurrence.\<close>

fun strrchr :: "string \<Rightarrow> char \<Rightarrow> nat option" where
  "strrchr [] c = None"
| "strrchr (x # xs) c =
     (case strrchr xs c of Some i \<Rightarrow> Some (Suc i) | None \<Rightarrow> if x = c then Some 0 else None)"

lemma strrchr_None: "strrchr xs c = None \<longleftrightarrow> c \<notin> set xs"
  by (induction xs) (auto split: option.splits)

lemma strrchr_append:
  "strrchr (xs @ ys) c =
     (case strrchr ys c of Some i \<Rightarrow> Some (length xs + i) | None \<Rightarrow> strrchr xs c)"
  by (induction xs) (auto split: option.splits)

lemma strrchr_SomeD:
  "strrchr xs c = Some i \<Longrightarrow> i < length xs \<and> xs ! i = c \<and> c \<notin> set (drop (Suc i) xs)"
  by (induction xs arbitrary: i) (auto simp: strrchr_None split: option.splits if_splits)

text \<open>\<open>strstr\<close> for a non-empty needle: the index of the first occurrence.\<close>

fun strstr :: "string \<Rightarrow> string \<Rightarrow> nat option" where
  "strstr [] p = None"
| "strstr (x # xs) p =
     (if take (length p) (x # xs) = p then Some 0 else map_option Suc (strstr xs p))"

lemma strstr_SomeD: "strstr s p = Some i \<Longrightarrow> i < length s \<and> take (length p) (drop i s) = p"
  by (induction s arbitrary: i) (auto split: if_splits)

lemma strstr_bound: "strstr s p = Some i \<Longrightarrow> i + length p \<le> length s"
proof -
  assume "strstr s p = Some i"
  then have "take (length p) (drop i s) = p" "i < length s"
    by (auto dest: strstr_SomeD)
  then have "length (take (length p) (drop i s)) = length p" "i < length s" by simp_all
  then show ?thesis by simp
qed

section \<open>Decimal printing\<close>

text \<open>The digits \<open>sprintf\<close> prints for \<open>%u\<close> and \<open>%llu\<close>.\<close>

definition digit :: "nat \<Rightarrow> char" where
  "digit n = char_of (48 + n)"

fun dec :: "nat \<Rightarrow> string" where
  "dec n = (if n < 10 then [digit n] else dec (n div 10) @ [digit (n mod 10)])"

declare dec.simps [simp del]

lemma dec_not_Nil [simp]: "dec n \<noteq> []"
  by (subst dec.simps) simp

lemma dec_length: "n < 10 ^ k \<Longrightarrow> 0 < k \<Longrightarrow> length (dec n) \<le> k"
proof (induction n arbitrary: k rule: dec.induct)
  case (1 n)
  show ?case
  proof (cases "n < 10")
    case True
    then show ?thesis using "1.prems" by (subst dec.simps) simp
  next
    case False
    obtain j where k: "k = Suc j" using "1.prems"(2) by (cases k) auto
    have "0 < j" using "1.prems"(1) False k by (cases j) auto
    note k = k this
    have "n div 10 < 10 ^ j" using "1.prems"(1) k by (simp add: less_mult_imp_div_less mult.commute)
    from "1.IH"[OF False this k(2)] False show ?thesis
      by (subst dec.simps) (simp add: k)
  qed
qed

lemma dec_length_ge: "10 ^ k \<le> n \<Longrightarrow> k < length (dec n)"
proof (induction k arbitrary: n)
  case 0
  then show ?case by simp
next
  case (Suc k)
  have "1 \<le> (10::nat) ^ k" by simp
  with Suc.prems have ge: "10 \<le> n" unfolding power_Suc by linarith
  have "10 ^ k \<le> n div 10" using Suc.prems by (simp add: less_eq_div_iff_mult_less_eq mult.commute)
  from Suc.IH[OF this] ge show ?case by (subst dec.simps) simp
qed

lemma dec_length_eq: "10 ^ k \<le> n \<Longrightarrow> n < 10 ^ Suc k \<Longrightarrow> length (dec n) = Suc k"
  using dec_length[of n "Suc k"] dec_length_ge[of k n] by simp

text \<open>\<open>sprintf\<close> of \<open>%i\<close> and \<open>%lli\<close>.\<close>

definition dec_int :: "int \<Rightarrow> string" where
  "dec_int i = (if i < 0 then CHR ''-'' # dec (nat (- i)) else dec (nat i))"

end
