(* ===== verification/Env.thy ===== *)
theory Env
  imports Prelude
begin

text \<open>
  The outside of the program. Every function that is called but not defined under \<open>source/\<close>
  (libogc's sockets, pads and disc interface, libfat, libntfs, the Wii disc and NAND libraries, the
  file system calls, \<open>malloc\<close>, the clock) is a constructor of \<open>call\<close>, and the environment
  \<open>env\<close> says how it answers, from the history of all calls made before: a deterministic world of
  any kind is such a function, and nothing is assumed of it but the laws a theorem names.

  \<open>base\<close> is the part of the state that the whole program has: the history of its calls with
  their answers and \<open>errno\<close>. The components extend this record by their static variables, in the
  order of their layers: \<open>reset_st\<close>, \<open>net_st\<close>, \<open>fs_st\<close>, \<open>vrt_st\<close>, \<open>ftp_st\<close>.

  The last section reads a history: which memory blocks, files, directories and sockets the
  program holds, and which bytes it has sent.
\<close>

section \<open>Calls and answers\<close>

text \<open>
  Addresses and ports stand in network order, which is the order of the Wii's processor, so that
  \<open>htons\<close>, \<open>ntohs\<close> and \<open>htonl\<close> are the identity.
\<close>

record sockaddr_in =
  sin_addr :: u32
  sin_port :: u16

record stat =
  st_mode :: u32
  st_size :: u64
  st_mtime :: int

definition S_IFDIR :: u32 where "S_IFDIR = 0x4000"

datatype fslib = ISO9660 | WOD | FST | NANDIMG | ISFS | OTP | SEEPROM

datatype fcntl_cmd = F_GETFL | F_SETFL

datatype mem_call = Malloc nat | Free int

datatype file_call =
    Fopen string string | Fclose int | Fread int nat | Fwrite int string | Feof int
  | Lseek int int | Fstat int
  | Stat string | Unlink string | Mkdir string u32 | Rename string string
  | Diropen string | Dirnext int | Dirclose int

datatype net_call =
    Net_init | Net_deinit | Net_gethostip
  | Net_socket | Net_bind int sockaddr_in | Net_listen int int | Net_accept int
  | Net_connect int sockaddr_in | Net_read int nat | Net_write int string | Net_close int
  | Net_fcntl int fcntl_cmd int

datatype sys_call =
    Strerror int | Strftime int | Inet_aton string
  | Gettime | Usleep nat | Sleep nat
  | WPAD_ScanPads | WPAD_ButtonsDown | PAD_ScanPads | PAD_ButtonsDown | VIDEO_WaitVSync
  | Button_callback | SYS_PowerOff | Set_callbacks | PAD_Init | WPAD_Init
  | IOS_ShutdownSubsystems | Run u32
  | VIDEO_Init | VIDEO_GetPreferredMode | VIDEO_Configure int | SYS_AllocateFramebuffer int
  | VIDEO_SetNextFramebuffer int | VIDEO_ClearFrameBuffer int int u32 | VIDEO_Flush | VIDEO_SetBlack bool
  | CON_InitEx int int int int int | CON_EnableGecko int int

datatype dev_call =
    Lib_Mount fslib | Lib_Unmount fslib | Lib_LastAccess fslib | ISFS_SU | ISFS_Initialize
  | Disc_startup nat | Disc_isInserted nat | Disc_shutdown nat
  | FatMount string nat | FatUnmount string
  | NtfsFindPartitions nat | NtfsMount string nat u32 | NtfsUnmount string
  | DI_Init | DI_Close | ISFS_Deinitialize
  | DI_Mount | DI_GetStatus | DI_StopMotor | DI_Eject | DI_GetCoverRegister

datatype call = CMem mem_call | CFile file_call | CNet net_call | CSys sys_call | CDev dev_call

text \<open>
  An answer: the value the C function returns (a pointer as its address, NULL as 0), the value it
  stores in \<open>errno\<close> (0: it leaves \<open>errno\<close> alone), and what it writes through pointer
  arguments: bytes, a socket address, a \<open>struct stat\<close>, an integer.
\<close>

record reply =
  ret :: int
  err :: int
  data :: string
  peer :: sockaddr_in
  stat_out :: stat
  out :: u32

definition ok :: "int \<Rightarrow> reply" where
  "ok n = \<lparr>ret = n, err = 0, data = [], peer = \<lparr>sin_addr = 0, sin_port = 0\<rparr>,
     stat_out = \<lparr>st_mode = 0, st_size = 0, st_mtime = 0\<rparr>, out = 0\<rparr>"

lemma ok_simps [simp]: "ret (ok n) = n" "err (ok n) = 0" "data (ok n) = []" "out (ok n) = 0"
  by (simp_all add: ok_def)

type_synonym hist = "(call \<times> reply) list"

text \<open>
  The constants of the libraries' headers that the code depends on: the size of path arrays, the
  conversion of seconds to clock ticks, the drive's ready bit and the buttons' bits; the size of a
  client's struct; and what a local \<open>struct stat\<close> and the memory hold before anything is stored.
\<close>

datatype button = Button_A | Button_B | Button_Left | Button_Right | Button_Up | Button_Down
  | Button_1X

text \<open>The buttons can be listed, so that what holds of all of them is decided by evaluation.\<close>

instantiation button :: enum
begin

definition enum_button :: "button list" where
  "enum_button = [Button_A, Button_B, Button_Left, Button_Right, Button_Up, Button_Down, Button_1X]"

definition enum_all_button :: "(button \<Rightarrow> bool) \<Rightarrow> bool" where
  "enum_all_button P = list_all P enum_class.enum"

definition enum_ex_button :: "(button \<Rightarrow> bool) \<Rightarrow> bool" where
  "enum_ex_button P = list_ex P enum_class.enum"

instance
proof
  show all: "(UNIV :: button set) = set enum_class.enum"
    using button.exhaust by (auto simp: enum_button_def)
  show "distinct (enum_class.enum :: button list)" by (simp add: enum_button_def)
  show "enum_class.enum_all P = Ball UNIV P" for P :: "button \<Rightarrow> bool"
    unfolding all by (simp add: enum_all_button_def list_all_iff)
  show "enum_class.enum_ex P = Bex UNIV P" for P :: "button \<Rightarrow> bool"
    unfolding all by (simp add: enum_ex_button_def list_ex_iff)
qed

end

text \<open>The fields that the program reads of the display mode a pointer of libogc points to.\<close>

record GXRModeObj =
  viTVMode :: u32
  fbWidth :: u16
  xfbHeight :: u16

record env =
  answer :: "hist \<Rightarrow> call \<Rightarrow> reply"
  MAXPATHLEN :: nat
  secs_to_ticks :: "nat \<Rightarrow> u64"
  DVD_READY :: u32
  wpad_mask :: "button \<Rightarrow> u32"
  pad_mask :: "button \<Rightarrow> u32"
  garbage_stat :: stat
  sizeof_client :: nat
  ram :: "u32 \<Rightarrow> u8"
  video_mode :: "int \<Rightarrow> GXRModeObj"
  VI_NON_INTERLACE :: u32
  COLOR_BLACK :: u32
  MEM_K0_TO_K1 :: "int \<Rightarrow> int"

record base =
  trace :: hist
  errno :: int

definition ext :: "env \<Rightarrow> call \<Rightarrow> 'z base_scheme \<Rightarrow> (reply \<times> 'z base_scheme) option" where
  "ext E c s = (let r = answer E (trace s) c in
     Some (r, s\<lparr>trace := trace s @ [(c, r)], errno := (if err r = 0 then errno s else err r)\<rparr>))"

lemma ext_more: "upon (ext E c s) (\<lambda>r s'. base.more s' = base.more s)"
  by (simp add: ext_def Let_def)

lemma returns_ext:
  "returns (ext E c s) Q \<longleftrightarrow> (let r = answer E (trace s) c in
     Q r (s\<lparr>trace := trace s @ [(c, r)], errno := (if err r = 0 then errno s else err r)\<rparr>))"
  by (simp add: ext_def Let_def)

lemma upon_ext:
  "upon (ext E c s) Q \<longleftrightarrow> (let r = answer E (trace s) c in
     Q r (s\<lparr>trace := trace s @ [(c, r)], errno := (if err r = 0 then errno s else err r)\<rparr>))"
  by (simp add: ext_def Let_def)

lemma ext_step:
  "returns (ext E c s) (\<lambda>r s'. base.more s' = base.more s \<and> trace s' = trace s @ [(c, r)])"
  by (simp add: returns_ext upon_ext Let_def)

text \<open>\<open>answers\<close> keeps the answer a variable in proofs; the laws below are stated over it.\<close>

definition answers :: "env \<Rightarrow> hist \<Rightarrow> call \<Rightarrow> reply \<Rightarrow> bool" where
  "answers E h c r \<longleftrightarrow> r = answer E h c"

lemma ext_law:
  "returns (ext E c s) (\<lambda>r s'. base.more s' = base.more s \<and> trace s' = trace s @ [(c, r)] \<and>
     answers E (trace s) c r \<and> errno s' = (if err r = 0 then errno s else err r))"
  by (simp add: returns_ext upon_ext Let_def answers_def)

section \<open>What a history says\<close>

datatype resource = Mem int | File int | Dir int | Sock int

fun acquires :: "call \<Rightarrow> reply \<Rightarrow> resource set" where
  "acquires (CMem (Malloc n)) r = (if ret r = 0 then {} else {Mem (ret r)})"
| "acquires (CFile (Fopen p m)) r = (if ret r = 0 then {} else {File (ret r)})"
| "acquires (CFile (Diropen p)) r = (if ret r = 0 then {} else {Dir (ret r)})"
| "acquires (CNet Net_socket) r = (if ret r < 0 then {} else {Sock (ret r)})"
| "acquires (CNet (Net_accept k)) r = (if ret r < 0 then {} else {Sock (ret r)})"
| "acquires (CDev (NtfsFindPartitions d)) r = (if out r = 0 then {} else {Mem (uint (out r))})"
| "acquires _ r = {}"

fun releases :: "call \<Rightarrow> resource set" where
  "releases (CMem (Free p)) = {Mem p}"
| "releases (CFile (Fclose f)) = {File f}"
| "releases (CFile (Dirclose d)) = {Dir d}"
| "releases (CNet (Net_close k)) = {Sock k}"
| "releases _ = {}"

definition held_step :: "call \<times> reply \<Rightarrow> resource set \<Rightarrow> resource set" where
  "held_step cr A = (case cr of (c, r) \<Rightarrow> A - releases c \<union> acquires c r)"

definition held :: "hist \<Rightarrow> resource set" where
  "held h = fold held_step h {}"

lemma held_Nil [simp]: "held [] = {}"
  by (simp add: held_def)

lemma held_snoc [simp]: "held (h @ [(c, r)]) = held h - releases c \<union> acquires c r"
  by (simp add: held_def held_step_def)

lemma held_snoc2 [simp]:
  "held (h @ [(c, r), (c', r')]) = held h - releases c \<union> acquires c r - releases c' \<union> acquires c' r'"
  using held_snoc[of "h @ [(c, r)]" c' r'] by simp

text \<open>
  A call that works on a block, a file or a directory is undefined unless the program holds it:
  a second \<open>free\<close> or \<open>fclose\<close>, or reading from a file after it was closed, has no result.
\<close>

definition ext_on :: "resource \<Rightarrow> env \<Rightarrow> call \<Rightarrow> 'z base_scheme \<Rightarrow> (reply \<times> 'z base_scheme) option" where
  "ext_on x E c s = (if x \<in> held (trace s) then ext E c s else None)"

lemma ext_on_held [simp]: "x \<in> held (trace s) \<Longrightarrow> ext_on x E c s = ext E c s"
  by (simp add: ext_on_def)

lemma upon_ext_on: "upon (ext E c s) Q \<Longrightarrow> upon (ext_on x E c s) Q"
  by (simp add: ext_on_def)

section \<open>Pointers to strings\<close>

text \<open>
  The result of a C function that returns \<open>char *\<close>: NULL, a pointer to a string literal, or a
  pointer to a block from \<open>malloc\<close>. Freeing a literal is undefined.
\<close>

datatype cstr = Null | Static string | Heap int string

definition malloc :: "env \<Rightarrow> nat \<Rightarrow> 'z base_scheme \<Rightarrow> (int \<times> 'z base_scheme) option" where
  "malloc E n s = do { (r, s) \<leftarrow> ext E (CMem (Malloc n)) s; Some (ret r, s) }"

definition free :: "env \<Rightarrow> int \<Rightarrow> 'z base_scheme \<Rightarrow> (unit \<times> 'z base_scheme) option" where
  "free E p s = (if p = 0 then Some ((), s) else do { (_, s) \<leftarrow> ext_on (Mem p) E (CMem (Free p)) s; Some ((), s) })"

definition free_str :: "env \<Rightarrow> cstr \<Rightarrow> 'z base_scheme \<Rightarrow> (unit \<times> 'z base_scheme) option" where
  "free_str E p s =
     (case p of Null \<Rightarrow> Some ((), s) | Static _ \<Rightarrow> None | Heap a _ \<Rightarrow> free E a s)"

definition strerror :: "env \<Rightarrow> int \<Rightarrow> 'z base_scheme \<Rightarrow> (string \<times> 'z base_scheme) option" where
  "strerror E n s = do { (r, s) \<leftarrow> ext E (CSys (Strerror n)) s; Some (data r, s) }"

definition gettime :: "env \<Rightarrow> 'z base_scheme \<Rightarrow> (u64 \<times> 'z base_scheme) option" where
  "gettime E s = do { (r, s) \<leftarrow> ext E (CSys Gettime) s; Some (word_of_int (ret r), s) }"

section \<open>Laws of the environment\<close>

text \<open>
  The law of every allocator: what a call hands out was not held before. It is documented
  behaviour of \<open>malloc\<close>, \<open>fopen\<close>, \<open>diropen\<close>, \<open>net_socket\<close> and \<open>net_accept\<close>.
\<close>

definition fresh :: "env \<Rightarrow> bool" where
  "fresh E \<longleftrightarrow> (\<forall>h c. acquires c (answer E h c) \<inter> held h = {})"

lemma freshD: "fresh E \<Longrightarrow> answers E h c r \<Longrightarrow> x \<in> acquires c r \<Longrightarrow> x \<notin> held h"
  by (auto simp: fresh_def answers_def)

text \<open>
  \<open>net_write\<close> never reports more bytes than it was given, \<open>net_read\<close> and \<open>fread\<close> never store
  more than they were asked for: documented laws again.
\<close>

definition write_bounded :: "env \<Rightarrow> bool" where
  "write_bounded E \<longleftrightarrow> (\<forall>h k b. ret (answer E h (CNet (Net_write k b))) \<le> int (length b))"

definition read_bounded :: "env \<Rightarrow> bool" where
  "read_bounded E \<longleftrightarrow>
     (\<forall>h k n. length (data (answer E h (CNet (Net_read k n)))) \<le> n) \<and>
     (\<forall>h f n. length (data (answer E h (CFile (Fread f n)))) \<le> n)"

lemma write_boundedD:
  "write_bounded E \<Longrightarrow> answers E h (CNet (Net_write k b)) r \<Longrightarrow> ret r \<le> int (length b)"
  by (simp add: write_bounded_def answers_def)

lemma read_boundedD:
  "read_bounded E \<Longrightarrow> answers E h (CNet (Net_read k n)) r \<Longrightarrow> length (data r) \<le> n"
  "read_bounded E \<Longrightarrow> answers E h (CFile (Fread f n)) r \<Longrightarrow> length (data r) \<le> n"
  by (simp_all add: read_bounded_def answers_def)

text \<open>
  The bytes that the answers of \<open>net_write\<close> report as sent on a socket, those \<open>net_read\<close> got
  from a socket, those \<open>fread\<close> got from a file and those \<open>fwrite\<close> put into a file.
\<close>

definition sent_by :: "int \<Rightarrow> call \<times> reply \<Rightarrow> string" where
  "sent_by k cr = (case cr of
       (CNet (Net_write k' b), r) \<Rightarrow> if k' = k then take (nat (ret r)) b else []
     | _ \<Rightarrow> [])"

definition received_by :: "int \<Rightarrow> call \<times> reply \<Rightarrow> string" where
  "received_by k cr = (case cr of
       (CNet (Net_read k' n), r) \<Rightarrow> if k' = k \<and> 0 \<le> ret r then data r else []
     | _ \<Rightarrow> [])"

definition fetched_by :: "int \<Rightarrow> call \<times> reply \<Rightarrow> string" where
  "fetched_by f cr = (case cr of
       (CFile (Fread f' n), r) \<Rightarrow> if f' = f then data r else []
     | _ \<Rightarrow> [])"

definition stored_by :: "int \<Rightarrow> call \<times> reply \<Rightarrow> string" where
  "stored_by f cr = (case cr of
       (CFile (Fwrite f' b), r) \<Rightarrow> if f' = f then take (nat (ret r)) b else []
     | _ \<Rightarrow> [])"

definition sent :: "int \<Rightarrow> hist \<Rightarrow> string" where
  "sent k h = concat (map (sent_by k) h)"

definition received :: "int \<Rightarrow> hist \<Rightarrow> string" where
  "received k h = concat (map (received_by k) h)"

definition fetched :: "int \<Rightarrow> hist \<Rightarrow> string" where
  "fetched f h = concat (map (fetched_by f) h)"

definition stored :: "int \<Rightarrow> hist \<Rightarrow> string" where
  "stored f h = concat (map (stored_by f) h)"

lemma stream_append [simp]:
  "sent k (h @ h') = sent k h @ sent k h'"
  "received k (h @ h') = received k h @ received k h'"
  "fetched f (h @ h') = fetched f h @ fetched f h'"
  "stored f (h @ h') = stored f h @ stored f h'"
  by (simp_all add: sent_def received_def fetched_def stored_def)

lemma stream_Cons [simp]:
  "sent k (x # h) = sent_by k x @ sent k h" "received k (x # h) = received_by k x @ received k h"
  "fetched f (x # h) = fetched_by f x @ fetched f h" "stored f (x # h) = stored_by f x @ stored f h"
  by (simp_all add: sent_def received_def fetched_def stored_def)

lemma stream_Nil [simp]: "sent k [] = []" "received k [] = []" "fetched f [] = []" "stored f [] = []"
  by (simp_all add: sent_def received_def fetched_def stored_def)

lemma stream_by_simps [simp]:
  "sent_by k (CNet (Net_write k' b), r) = (if k' = k then take (nat (ret r)) b else [])"
  "received_by k (CNet (Net_read k' n), r) = (if k' = k \<and> 0 \<le> ret r then data r else [])"
  "fetched_by f (CFile (Fread f' n), r) = (if f' = f then data r else [])"
  "stored_by f (CFile (Fwrite f' b), r) = (if f' = f then take (nat (ret r)) b else [])"
  by (simp_all add: sent_by_def received_by_def fetched_by_def stored_by_def)

lemma stream_by_other [simp]:
  "sent_by k (CFile fc, r) = []" "sent_by k (CMem m, r) = []" "sent_by k (CSys y, r) = []"
  "sent_by k (CNet (Net_read k' n), r) = []" "sent_by k (CNet (Net_fcntl k' c a), r) = []"
  "received_by k (CFile fc, r) = []" "received_by k (CNet (Net_fcntl k' c a), r) = []"
  "received_by k (CNet (Net_write k' b), r) = []"
  "fetched_by f (CNet nc, r) = []" "stored_by f (CNet nc, r) = []"
  "stored_by f (CFile (Fread f' n), r) = []" "fetched_by f (CFile (Fwrite f' b), r) = []"
  "fetched_by f (CFile (Feof f'), r) = []" "stored_by f (CFile (Feof f'), r) = []"
  by (simp_all add: sent_by_def received_by_def fetched_by_def stored_by_def)

text \<open>
  \<open>yield h\<close> is what the outside has offered in all: connections, bytes received and read, entries
  of directories. In a finite world of size \<open>N\<close> nothing more comes once that much has come: no peer,
  file or directory goes on for ever. The law bounds the loops that last as long as there is more.
\<close>

definition amount :: "call \<times> reply \<Rightarrow> nat" where
  "amount cr = (case cr of
       (CNet (Net_accept k), r) \<Rightarrow> if ret r < 0 then 0 else 1
     | (CNet (Net_read k n), r) \<Rightarrow> if ret r < 0 then 0 else length (data r)
     | (CFile (Fread f n), r) \<Rightarrow> length (data r)
     | (CFile (Dirnext d), r) \<Rightarrow> if ret r = 0 then 1 else 0
     | _ \<Rightarrow> 0)"

lemma amount_simps [simp]:
  "amount (CNet (Net_accept k), r) = (if ret r < 0 then 0 else 1)"
  "amount (CNet (Net_read k n), r) = (if ret r < 0 then 0 else length (data r))"
  "amount (CFile (Fread f n), r) = length (data r)"
  "amount (CFile (Dirnext d), r) = (if ret r = 0 then 1 else 0)"
  by (simp_all add: amount_def)

definition yield :: "hist \<Rightarrow> nat" where
  "yield h = sum_list (map amount h)"

lemma yield_simps [simp]: "yield [] = 0" "yield (h @ h') = yield h + yield h'" "yield (x # h) = amount x + yield h"
  by (simp_all add: yield_def)

definition finite_world :: "env \<Rightarrow> nat \<Rightarrow> bool" where
  "finite_world E N \<longleftrightarrow> (\<forall>h c. N \<le> yield h \<longrightarrow> amount (c, answer E h c) = 0)"

lemma finite_worldD: "finite_world E N \<Longrightarrow> answers E h c r \<Longrightarrow> N \<le> yield h \<Longrightarrow> amount (c, r) = 0"
  by (simp add: finite_world_def answers_def)

lemma received_yield: "length (received k h) \<le> yield h"
proof -
  have "length (received_by k x) \<le> amount x" for x
    by (auto simp: received_by_def amount_def split: prod.splits call.splits net_call.splits)
  then show ?thesis by (induction h) (auto intro: add_mono)
qed

text \<open>\<open>logs C s s'\<close>: between the two states only calls that satisfy \<open>C\<close> were made.\<close>

definition logs :: "(call \<Rightarrow> bool) \<Rightarrow> 'y base_scheme \<Rightarrow> 'z base_scheme \<Rightarrow> bool" where
  "logs C s s' \<longleftrightarrow> (\<exists>t. trace s' = trace s @ t \<and> list_all (\<lambda>(c, r). C c) t)"

lemma logs_refl [simp, intro]: "logs C s s"
  by (simp add: logs_def)

lemma logs_trans [trans]: "logs C s s' \<Longrightarrow> logs C s' s'' \<Longrightarrow> logs C s s''"
  unfolding logs_def by (metis append.assoc list_all_append)

lemma logs_mono: "logs C s s' \<Longrightarrow> (\<And>c. C c \<Longrightarrow> D c) \<Longrightarrow> logs D s s'"
  unfolding logs_def by (fastforce simp: list_all_iff)

lemma logs_snoc [simp]:
  "logs C s s' \<Longrightarrow> C c \<Longrightarrow> logs C s (s'\<lparr>trace := trace s' @ [(c, r)], errno := e\<rparr>)"
  by (auto simp: logs_def)

lemma logs_same: "trace s' = trace s'' \<Longrightarrow> logs C s s' \<longleftrightarrow> logs C s s''"
  by (simp add: logs_def)

text \<open>\<open>extends s s'\<close>: the history of \<open>s'\<close> goes on from that of \<open>s\<close>.\<close>

abbreviation extends :: "'y base_scheme \<Rightarrow> 'z base_scheme \<Rightarrow> bool" where
  "extends \<equiv> logs (\<lambda>_. True)"

lemma logs_extends: "logs C s s' \<Longrightarrow> extends s s'"
  by (erule logs_mono) simp

lemma snoc_extends: "trace s' = trace s @ t \<Longrightarrow> extends s s'"
  by (auto simp: logs_def list_all_iff)

text \<open>\<open>remaining N s\<close> bounds what is still to come in a finite world of size \<open>N\<close>.\<close>

definition remaining :: "nat \<Rightarrow> 'z base_scheme \<Rightarrow> nat" where
  "remaining N s = N - yield (trace s)"

lemma extends_remaining: "extends s s' \<Longrightarrow> remaining N s' \<le> remaining N s"
  by (auto simp: logs_def remaining_def)

lemma remaining_less:
  assumes "finite_world E N" "answers E (trace s) c r" "trace s' = trace s @ [(c, r)]" "amount (c, r) \<noteq> 0"
  shows "remaining N s' < remaining N s"
  using finite_worldD[OF assms(1,2)] assms(3,4) by (cases "N \<le> yield (trace s)") (auto simp: remaining_def)

lemma upon_ext_logs: "C c \<Longrightarrow> upon (ext E c s) (\<lambda>r s'. logs C s s')"
  by (simp add: returns_ext upon_ext Let_def)

text \<open>Calls that neither hand out nor take back a resource leave the held resources alone.\<close>

definition neutral :: "call \<Rightarrow> bool" where
  "neutral c \<longleftrightarrow> releases c = {} \<and> (\<forall>r. acquires c r = {})"

lemma logs_neutral_held: "logs neutral s s' \<Longrightarrow> held (trace s') = held (trace s)"
proof -
  have "list_all (\<lambda>(c, r). neutral c) t \<Longrightarrow> held (h @ t) = held h" for h t
  proof (induction t rule: rev_induct)
    case (snoc x xs)
    then show ?case by (cases x) (simp add: neutral_def flip: append_assoc)
  qed simp
  then show "logs neutral s s' \<Longrightarrow> held (trace s') = held (trace s)" by (auto simp: logs_def)
qed

text \<open>\<open>frame C s s'\<close>: only calls that satisfy \<open>C\<close>, and no component's variables changed.\<close>

definition frame :: "(call \<Rightarrow> bool) \<Rightarrow> 'z base_scheme \<Rightarrow> 'z base_scheme \<Rightarrow> bool" where
  "frame C s s' \<longleftrightarrow> logs C s s' \<and> base.more s' = base.more s"

lemma frame_refl [simp, intro]: "frame C s s"
  by (simp add: frame_def)

lemma frame_trans [trans]: "frame C s s' \<Longrightarrow> frame C s' s'' \<Longrightarrow> frame C s s''"
  by (auto simp: frame_def intro: logs_trans)

lemma frame_mono: "frame C s s' \<Longrightarrow> (\<And>c. C c \<Longrightarrow> D c) \<Longrightarrow> frame D s s'"
  by (auto simp: frame_def intro: logs_mono)

lemma frame_call: "base.more s' = base.more s \<Longrightarrow> trace s' = trace s @ [(c, r)] \<Longrightarrow> C c \<Longrightarrow> frame C s s'"
  by (simp add: frame_def logs_def)

lemma frame_more: "frame C s s' \<Longrightarrow> base.more s' = base.more s"
  by (simp add: frame_def)

lemma frame_extends: "frame C s s' \<Longrightarrow> extends s s'"
  unfolding frame_def by (blast intro: logs_extends)

lemma frame_held: "frame neutral s s' \<Longrightarrow> held (trace s') = held (trace s)"
  by (simp add: frame_def logs_neutral_held)

lemma ext_frame: "C c \<Longrightarrow> returns (ext E c s) (\<lambda>r s'. frame C s s')"
  by (simp add: returns_ext upon_ext Let_def frame_def)

lemma ext_neutral:
  "neutral c \<Longrightarrow> C c \<Longrightarrow>
   returns (ext E c s) (\<lambda>r s'. frame C s s' \<and> held (trace s') = held (trace s))"
  by (simp add: returns_ext upon_ext Let_def frame_def neutral_def)

section \<open>Memory\<close>

definition mem_only :: "call \<Rightarrow> bool" where
  "mem_only c \<longleftrightarrow> (case c of CMem _ \<Rightarrow> True | _ \<Rightarrow> False)"

lemma malloc_returns:
  assumes "fresh E"
  shows "returns (malloc E n s) (\<lambda>p s'. frame mem_only s s' \<and>
    (if p = 0 then held (trace s') = held (trace s)
     else Mem p \<notin> held (trace s) \<and> held (trace s') = insert (Mem p) (held (trace s))))"
  unfolding malloc_def
  by (auto intro!: returns_mono[OF ext_law] frame_call simp: mem_only_def dest: freshD[OF assms])

lemma free_returns:
  "p \<noteq> 0 \<longrightarrow> Mem p \<in> held (trace s) \<Longrightarrow> returns (free E p s) (\<lambda>_ s'. frame mem_only s s' \<and>
    held (trace s') = (if p = 0 then held (trace s) else held (trace s) - {Mem p}))"
  by (simp add: free_def returns_ext Let_def frame_def mem_only_def)

lemma free_upon:
  "upon (free E p s) (\<lambda>_ s'. frame mem_only s s' \<and>
    held (trace s') = (if p = 0 then held (trace s) else held (trace s) - {Mem p}))"
  by (simp add: free_def ext_on_def upon_ext Let_def frame_def mem_only_def)

section \<open>Sample environments\<close>

text \<open>
  A world to run the program in: every allocation succeeds with a number larger than all numbers
  the history mentions, writes take everything, reads find the end of the stream, all else
  answers 0. \<open>script\<close> overrides answers that hand out nothing. The laws above hold in it, so they
  are satisfiable together.
\<close>

fun next_id :: "hist \<Rightarrow> int" where
  "next_id [] = 1"
| "next_id ((c, r) # h) = \<bar>ret r\<bar> + uint (out r) + next_id h"

fun sample_answer :: "hist \<Rightarrow> call \<Rightarrow> reply" where
  "sample_answer h (CMem (Malloc n)) = ok (next_id h)"
| "sample_answer h (CFile (Fopen p m)) = ok (next_id h)"
| "sample_answer h (CFile (Diropen p)) = ok (next_id h)"
| "sample_answer h (CNet Net_socket) = ok (next_id h)"
| "sample_answer h (CNet (Net_accept k)) = ok (next_id h)"
| "sample_answer h (CNet (Net_write k b)) = ok (int (length b))"
| "sample_answer h (CFile (Fwrite f b)) = ok (int (length b))"
| "sample_answer h (CFile (Feof f)) = ok 1"
| "sample_answer h c = ok 0"

definition sample_env :: "(hist \<Rightarrow> call \<Rightarrow> reply option) \<Rightarrow> env" where
  "sample_env script = \<lparr>answer = (\<lambda>h c. case script h c of None \<Rightarrow> sample_answer h c | Some r \<Rightarrow> r),
     MAXPATHLEN = 1024, secs_to_ticks = (\<lambda>n. of_nat n * 60750000), DVD_READY = 1,
     wpad_mask = case_button 0x0008 0x0004 0x0100 0x0200 0x0800 0x0400 0x0002,
     pad_mask = case_button 0x0100 0x0200 0x0001 0x0002 0x0008 0x0004 0x0400,
     garbage_stat = \<lparr>st_mode = 0, st_size = 0, st_mtime = 0\<rparr>,
     sizeof_client = 3200, ram = (\<lambda>a. 0),
     video_mode = (\<lambda>p. \<lparr>viTVMode = 0, fbWidth = 640, xfbHeight = 480\<rparr>), VI_NON_INTERLACE = 1,
     COLOR_BLACK = 0x00800080, MEM_K0_TO_K1 = (\<lambda>p. p + 0x40000000)\<rparr>"

definition unscripted :: "hist \<Rightarrow> call \<Rightarrow> reply option" where
  "unscripted h c = None"

fun resource_id :: "resource \<Rightarrow> int" where
  "resource_id (Mem n) = n"
| "resource_id (File n) = n"
| "resource_id (Dir n) = n"
| "resource_id (Sock n) = n"

lemma next_id_pos: "0 < next_id h"
  by (induction h rule: next_id.induct) (auto intro: add_nonneg_pos)

lemma next_id_snoc: "next_id (h @ [(c, r)]) = \<bar>ret r\<bar> + uint (out r) + next_id h"
  by (induction h rule: next_id.induct) simp_all

lemma acquires_id: "x \<in> acquires c r \<Longrightarrow> resource_id x \<le> \<bar>ret r\<bar> + uint (out r)"
  by (induction c r rule: acquires.induct) (auto split: if_splits intro: add_increasing2)

lemma held_less: "x \<in> held h \<Longrightarrow> resource_id x < next_id h"
proof (induction h rule: rev_induct)
  case (snoc cr h)
  obtain c r where [simp]: "cr = (c, r)" by (cases cr)
  from snoc.prems consider "x \<in> held h" | "x \<in> acquires c r" by auto
  then show ?case
  proof cases
    case 1
    have "0 \<le> \<bar>ret r\<bar> + uint (out r)" by simp
    then show ?thesis using snoc.IH[OF 1] by (simp only: next_id_snoc \<open>cr = (c, r)\<close>)
  next
    case 2
    then show ?thesis using acquires_id[OF 2] next_id_pos[of h] by (simp add: next_id_snoc)
  qed
qed simp

lemma acquires_dev_ok [simp]: "acquires (CDev v) (ok n) = {}"
  by (cases v) simp_all

lemma acquires_ok: "x \<in> acquires c (sample_answer h c) \<Longrightarrow> resource_id x = next_id h"
  by (induction h c rule: sample_answer.induct) (auto split: if_splits)

lemma answer_sample [simp]:
  "answer (sample_env script) h c = (case script h c of None \<Rightarrow> sample_answer h c | Some r \<Rightarrow> r)"
  by (simp add: sample_env_def)

lemma MAXPATHLEN_sample [simp]: "MAXPATHLEN (sample_env script) = 1024"
  by (simp add: sample_env_def)

lemma sample_fresh:
  assumes "\<And>h c r. script h c = Some r \<Longrightarrow> acquires c r = {}"
  shows "fresh (sample_env script)"
  unfolding fresh_def
  using assms acquires_ok held_less by (fastforce split: option.splits)

lemma sample_unscripted [simp]: "fresh (sample_env unscripted)"
  by (rule sample_fresh) (simp add: unscripted_def)

lemma sample_bounded:
  assumes "\<And>h k b. script h (CNet (Net_write k b)) = None"
    and "\<And>h k n r. script h (CNet (Net_read k n)) = Some r \<Longrightarrow> length (data r) \<le> n"
    and "\<And>h f n r. script h (CFile (Fread f n)) = Some r \<Longrightarrow> length (data r) \<le> n"
  shows "write_bounded (sample_env script)" "read_bounded (sample_env script)"
  using assms by (auto simp: write_bounded_def read_bounded_def ok_def split: option.splits)

lemma unscripted_bounded [simp]:
  "write_bounded (sample_env unscripted)" "read_bounded (sample_env unscripted)"
  by (auto intro!: sample_bounded simp: unscripted_def)

end
