(* ===== verification/Reset.thy ===== *)
theory Reset
  imports Env
begin

text \<open>
  \<open>source/reset.c\<close> and \<open>source/pad.c\<close>: the reset and power flags and the polling of the pads.

  The flags are also set by callbacks of the console's buttons, at any moment. A flag is only seen
  where it is read, so the model asks the environment there (\<open>Button_callback\<close>) whether a callback
  has run since: 1 stands for \<open>set_reset_flag\<close>, 2 for \<open>set_power_flag\<close>.
\<close>

record reset_st = base +
  reset_flag :: bool
  power_flag :: bool

definition set_reset_flag :: "'z reset_st_scheme \<Rightarrow> 'z reset_st_scheme" where
  "set_reset_flag s = s\<lparr>reset_flag := True\<rparr>"

definition set_power_flag :: "'z reset_st_scheme \<Rightarrow> 'z reset_st_scheme" where
  "set_power_flag s = s\<lparr>reset_flag := True, power_flag := True\<rparr>"

definition button_callbacks ::
  "env \<Rightarrow> 'z reset_st_scheme \<Rightarrow> (unit \<times> 'z reset_st_scheme) option" where
  "button_callbacks E s = do {
     (r, s) \<leftarrow> ext E (CSys Button_callback) s;
     Some ((), if ret r = 1 then set_reset_flag s
               else if ret r = 2 then set_power_flag s else s)
   }"

definition reset :: "env \<Rightarrow> 'z reset_st_scheme \<Rightarrow> (bool \<times> 'z reset_st_scheme) option" where
  "reset E s = do { (_, s) \<leftarrow> button_callbacks E s; Some (reset_flag s, s) }"

section \<open>Pads\<close>

definition check_wiimote :: "env \<Rightarrow> u32 \<Rightarrow> 'z base_scheme \<Rightarrow> (u32 \<times> 'z base_scheme) option" where
  "check_wiimote E buttons s = do {
     (_, s) \<leftarrow> ext E (CSys WPAD_ScanPads) s;
     (r, s) \<leftarrow> ext E (CSys WPAD_ButtonsDown) s;
     let pressed = word_of_int (ret r);
     Some (if pressed AND buttons \<noteq> 0 then pressed else 0, s)
   }"

definition check_gamecube :: "env \<Rightarrow> u32 \<Rightarrow> 'z base_scheme \<Rightarrow> (u32 \<times> 'z base_scheme) option" where
  "check_gamecube E buttons s = do {
     (_, s) \<leftarrow> ext E (CSys PAD_ScanPads) s;
     (r, s) \<leftarrow> ext E (CSys PAD_ButtonsDown) s;
     let pressed = word_of_int (ret r);
     if pressed AND buttons \<noteq> 0 then do {
       (_, s) \<leftarrow> ext E (CSys VIDEO_WaitVSync) s;
       Some (pressed, s)
     } else Some (0, s)
   }"

section \<open>Polling for a reset, and leaving the program\<close>

definition check_reset_synchronous ::
  "env \<Rightarrow> 'z reset_st_scheme \<Rightarrow> (bool \<times> 'z reset_st_scheme) option" where
  "check_reset_synchronous E s = do {
     (flag, s) \<leftarrow> reset E s;
     if flag then Some (True, s) else do {
       (w, s) \<leftarrow> check_wiimote E (wpad_mask E Button_A) s;
       if w \<noteq> 0 then Some (True, s) else do {
         (g, s) \<leftarrow> check_gamecube E (pad_mask E Button_A) s;
         Some (g \<noteq> 0, s)
       }
     }
   }"

definition maybe_poweroff :: "env \<Rightarrow> 'z reset_st_scheme \<Rightarrow> (unit \<times> 'z reset_st_scheme) option" where
  "maybe_poweroff E s = do {
     (_, s) \<leftarrow> button_callbacks E s;
     if power_flag s then do { (_, s) \<leftarrow> ext E (CSys SYS_PowerOff) s; Some ((), s) }
     else Some ((), s)
   }"

text \<open>
  \<open>die\<close> waits for a reset and ends the process. Its result here is the state the process ends in;
  its callers never get control back, which they write as \<open>exit_after (die E s)\<close>.
\<close>

partial_function (option) die_wait ::
  "env \<Rightarrow> 'z reset_st_scheme \<Rightarrow> (unit \<times> 'z reset_st_scheme) option" where
  "die_wait E s = do {
     (b, s) \<leftarrow> check_reset_synchronous E s;
     if b then Some ((), s) else do {
       (_, s) \<leftarrow> ext E (CSys VIDEO_WaitVSync) s;
       die_wait E s
     }
   }"

declare die_wait.simps [code]

definition die :: "env \<Rightarrow> 'z reset_st_scheme \<Rightarrow> (unit \<times> 'z reset_st_scheme) option" where
  "die E s = do { (_, s) \<leftarrow> die_wait E s; maybe_poweroff E s }"

definition exit_after :: "('a \<times> 's) option \<Rightarrow> ('b \<times> 's) option" where
  "exit_after m = None"

section \<open>Facts\<close>

definition sys_only :: "call \<Rightarrow> bool" where
  "sys_only c \<longleftrightarrow> (case c of CSys _ \<Rightarrow> True | _ \<Rightarrow> False)"

lemma sys_only_simp [simp]: "sys_only (CSys y)"
  by (simp add: sys_only_def)

text \<open>What polling may change: the history, \<open>errno\<close> and the two flags, and a flag once set stays.\<close>

definition reset_frame :: "'z reset_st_scheme \<Rightarrow> 'z reset_st_scheme \<Rightarrow> bool" where
  "reset_frame s s' \<longleftrightarrow> logs sys_only s s' \<and> reset_st.more s' = reset_st.more s \<and>
     (reset_flag s \<longrightarrow> reset_flag s') \<and> (power_flag s \<longrightarrow> power_flag s') \<and>
     (power_flag s' \<longrightarrow> reset_flag s' \<or> power_flag s)"

lemma reset_frame_refl [simp]: "reset_frame s s"
  by (simp add: reset_frame_def)

lemma reset_frame_trans [trans]: "reset_frame s s' \<Longrightarrow> reset_frame s' s'' \<Longrightarrow> reset_frame s s''"
  unfolding reset_frame_def by (auto intro: logs_trans)

lemma base_more_reset:
  "base.more s' = base.more s \<Longrightarrow>
   reset_flag s' = reset_flag s \<and> power_flag s' = power_flag s \<and> reset_st.more s' = reset_st.more s"
  by (cases s; cases s') simp

lemma frame_reset_frame: "frame sys_only s s' \<Longrightarrow> reset_frame s s'"
  using base_more_reset[of s' s] by (auto simp: frame_def reset_frame_def)

lemma reset_frame_step: "reset_frame s s' \<Longrightarrow> frame sys_only s' s'' \<Longrightarrow> reset_frame s s''"
  by (blast intro: reset_frame_trans frame_reset_frame)

lemma frame_flags:
  "frame C s s' \<Longrightarrow>
   reset_flag s' = reset_flag s \<and> power_flag s' = power_flag s \<and> reset_st.more s' = reset_st.more s"
  by (rule base_more_reset) (rule frame_more)

lemma ext_sys_frame: "returns (ext E (CSys y) s) (\<lambda>r s'. frame sys_only s s')"
  by (rule ext_frame) simp

lemma set_flag_reset_frame:
  "reset_frame s s' \<Longrightarrow> reset_frame s (set_reset_flag s')"
  "reset_frame s s' \<Longrightarrow> reset_frame s (set_power_flag s')"
  by (auto simp: reset_frame_def set_reset_flag_def set_power_flag_def logs_def)

lemma button_callbacks_frame: "returns (button_callbacks E s) (\<lambda>_ s'. reset_frame s s')"
  unfolding button_callbacks_def
  by (auto intro!: returns_mono[OF ext_sys_frame] set_flag_reset_frame intro: frame_reset_frame)

lemma reset_returns: "returns (reset E s) (\<lambda>b s'. reset_frame s s' \<and> b = reset_flag s')"
  unfolding reset_def by (auto intro!: returns_mono[OF button_callbacks_frame])

lemma check_wiimote_frame: "returns (check_wiimote E m s) (\<lambda>_ s'. frame sys_only s s')"
  unfolding check_wiimote_def
  by (auto simp: Let_def intro!: returns_mono[OF ext_sys_frame] intro: frame_trans)

lemma check_gamecube_frame: "returns (check_gamecube E m s) (\<lambda>_ s'. frame sys_only s s')"
  unfolding check_gamecube_def
  by (auto simp: Let_def intro!: returns_mono[OF ext_sys_frame] intro: frame_trans)

lemma check_reset_synchronous_returns:
  "returns (check_reset_synchronous E s) (\<lambda>b s'. reset_frame s s' \<and> (reset_flag s' \<longrightarrow> b))"
  unfolding check_reset_synchronous_def
  by (auto intro!: returns_mono[OF reset_returns] returns_mono[OF check_wiimote_frame]
      returns_mono[OF check_gamecube_frame]
      dest: frame_flags intro: reset_frame_step frame_reset_frame)

end
