(* ===== verification/Net.thy ===== *)
theory Net
  imports Reset "HOL-Library.Sublist"
begin

text \<open>
  \<open>source/net.c\<close>: bringing the network up, the listening socket, and moving exact amounts of bytes
  between sockets, buffers and files. The variable of the component is \<open>NET_BUFFER_SIZE\<close>, which is
  lowered for good the first time the network stack refuses a large buffer.

  \<open>byte_sink\<close> is the contract between \<open>transfer_exact\<close> and its transferrer; the results are
  that a transfer ends, that it sends a prefix of the buffer, all of it exactly when it returns 0,
  and that a file goes to a socket, and a socket's data to a file, without loss or reordering.
\<close>

definition MAX_NET_BUFFER_SIZE :: u32 where "MAX_NET_BUFFER_SIZE = 32768"
definition MIN_NET_BUFFER_SIZE :: u32 where "MIN_NET_BUFFER_SIZE = 4096"
definition FREAD_BUFFER_SIZE :: nat where "FREAD_BUFFER_SIZE = 32768"

record net_st = reset_st +
  NET_BUFFER_SIZE :: u32

section \<open>Bringing the network up\<close>

partial_function (option) net_init_wait ::
  "env \<Rightarrow> int \<Rightarrow> 'z reset_st_scheme \<Rightarrow> (int \<times> 'z reset_st_scheme) option" where
  "net_init_wait E result s = do {
     (b, s) \<leftarrow> check_reset_synchronous E s;
     if b then Some (result, s) else do {
       (r, s) \<leftarrow> ext E (CNet Net_init) s;
       if ret r = - EAGAIN then net_init_wait E (ret r) s else Some (ret r, s)
     }
   }"

declare net_init_wait.simps [code]

partial_function (option) net_init_loop ::
  "env \<Rightarrow> int \<Rightarrow> 'z reset_st_scheme \<Rightarrow> (int \<times> 'z reset_st_scheme) option" where
  "net_init_loop E result s = do {
     (b, s) \<leftarrow> check_reset_synchronous E s;
     if \<not> b \<and> result < 0 then do {
       (_, s) \<leftarrow> ext E (CNet Net_deinit) s;
       (result, s) \<leftarrow> net_init_wait E result s;
       net_init_loop E result s
     } else Some (result, s)
   }"

declare net_init_loop.simps [code]

partial_function (option) gethostip_loop ::
  "env \<Rightarrow> 'z reset_st_scheme \<Rightarrow> (u32 \<times> 'z reset_st_scheme) option" where
  "gethostip_loop E s = do {
     (r, s) \<leftarrow> ext E (CNet Net_gethostip) s;
     let ip = word_of_int (ret r);
     (b, s) \<leftarrow> check_reset_synchronous E s;
     if \<not> b \<and> ip = 0 then gethostip_loop E s else Some (ip, s)
   }"

declare gethostip_loop.simps [code]

definition initialise_network ::
  "env \<Rightarrow> 'z reset_st_scheme \<Rightarrow> (unit \<times> 'z reset_st_scheme) option" where
  "initialise_network E s = do {
     (result, s) \<leftarrow> net_init_loop E (-1) s;
     if result \<ge> 0 then do { (_, s) \<leftarrow> gethostip_loop E s; Some ((), s) } else Some ((), s)
   }"

section \<open>Sockets\<close>

definition set_blocking ::
  "env \<Rightarrow> int \<Rightarrow> bool \<Rightarrow> 'z base_scheme \<Rightarrow> (int \<times> 'z base_scheme) option" where
  "set_blocking E k blocking s = do {
     (r, s) \<leftarrow> ext E (CNet (Net_fcntl k F_GETFL 0)) s;
     let flags = ret r;
     if flags \<ge> 0 then do {
       (r, s) \<leftarrow> ext E (CNet (Net_fcntl k F_SETFL (if blocking then flags AND NOT 4 else flags OR 4))) s;
       Some (ret r, s)
     } else Some (flags, s)
   }"

definition net_close :: "env \<Rightarrow> int \<Rightarrow> 'z base_scheme \<Rightarrow> (int \<times> 'z base_scheme) option" where
  "net_close E k s = do { (r, s) \<leftarrow> ext E (CNet (Net_close k)) s; Some (ret r, s) }"

definition net_close_blocking :: "env \<Rightarrow> int \<Rightarrow> 'z base_scheme \<Rightarrow> (int \<times> 'z base_scheme) option" where
  "net_close_blocking E k s = do { (_, s) \<leftarrow> set_blocking E k True s; net_close E k s }"

definition INADDR_ANY :: u32 where "INADDR_ANY = 0"

definition create_server :: "env \<Rightarrow> u16 \<Rightarrow> 'z reset_st_scheme \<Rightarrow> (int \<times> 'z reset_st_scheme) option" where
  "create_server E port s = do {
     (r, s) \<leftarrow> ext E (CNet Net_socket) s;
     let server = ret r;
     if server < 0 then exit_after (die E s) else do {
       (_, s) \<leftarrow> set_blocking E server False s;
       (r, s) \<leftarrow> ext E (CNet (Net_bind server \<lparr>sin_addr = INADDR_ANY, sin_port = port\<rparr>)) s;
       if ret r < 0 then do { (_, s) \<leftarrow> net_close E server s; Some (ret r, s) }
       else do {
         (r, s) \<leftarrow> ext E (CNet (Net_listen server 3)) s;
         if ret r < 0 then do { (_, s) \<leftarrow> net_close E server s; Some (ret r, s) }
         else Some (server, s)
       }
     }
   }"

section \<open>Exact transfers\<close>

text \<open>
  The buffer is what is left of it: \<open>remaining\<close> is its length, advancing the pointer drops bytes.
  \<open>remaining\<close> is never negative, so that the unsigned comparison of \<open>MIN\<close> is the one of numbers.
  A transferrer that reports more bytes than are left moves the pointer out of the buffer, which is
  undefined.
\<close>

partial_function (option) transfer_loop ::
  "env \<Rightarrow> (int \<Rightarrow> string \<Rightarrow> call) \<Rightarrow> int \<Rightarrow> string \<Rightarrow> 'z net_st_scheme \<Rightarrow> (int \<times> 'z net_st_scheme) option" where
  "transfer_loop E transferrer k buf s =
     (if buf = [] then Some (0, s) else do {
        (r, s) \<leftarrow> ext E (transferrer k (take (min (length buf) (unat (NET_BUFFER_SIZE s))) buf)) s;
        if ret r > 0 then
          (if ret r > int (length buf) then None
           else transfer_loop E transferrer k (drop (nat (ret r)) buf) s)
        else if ret r < 0 then
          (if ret r = - EINVAL \<and> NET_BUFFER_SIZE s = MAX_NET_BUFFER_SIZE
           then transfer_loop E transferrer k buf (s\<lparr>NET_BUFFER_SIZE := MIN_NET_BUFFER_SIZE\<rparr>)
           else Some (ret r, s))
        else Some (- ENODATA, s)
      })"

declare transfer_loop.simps [code]

definition transfer_exact ::
  "env \<Rightarrow> (int \<Rightarrow> string \<Rightarrow> call) \<Rightarrow> int \<Rightarrow> string \<Rightarrow> 'z net_st_scheme \<Rightarrow> (int \<times> 'z net_st_scheme) option" where
  "transfer_exact E transferrer k buf s = do {
     (_, s) \<leftarrow> set_blocking E k True s;
     (result, s) \<leftarrow> transfer_loop E transferrer k buf s;
     (_, s) \<leftarrow> set_blocking E k False s;
     Some (result, s)
   }"

definition send_exact ::
  "env \<Rightarrow> int \<Rightarrow> string \<Rightarrow> 'z net_st_scheme \<Rightarrow> (int \<times> 'z net_st_scheme) option" where
  "send_exact E = transfer_exact E (\<lambda>k b. CNet (Net_write k b))"

section \<open>Files to sockets and back\<close>

text \<open>
  \<open>fread\<close> and \<open>net_read\<close> store what they got in a buffer of \<open>n\<close> bytes; storing more is undefined.
\<close>

definition fread :: "env \<Rightarrow> int \<Rightarrow> nat \<Rightarrow> 'z base_scheme \<Rightarrow> (string \<times> 'z base_scheme) option" where
  "fread E f n s = do {
     (r, s) \<leftarrow> ext_on (File f) E (CFile (Fread f n)) s;
     if length (data r) > n then None else Some (data r, s)
   }"

definition net_read ::
  "env \<Rightarrow> int \<Rightarrow> nat \<Rightarrow> 'z base_scheme \<Rightarrow> ((int \<times> string) \<times> 'z base_scheme) option" where
  "net_read E k n s = do {
     (r, s) \<leftarrow> ext E (CNet (Net_read k n)) s;
     if ret r < 0 then Some ((ret r, []), s)
     else if length (data r) > n then None
     else Some ((int (length (data r)), data r), s)
   }"

definition send_from_file ::
  "env \<Rightarrow> int \<Rightarrow> int \<Rightarrow> 'z net_st_scheme \<Rightarrow> (int \<times> 'z net_st_scheme) option" where
  "send_from_file E k f s = do {
     (buf, s) \<leftarrow> fread E f FREAD_BUFFER_SIZE s;
     (result, s) \<leftarrow> (if buf \<noteq> [] then send_exact E k buf s else Some (0, s));
     if result < 0 then Some (result, s)
     else if length buf < FREAD_BUFFER_SIZE then do {
       (r, s) \<leftarrow> ext_on (File f) E (CFile (Feof f)) s;
       Some (if ret r = 0 then -1 else 0, s)
     } else Some (- EAGAIN, s)
   }"

partial_function (option) recv_to_file ::
  "env \<Rightarrow> int \<Rightarrow> int \<Rightarrow> 'z net_st_scheme \<Rightarrow> (int \<times> 'z net_st_scheme) option" where
  "recv_to_file E k f s = do {
     ((bytes_read, buf), s) \<leftarrow> net_read E k (unat (NET_BUFFER_SIZE s)) s;
     if bytes_read < 0 then
       (if bytes_read = - EINVAL \<and> NET_BUFFER_SIZE s = MAX_NET_BUFFER_SIZE
        then recv_to_file E k f (s\<lparr>NET_BUFFER_SIZE := MIN_NET_BUFFER_SIZE\<rparr>)
        else Some (bytes_read, s))
     else if bytes_read = 0 then Some (0, s)
     else do {
       (r, s) \<leftarrow> ext_on (File f) E (CFile (Fwrite f buf)) s;
       if ret r < bytes_read then Some (-1, s) else recv_to_file E k f s
     }
   }"

declare recv_to_file.simps [code]

section \<open>What a transfer may change\<close>

definition sock_io :: "int \<Rightarrow> call \<Rightarrow> bool" where
  "sock_io k c \<longleftrightarrow> (case c of
       CNet (Net_fcntl k' _ _) \<Rightarrow> k' = k | CNet (Net_write k' _) \<Rightarrow> k' = k
     | CNet (Net_read k' _) \<Rightarrow> k' = k | _ \<Rightarrow> False)"

definition relay_io :: "int \<Rightarrow> int \<Rightarrow> call \<Rightarrow> bool" where
  "relay_io k f c \<longleftrightarrow> sock_io k c \<or> (case c of
       CFile (Fread f' _) \<Rightarrow> f' = f | CFile (Fwrite f' _) \<Rightarrow> f' = f | CFile (Feof f') \<Rightarrow> f' = f
     | _ \<Rightarrow> False)"

lemma sock_io_simps [simp]:
  "sock_io k (CNet (Net_fcntl k' a b))  = (k' = k)" "sock_io k (CNet (Net_write k' c)) = (k' = k)"
  "sock_io k (CNet (Net_read k' n)) = (k' = k)"
  by (simp_all add: sock_io_def)

lemma sock_io_neutral: "sock_io k c \<Longrightarrow> neutral c"
  by (auto simp: sock_io_def neutral_def split: call.splits net_call.splits)

lemma relay_io_neutral: "relay_io k f c \<Longrightarrow> neutral c"
  by (auto simp: relay_io_def sock_io_neutral)
     (auto simp: neutral_def split: call.splits file_call.splits)

definition net_frame :: "(call \<Rightarrow> bool) \<Rightarrow> 'z net_st_scheme \<Rightarrow> 'z net_st_scheme \<Rightarrow> bool" where
  "net_frame C s s' \<longleftrightarrow> logs C s s' \<and> net_st.more s' = net_st.more s \<and>
     reset_flag s' = reset_flag s \<and> power_flag s' = power_flag s \<and>
     (NET_BUFFER_SIZE s' = NET_BUFFER_SIZE s \<or> NET_BUFFER_SIZE s' = MIN_NET_BUFFER_SIZE)"

lemma net_frame_refl [simp, intro]: "net_frame C s s"
  by (simp add: net_frame_def)

lemma net_frame_trans [trans]: "net_frame C s s' \<Longrightarrow> net_frame C s' s'' \<Longrightarrow> net_frame C s s''"
  unfolding net_frame_def by (auto intro: logs_trans)

lemma net_frame_mono: "net_frame C s s' \<Longrightarrow> (\<And>c. C c \<Longrightarrow> D c) \<Longrightarrow> net_frame D s s'"
  by (auto simp: net_frame_def intro: logs_mono)

lemma base_more_net:
  "base.more s' = base.more s \<Longrightarrow>
   reset_flag s' = reset_flag s \<and> power_flag s' = power_flag s \<and>
   NET_BUFFER_SIZE s' = NET_BUFFER_SIZE s \<and> net_st.more s' = net_st.more s"
  by (cases s; cases s') simp

lemma frame_net_frame: "frame C s s' \<Longrightarrow> net_frame C s s'"
  using base_more_net[of s' s] by (auto simp: frame_def net_frame_def)

lemma net_frame_step: "net_frame C s s' \<Longrightarrow> frame C s' s'' \<Longrightarrow> net_frame C s s''"
  by (blast intro: net_frame_trans frame_net_frame)

lemma net_frame_around:
  "frame C s s1 \<Longrightarrow> net_frame C s1 s2 \<Longrightarrow> frame C s2 s' \<Longrightarrow> net_frame C s s'"
  by (blast intro: net_frame_trans frame_net_frame)

lemma net_frame_size:
  "net_frame C s s' \<Longrightarrow> net_frame C s (s'\<lparr>NET_BUFFER_SIZE := MIN_NET_BUFFER_SIZE\<rparr>)"
  by (auto simp: net_frame_def logs_def)

lemma buffer_sizes [simp]: "MIN_NET_BUFFER_SIZE \<noteq> MAX_NET_BUFFER_SIZE"
  by (simp add: MIN_NET_BUFFER_SIZE_def MAX_NET_BUFFER_SIZE_def)

lemma set_blocking_returns:
  "returns (set_blocking E k b s) (\<lambda>r s'. frame (sock_io k) s s' \<and>
     (\<forall>j f. sent j (trace s') = sent j (trace s) \<and> received j (trace s') = received j (trace s) \<and>
        fetched f (trace s') = fetched f (trace s) \<and> stored f (trace s') = stored f (trace s)))"
  unfolding set_blocking_def
  by (auto simp: Let_def frame_def logs_def intro!: returns_mono[OF ext_step])

section \<open>The contract of a transferrer\<close>

text \<open>
  \<open>transfer_exact\<close> relies on these laws of its transferrer: its calls are socket traffic, and
  \<open>took\<close>, the bytes it has taken so far, grows by the reported ones with its own calls and by
  nothing with the other calls of a transfer. That an answer reports at most the bytes given is a
  law of the environment (\<open>sink_bounded\<close>).
\<close>

definition transfer_result :: "(int \<Rightarrow> hist \<Rightarrow> string) \<Rightarrow> int \<Rightarrow> string \<Rightarrow> hist \<Rightarrow> int \<Rightarrow> hist \<Rightarrow> bool" where
  "transfer_result took k buf h r h' \<longleftrightarrow>
     r \<le> 0 \<and> (\<exists>p q. buf = p @ q \<and> took k h' = took k h @ p \<and> (r = 0 \<longleftrightarrow> q = []))"

lemma transfer_result_more:
  assumes "transfer_result took k (drop n buf) h' r h''" "took k h' = took k h @ take n buf"
  shows "transfer_result took k buf h r h''"
  using assms unfolding transfer_result_def by (metis append.assoc append_take_drop_id)

lemma transfer_result_again:
  "transfer_result took k buf h' r h'' \<Longrightarrow> took k h' = took k h \<Longrightarrow> transfer_result took k buf h r h''"
  by (simp add: transfer_result_def)

lemma transfer_result_stop:
  "r < 0 \<Longrightarrow> buf \<noteq> [] \<Longrightarrow> took k h' = took k h \<Longrightarrow> transfer_result took k buf h r h'"
  by (auto simp: transfer_result_def intro: exI[of _ "[]"])

definition sink_bounded :: "env \<Rightarrow> (int \<Rightarrow> string \<Rightarrow> call) \<Rightarrow> bool" where
  "sink_bounded E transferrer \<longleftrightarrow>
     (\<forall>h k b r. answers E h (transferrer k b) r \<longrightarrow> ret r \<le> int (length b))"

text \<open>A transfer that fails returns \<open>-ENODATA\<close> or the transferrer's own error.\<close>

definition transfer_error :: "env \<Rightarrow> (int \<Rightarrow> string \<Rightarrow> call) \<Rightarrow> int \<Rightarrow> int \<Rightarrow> bool" where
  "transfer_error E transferrer k r \<longleftrightarrow>
     r = - ENODATA \<or> r < 0 \<and> (\<exists>h b a. answers E h (transferrer k b) a \<and> r = ret a)"

definition transfer_measure :: "string \<Rightarrow> 'z net_st_scheme \<Rightarrow> nat" where
  "transfer_measure buf s = 2 * length buf + (if NET_BUFFER_SIZE s = MAX_NET_BUFFER_SIZE then 1 else 0)"

locale byte_sink =
  fixes transferrer :: "int \<Rightarrow> string \<Rightarrow> call"
    and took :: "int \<Rightarrow> hist \<Rightarrow> string"
  assumes sink_io: "sock_io k (transferrer k b)"
    and took_own: "took k (h @ [(transferrer k b, r)]) = took k h @ take (nat (ret r)) b"
    and took_fcntl: "took k (h @ [(CNet (Net_fcntl k c a), r)]) = took k h"
begin

lemma transfer_loop_returns:
  assumes "sink_bounded E transferrer"
  shows "returns (transfer_loop E transferrer k buf s) (\<lambda>r s'. net_frame (sock_io k) s s' \<and>
     transfer_result took k buf (trace s) r (trace s') \<and>
     (r = 0 \<or> transfer_error E transferrer k r))"
proof (induction "transfer_measure buf s" arbitrary: buf s rule: less_induct)
  case less
  define b where "b = take (min (length buf) (unat (NET_BUFFER_SIZE s))) buf"
  let ?goal = "\<lambda>m. returns m (\<lambda>r s''. net_frame (sock_io k) s s'' \<and>
      transfer_result took k buf (trace s) r (trace s'') \<and> (r = 0 \<or> transfer_error E transferrer k r))"
  show ?case
  proof (cases "buf = []")
    case False
    have step: "net_frame (sock_io k) s s'" "took k (trace s') = took k (trace s) @ take (nat (ret r)) b"
        "NET_BUFFER_SIZE s' = NET_BUFFER_SIZE s"
      if "base.more s' = base.more s" "trace s' = trace s @ [(transferrer k b, r)]" for r s'
      using that base_more_net[OF that(1)]
      by (auto simp: took_own intro!: frame_net_frame frame_call sink_io)
    have bnd: "ret r \<le> int (length b)" if "answers E h (transferrer k b) r" for h r
      using assms that by (simp add: sink_bounded_def)
    have inside: "\<not> int (length buf) < ret r" if "answers E h (transferrer k b) r" for h r
      using bnd[OF that] by (simp add: b_def)
    have go_on: "?goal (transfer_loop E transferrer k (drop (nat (ret r)) buf) s')"
      if s': "base.more s' = base.more s" "trace s' = trace s @ [(transferrer k b, r)]"
        and r: "0 < ret r" "answers E (trace s) (transferrer k b) r" for r s'
    proof -
      note r = r(1) bnd[OF r(2)]
      have "transfer_measure (drop (nat (ret r)) buf) s' < transfer_measure buf s"
        using r False step(3)[OF s'] by (simp add: transfer_measure_def b_def)
      moreover have "nat (ret r) \<le> min (length buf) (unat (NET_BUFFER_SIZE s))"
        using r by (simp add: b_def nat_le_iff of_nat_min)
      then have "took k (trace s') = took k (trace s) @ take (nat (ret r)) buf"
        using step(2)[OF s'] by (simp add: b_def min_absorb1)
      ultimately show ?thesis using step(1)[OF s']
        by (auto intro!: returns_mono[OF less] intro: net_frame_trans transfer_result_more)
    qed
    have again: "?goal (transfer_loop E transferrer k buf (s'\<lparr>NET_BUFFER_SIZE := MIN_NET_BUFFER_SIZE\<rparr>))"
      if s': "base.more s' = base.more s" "trace s' = trace s @ [(transferrer k b, r)]"
        and r: "ret r < 0" and max: "NET_BUFFER_SIZE s' = MAX_NET_BUFFER_SIZE" for r s'
    proof -
      let ?s = "s'\<lparr>NET_BUFFER_SIZE := MIN_NET_BUFFER_SIZE\<rparr>"
      have "transfer_measure buf ?s < transfer_measure buf s"
        using max step(3)[OF s'] by (simp add: transfer_measure_def)
      moreover have "net_frame (sock_io k) s ?s" "took k (trace ?s) = took k (trace s)"
        using r step[OF s'] by (auto intro: net_frame_size)
      ultimately show ?thesis
        by (auto intro!: returns_mono[OF less] intro: net_frame_trans transfer_result_again)
    qed
    have stop: "net_frame (sock_io k) s s' \<and> transfer_result took k buf (trace s) x (trace s') \<and>
        (x = 0 \<or> transfer_error E transferrer k x)"
      if s': "base.more s' = base.more s" "trace s' = trace s @ [(transferrer k b, r)]"
        and r: "ret r \<le> 0" "answers E (trace s) (transferrer k b) r"
        and x: "x < 0" "x = - ENODATA \<or> x = ret r" for r s' x
    proof -
      have "transfer_result took k buf (trace s) x (trace s')"
        using r False step[OF s'] by (intro transfer_result_stop[OF x(1)]) simp_all
      then show ?thesis using r x step[OF s'] by (auto simp: transfer_error_def)
    qed
    have body: "?goal (if ret r > 0 then (if ret r > int (length buf) then None
           else transfer_loop E transferrer k (drop (nat (ret r)) buf) s')
        else if ret r < 0 then
          (if ret r = - EINVAL \<and> NET_BUFFER_SIZE s' = MAX_NET_BUFFER_SIZE
           then transfer_loop E transferrer k buf (s'\<lparr>NET_BUFFER_SIZE := MIN_NET_BUFFER_SIZE\<rparr>)
           else Some (ret r, s'))
        else Some (- ENODATA, s'))"
      if s': "base.more s' = base.more s" "trace s' = trace s @ [(transferrer k b, r)]"
        and r: "answers E (trace s) (transferrer k b) r" for r s'
      using go_on[OF s' _ r] again[OF s'] stop[OF s' _ r] inside[OF r] step(1)[OF s']
      by (simp add: ENODATA_def EINVAL_def)
    show ?thesis
      using False
      by (subst transfer_loop.simps, simp only: if_False vc_simps b_def[symmetric])
         (rule returns_mono[OF ext_law], blast intro: body)
  qed (simp add: transfer_loop.simps transfer_result_def)
qed

lemma set_blocking_took:
  "returns (set_blocking E k b s) (\<lambda>r s'. frame (sock_io k) s s' \<and> took k (trace s') = took k (trace s))"
  unfolding set_blocking_def
  by (auto simp: Let_def frame_def logs_def took_fcntl intro!: returns_mono[OF ext_step])
     (metis append.assoc append_Cons append_Nil took_fcntl)+

lemma transfer_exact_returns:
  assumes "sink_bounded E transferrer"
  shows "returns (transfer_exact E transferrer k buf s) (\<lambda>r s'. net_frame (sock_io k) s s' \<and>
     transfer_result took k buf (trace s) r (trace s') \<and>
     (r = 0 \<or> transfer_error E transferrer k r))"
  unfolding transfer_exact_def
  by (auto intro!: returns_mono[OF set_blocking_took] returns_mono[OF transfer_loop_returns[OF assms]]
      intro: net_frame_around simp: transfer_result_def)

end

text \<open>\<open>send_exact\<close> is the instance with \<open>net_write\<close>, whose taken bytes are those \<open>sent\<close>.\<close>

interpretation net_write: byte_sink "\<lambda>k b. CNet (Net_write k b)" sent
  by unfold_locales simp_all

lemma send_exact_returns:
  assumes "write_bounded E"
  shows "returns (send_exact E k buf s) (\<lambda>r s'. net_frame (sock_io k) s s' \<and>
     transfer_result sent k buf (trace s) r (trace s') \<and>
     (r = 0 \<or> transfer_error E (\<lambda>k b. CNet (Net_write k b)) k r))"
  unfolding send_exact_def
  by (rule net_write.transfer_exact_returns) (use assms in \<open>simp add: sink_bounded_def write_boundedD\<close>)

section \<open>Relaying files\<close>

lemma net_frame_held: "net_frame (relay_io k f) s s' \<Longrightarrow> held (trace s') = held (trace s)"
  by (auto simp: net_frame_def intro!: logs_neutral_held elim!: logs_mono relay_io_neutral)

lemma fread_returns:
  assumes "read_bounded E" "File f \<in> held (trace s)"
  shows "returns (fread E f n s) (\<lambda>b s'. length b \<le> n \<and> frame (relay_io k f) s s' \<and>
    fetched f (trace s') = fetched f (trace s) @ b \<and> sent k (trace s') = sent k (trace s))"
  unfolding fread_def
  by (auto simp: relay_io_def assms(2) intro!: returns_mono[OF ext_law] frame_call
      dest: read_boundedD(2)[OF assms(1)])

lemma net_frame_relay: "net_frame (sock_io k) s s' \<Longrightarrow> net_frame (relay_io k f) s s'"
  by (erule net_frame_mono) (simp add: relay_io_def)

lemma net_frame_fetched:
  assumes "net_frame (sock_io k) s s'"
  shows "fetched f (trace s') = fetched f (trace s) \<and> stored f (trace s') = stored f (trace s)"
proof -
  have "list_all (\<lambda>(c, r). sock_io k c) t \<Longrightarrow> fetched f t = [] \<and> stored f t = []" for t
    by (induction t) (auto simp: sock_io_def split: call.splits)
  then show ?thesis using assms by (auto simp: net_frame_def logs_def)
qed

text \<open>
  \<open>writes_block\<close>: a socket in blocking mode does not answer a write with \<open>-EAGAIN\<close>, the documented
  meaning of the mode. \<open>send_from_file\<close> uses \<open>-EAGAIN\<close> for "call me again", so it matters.
\<close>

definition writes_block :: "env \<Rightarrow> bool" where
  "writes_block E \<longleftrightarrow> (\<forall>h k b. ret (answer E h (CNet (Net_write k b))) \<noteq> - EAGAIN)"

lemma writes_block_error:
  "writes_block E \<Longrightarrow> \<not> transfer_error E (\<lambda>k b. CNet (Net_write k b)) k (- EAGAIN)"
  by (auto simp: transfer_error_def writes_block_def answers_def errno_defs)

lemma send_chunk:
  assumes "write_bounded E"
  shows "returns (if buf \<noteq> [] then send_exact E k buf s else Some (0, s)) (\<lambda>r s'.
    net_frame (sock_io k) s s' \<and> r \<le> 0 \<and> (r = - EAGAIN \<longrightarrow> \<not> writes_block E) \<and>
    (\<exists>p. sent k (trace s') = sent k (trace s) @ p \<and> prefix p buf \<and> (r = 0 \<longrightarrow> p = buf)))"
  using writes_block_error[of E k]
  by (auto intro!: returns_mono[OF send_exact_returns[OF assms]]
      simp: transfer_result_def errno_defs)

lemma send_from_file_returns:
  assumes "write_bounded E" "read_bounded E" "File f \<in> held (trace s)"
  shows "returns (send_from_file E k f s) (\<lambda>r s'. net_frame (relay_io k f) s s' \<and> r \<le> 0 \<and>
    (\<exists>x p. fetched f (trace s') = fetched f (trace s) @ x \<and>
       sent k (trace s') = sent k (trace s) @ p \<and> prefix p x \<and>
       (r = 0 \<longrightarrow> p = x) \<and> (r = - EAGAIN \<longrightarrow> writes_block E \<longrightarrow> p = x)))"
proof -
  have chunk: "net_frame (relay_io k f) s s2 \<and> fetched f (trace s2) = fetched f (trace s) @ x"
    if "frame (relay_io k f) s s1" "fetched f (trace s1) = fetched f (trace s) @ x"
      "net_frame (sock_io k) s1 s2" for s1 s2 x
    using that net_frame_fetched[OF that(3), of f]
    by (auto intro: net_frame_trans[OF frame_net_frame net_frame_relay])
  have feof: "returns (ext_on (File f) E (CFile (Feof f)) s2) (\<lambda>r s3. net_frame (relay_io k f) s s3 \<and>
      fetched f (trace s3) = fetched f (trace s2) \<and> sent k (trace s3) = sent k (trace s2))"
    if "net_frame (relay_io k f) s s2" for s2
    using assms(3) net_frame_held[OF that]
    by (auto intro!: returns_mono[OF ext_step] net_frame_step[OF that] frame_call simp: relay_io_def)
  show ?thesis
    unfolding send_from_file_def
    apply (simp only: vc_simps)
    apply (rule returns_mono[OF fread_returns[OF assms(2,3), where k = k]], elim conjE)
    apply (rule returns_mono[OF send_chunk[OF assms(1)]], elim conjE)
    apply (drule (2) chunk, elim conjE)
    apply (intro returns_ifI)
    apply (auto intro!: returns_mono[OF feof] simp: errno_defs)
    done
qed

text \<open>
  \<open>stream_ends E k N\<close>: the peer of socket \<open>k\<close> sends at most \<open>N\<close> bytes before it pauses or closes.
  Without such a bound \<open>recv_to_file\<close> need not return.
\<close>

definition stream_ends :: "env \<Rightarrow> int \<Rightarrow> nat \<Rightarrow> bool" where
  "stream_ends E k N \<longleftrightarrow> (\<forall>h n r. answers E h (CNet (Net_read k n)) r \<longrightarrow>
     N \<le> length (received k h) \<longrightarrow> ret r < 0 \<or> data r = [])"

definition recv_measure :: "int \<Rightarrow> nat \<Rightarrow> 'z net_st_scheme \<Rightarrow> nat" where
  "recv_measure k N s = 2 * (N - length (received k (trace s))) +
     (if NET_BUFFER_SIZE s = MAX_NET_BUFFER_SIZE then 1 else 0)"

definition recv_result :: "int \<Rightarrow> int \<Rightarrow> hist \<Rightarrow> int \<Rightarrow> hist \<Rightarrow> bool" where
  "recv_result k f h r h' \<longleftrightarrow> r \<le> 0 \<and> (\<exists>x y. received k h' = received k h @ x \<and>
     stored f h' = stored f h @ y \<and> prefix y x \<and> (r \<noteq> - 1 \<longrightarrow> y = x))"

lemma recv_result_chunk:
  assumes "recv_result k f h' r h''" "received k h' = received k h @ x" "stored f h' = stored f h @ x"
  shows "recv_result k f h r h''"
  using assms unfolding recv_result_def by (metis append.assoc same_prefix_prefix)

lemma net_read_returns:
  assumes "read_bounded E"
  shows "returns (net_read E k n s) (\<lambda>(r, b) s'. base.more s' = base.more s \<and>
    frame (relay_io k f) s s' \<and> stored f (trace s') = stored f (trace s) \<and>
    received k (trace s') = received k (trace s) @ b \<and>
    (r < 0 \<and> b = [] \<or> r = int (length b)) \<and>
    (stream_ends E k N \<longrightarrow> b \<noteq> [] \<longrightarrow> length (received k (trace s)) < N))"
  unfolding net_read_def
  apply (simp only: vc_simps)
  apply (rule returns_mono[OF ext_law], elim conjE, frule read_boundedD(1)[OF assms])
  apply (auto simp: relay_io_def intro!: frame_call)
  apply (metis not_le stream_ends_def)
  done

lemma recv_to_file_returns:
  assumes "read_bounded E" "stream_ends E k N" "File f \<in> held (trace s)"
  shows "returns (recv_to_file E k f s) (\<lambda>r s'. net_frame (relay_io k f) s s' \<and>
    recv_result k f (trace s) r (trace s'))"
  using assms(3)
proof (induction "recv_measure k N s" arbitrary: s rule: less_induct)
  case less
  have f: "File f \<in> held (trace s')" if "net_frame (relay_io k f) s s'" for s'
    using less.prems net_frame_held[OF that] by simp
  let ?goal = "\<lambda>m. returns m (\<lambda>r s''. net_frame (relay_io k f) s s'' \<and>
      recv_result k f (trace s) r (trace s''))"
  have more: "?goal (recv_to_file E k f s')"
    if "net_frame (relay_io k f) s s'" "recv_measure k N s' < recv_measure k N s"
      "received k (trace s') = received k (trace s) @ x" "stored f (trace s') = stored f (trace s) @ x"
    for s' x
    using that f[OF that(1)]
    by (auto intro!: returns_mono[OF less.hyps] intro: net_frame_trans recv_result_chunk)
  have store: "returns (ext_on (File f) E (CFile (Fwrite f b)) s1) (\<lambda>r s2.
        ?goal (if ret r < n then Some (-1, s2) else recv_to_file E k f s2))"
    if s1: "frame (relay_io k f) s s1" "stored f (trace s1) = stored f (trace s)"
      "received k (trace s1) = received k (trace s) @ b" "b \<noteq> []" "length (received k (trace s)) < N"
      and n: "n = int (length b)"
    for s1 b n
  proof -
    have s2: "net_frame (relay_io k f) s s2 \<and> received k (trace s2) = received k (trace s) @ b \<and>
        recv_measure k N s2 < recv_measure k N s"
      if t: "base.more s2 = base.more s1" "trace s2 = trace s1 @ [(CFile (Fwrite f b), r)]" for s2 r
    proof -
      have "net_frame (relay_io k f) s s2"
        by (rule net_frame_step[OF frame_net_frame[OF s1(1)] frame_call[OF t]]) (simp add: relay_io_def)
      moreover have "NET_BUFFER_SIZE s2 = NET_BUFFER_SIZE s"
        using base_more_net[OF t(1)] base_more_net[OF frame_more[OF s1(1)]] by simp
      ultimately show ?thesis using t s1 by (cases b) (auto simp: recv_measure_def)
    qed
    have prefix: "recv_result k f (trace s) (- 1) (trace s2)"
      if "trace s2 = trace s1 @ [(CFile (Fwrite f b), r)]" for s2 r
      using that s1 by (auto simp: recv_result_def take_is_prefix)
    have all: "take (nat (ret r)) b = b" if "\<not> ret r < int (length b)" for r
      using that by simp
    show ?thesis
      apply (unfold n, subst ext_on_held, rule f[OF frame_net_frame[OF s1(1)]])
      apply (rule returns_mono[OF ext_step], elim conjE, frule (1) s2)
      apply (elim conjE, intro returns_ifI)
       apply (subst returns_simps, rule conjI, assumption, erule prefix)
      apply (rule more, assumption, assumption, assumption)
      apply (simp add: s1 all)
      done
  qed
  have stop: "net_frame (relay_io k f) s s1 \<and> recv_result k f (trace s) r (trace s1)"
    if "frame (relay_io k f) s s1" "stored f (trace s1) = stored f (trace s)"
      "received k (trace s1) = received k (trace s)" "r \<le> 0" for s1 r
    using that by (simp add: frame_net_frame recv_result_def)
  have again: "?goal (recv_to_file E k f (s1\<lparr>NET_BUFFER_SIZE := MIN_NET_BUFFER_SIZE\<rparr>))"
    if "frame (relay_io k f) s s1" "stored f (trace s1) = stored f (trace s)"
      "received k (trace s1) = received k (trace s)" "NET_BUFFER_SIZE s1 = MAX_NET_BUFFER_SIZE" for s1
    using that base_more_net[OF frame_more[OF that(1)]]
    by (intro more[of _ "[]"]) (auto intro!: net_frame_size[OF frame_net_frame] simp: recv_measure_def)
  show ?case
    apply (subst recv_to_file.simps)
    apply (simp only: vc_simps)
    apply (rule returns_mono[OF net_read_returns[OF assms(1), where f = f and N = N]])
    apply (clarsimp simp only: prod.case, intro returns_ifI)
    subgoal by (rule again) (auto simp: frame_def)
    subgoal by (subst returns_simps, rule stop) (auto simp: frame_def)
    subgoal by (subst returns_simps, rule stop) (auto simp: frame_def)
    subgoal by (subst returns_bind, subst prod.case, rule store) (auto simp: frame_def assms(2))
    done
qed

section \<open>Properties\<close>

text \<open>
  C12: \<open>send_exact\<close> ends, sends a prefix of the buffer in order and without gaps, and returns 0
  exactly when it has sent all of it; otherwise it returns the error of a write, or \<open>-ENODATA\<close>.
  It calls nothing but writes and mode switches of this socket, and changes no variable of the
  program but \<open>NET_BUFFER_SIZE\<close>, and that only to the small size.
\<close>

theorem send_exact_prefix:
  assumes "write_bounded E"
  shows "returns (send_exact E k buf s) (\<lambda>r s'. net_frame (sock_io k) s s' \<and>
     r \<le> 0 \<and> (\<exists>p q. buf = p @ q \<and> sent k (trace s') = sent k (trace s) @ p \<and> (r = 0 \<longleftrightarrow> q = [])) \<and>
     (r = 0 \<or> transfer_error E (\<lambda>k b. CNet (Net_write k b)) k r))"
  using send_exact_returns[OF assms] unfolding transfer_result_def by (rule returns_mono) auto

lemma send_exact_prefix_witness:
  "returns (send_exact (sample_env unscripted) 7 ''abc''
      \<lparr>trace = [], errno = 0, reset_flag = False, power_flag = False, NET_BUFFER_SIZE = 32768\<rparr>)
    (\<lambda>r s'. r \<le> 0 \<and> (r = 0 \<longrightarrow> sent 7 (trace s') = ''abc''))"
  by (rule returns_mono[OF send_exact_prefix]) auto

text \<open>
  C14: one turn of a download. The bytes sent on the socket are a prefix of those read from the
  file; when the turn reports the end of the file (0), or asks to be called again (\<open>-EAGAIN\<close>) on a
  network stack whose blocking writes do not answer \<open>-EAGAIN\<close>, they are all of them, so repeated
  turns send the file without loss or reordering.
\<close>

theorem send_from_file_relays:
  assumes "write_bounded E" "read_bounded E" "File f \<in> held (trace s)"
  shows "returns (send_from_file E k f s) (\<lambda>r s'. net_frame (relay_io k f) s s' \<and> r \<le> 0 \<and>
    (\<exists>x p. fetched f (trace s') = fetched f (trace s) @ x \<and>
       sent k (trace s') = sent k (trace s) @ p \<and> prefix p x \<and>
       (r = 0 \<longrightarrow> p = x) \<and> (r = - EAGAIN \<longrightarrow> writes_block E \<longrightarrow> p = x)))"
  using assms by (rule send_from_file_returns)

lemma send_from_file_relays_witness:
  "returns (send_from_file (sample_env unscripted) 7 9
      \<lparr>trace = [(CFile (Fopen ''a'' ''rb''), ok 9)], errno = 0, reset_flag = False, power_flag = False,
       NET_BUFFER_SIZE = 32768\<rparr>)
    (\<lambda>r s'. r = 0 \<longrightarrow> sent 7 (trace s') = fetched 9 (trace s'))"
  by (rule returns_mono[OF send_from_file_relays]) (auto simp: held_def held_step_def fetched_by_def)

text \<open>
  C13: an upload ends when the peer sends a bounded number of bytes. What is stored in the file is
  then a prefix of what was received, in order, and everything unless the result is -1 (a short
  write, or a read that failed with -1); it returns no positive value.
\<close>

theorem recv_to_file_stores:
  assumes "read_bounded E" "stream_ends E k N" "File f \<in> held (trace s)"
  shows "returns (recv_to_file E k f s) (\<lambda>r s'. net_frame (relay_io k f) s s' \<and> r \<le> 0 \<and>
    (\<exists>x y. received k (trace s') = received k (trace s) @ x \<and>
       stored f (trace s') = stored f (trace s) @ y \<and> prefix y x \<and> (r \<noteq> - 1 \<longrightarrow> y = x)))"
  using recv_to_file_returns[OF assms] unfolding recv_result_def by (rule returns_mono) auto

text \<open>The witness: a peer that sends \<open>hi\<close> and then closes.\<close>

definition hi_script :: "hist \<Rightarrow> call \<Rightarrow> reply option" where
  "hi_script h c = (case c of
       CNet (Net_read k n) \<Rightarrow>
         if received k h = [] \<and> 2 \<le> n then Some ((ok 2)\<lparr>data := ''hi''\<rparr>) else None
     | _ \<Rightarrow> None)"

lemma recv_to_file_stores_witness:
  "returns (recv_to_file (sample_env hi_script) 7 9
      \<lparr>trace = [(CFile (Fopen ''a'' ''wb''), ok 9)], errno = 0, reset_flag = False, power_flag = False,
       NET_BUFFER_SIZE = 32768\<rparr>)
    (\<lambda>r s'. r \<noteq> - 1 \<longrightarrow> stored 9 (trace s') = received 7 (trace s'))"
proof -
  have "read_bounded (sample_env hi_script)"
    by (rule sample_bounded) (auto simp: hi_script_def split: if_splits)
  moreover have "stream_ends (sample_env hi_script) 7 1"
    by (auto simp: stream_ends_def answers_def hi_script_def ok_def)
  ultimately show ?thesis
    by (intro returns_mono[OF recv_to_file_stores]) (auto simp: held_def held_step_def stored_by_def)
qed

end
