(* ===== verification/Dvd.thy ===== *)
theory Dvd
  imports Net
begin

text \<open>
  The variables of \<open>source/dvd.c\<close> and \<open>source/fs.c\<close> and the table of virtual partitions, and the
  operations of the drive itself. The operations that mount and unmount are in \<open>Mount\<close>.
\<close>

section \<open>The table of partitions\<close>

text \<open>
  A pointer to an entry of the table is its index; \<open>disc\<close> is the number of the disc interface
  (\<open>__io_gcsda\<close>, \<open>__io_gcsdb\<close>, \<open>__io_wiisd\<close>, \<open>__io_usbstorage\<close>), \<open>None\<close> for NULL. The field
  \<open>alias\<close> is called \<open>virtual_alias\<close> here, \<open>prefix\<close> \<open>real_prefix\<close>.
\<close>

record virtual_partition =
  pname :: string
  virtual_alias :: string
  mount_point :: string
  real_prefix :: string
  inserted :: bool
  geckofail :: bool
  disc :: "nat option"

definition partition_entry :: "string \<Rightarrow> string \<Rightarrow> nat option \<Rightarrow> virtual_partition" where
  "partition_entry n m d = \<lparr>pname = n, virtual_alias = ''/'' @ m, mount_point = m, real_prefix = m @ '':/'',
     inserted = False, geckofail = False, disc = d\<rparr>"

definition initial_partitions :: "virtual_partition list" where
  "initial_partitions = [
     partition_entry ''SD Gecko A'' ''carda'' (Some 0),
     partition_entry ''SD Gecko B'' ''cardb'' (Some 1),
     partition_entry ''Front SD'' ''sd'' (Some 2),
     partition_entry ''USB storage device'' ''usb'' (Some 3),
     partition_entry ''ISO9660 filesystem'' ''dvd'' None,
     partition_entry ''Wii disc image'' ''wod'' None,
     partition_entry ''Wii disc filesystem'' ''fst'' None,
     partition_entry ''NAND images'' ''nand'' None,
     partition_entry ''NAND filesystem'' ''isfs'' None,
     partition_entry ''OTP filesystem'' ''otp'' None,
     partition_entry ''SEEPROM filesystem'' ''seeprom'' None]"

definition MAX_VIRTUAL_PARTITIONS :: nat where "MAX_VIRTUAL_PARTITIONS = 11"

definition PA_GCSDA :: nat where "PA_GCSDA = 0"
definition PA_GCSDB :: nat where "PA_GCSDB = 1"
definition PA_SD :: nat where "PA_SD = 2"
definition PA_USB :: nat where "PA_USB = 3"
definition PA_DVD :: nat where "PA_DVD = 4"
definition PA_WOD :: nat where "PA_WOD = 5"
definition PA_FST :: nat where "PA_FST = 6"
definition PA_NAND :: nat where "PA_NAND = 7"
definition PA_ISFS :: nat where "PA_ISFS = 8"
definition PA_OTP :: nat where "PA_OTP = 9"
definition PA_SEEPROM :: nat where "PA_SEEPROM = 10"

lemmas PA_defs = PA_GCSDA_def PA_GCSDB_def PA_SD_def PA_USB_def PA_DVD_def PA_WOD_def PA_FST_def
  PA_NAND_def PA_ISFS_def PA_OTP_def PA_SEEPROM_def

datatype mountstate_t = MOUNTSTATE_START | MOUNTSTATE_SELECTDEVICE | MOUNTSTATE_WAITFORDEVICE

record fs_st = net_st +
  dvd_mountWait :: bool
  dvd_last_stopped :: u64
  VIRTUAL_PARTITIONS :: "virtual_partition list"
  mountstate :: mountstate_t
  mount_partition :: "nat option"
  mount_timer :: u64
  device_check_timer :: u64

definition partition :: "nat \<Rightarrow> 'z fs_st_scheme \<Rightarrow> virtual_partition" where
  "partition i s = VIRTUAL_PARTITIONS s ! i"

definition set_inserted :: "nat \<Rightarrow> bool \<Rightarrow> 'z fs_st_scheme \<Rightarrow> 'z fs_st_scheme" where
  "set_inserted i b s = s\<lparr>VIRTUAL_PARTITIONS := (VIRTUAL_PARTITIONS s)[i := (partition i s)\<lparr>inserted := b\<rparr>]\<rparr>"

definition set_geckofail :: "nat \<Rightarrow> bool \<Rightarrow> 'z fs_st_scheme \<Rightarrow> 'z fs_st_scheme" where
  "set_geckofail i b s = s\<lparr>VIRTUAL_PARTITIONS := (VIRTUAL_PARTITIONS s)[i := (partition i s)\<lparr>geckofail := b\<rparr>]\<rparr>"

section \<open>The drive\<close>

definition set_dvd_mountWait :: "bool \<Rightarrow> 'z fs_st_scheme \<Rightarrow> 'z fs_st_scheme" where
  "set_dvd_mountWait b s = s\<lparr>dvd_mountWait := b\<rparr>"

definition LastAccess :: "env \<Rightarrow> fslib \<Rightarrow> 'z base_scheme \<Rightarrow> (u64 \<times> 'z base_scheme) option" where
  "LastAccess E l s = do { (r, s) \<leftarrow> ext E (CDev (Lib_LastAccess l)) s; Some (word_of_int (ret r), s) }"

definition dvd_last_access :: "env \<Rightarrow> 'z base_scheme \<Rightarrow> (u64 \<times> 'z base_scheme) option" where
  "dvd_last_access E s = do {
     (a, s) \<leftarrow> LastAccess E ISO9660 s;
     (b, s) \<leftarrow> LastAccess E WOD s;
     (c, s) \<leftarrow> LastAccess E FST s;
     Some (max (max a b) c, s)
   }"

definition dvd_stop :: "env \<Rightarrow> 'z fs_st_scheme \<Rightarrow> (int \<times> 'z fs_st_scheme) option" where
  "dvd_stop E s = do {
     (now, s) \<leftarrow> gettime E s;
     let s = s\<lparr>dvd_last_stopped := now\<rparr>;
     (r, s) \<leftarrow> ext E (CDev DI_StopMotor) s;
     Some (ret r, s)
   }"

definition dvd_ready :: "env \<Rightarrow> 'z base_scheme \<Rightarrow> (bool \<times> 'z base_scheme) option" where
  "dvd_ready E s = do {
     (r, s) \<leftarrow> ext E (CDev DI_GetStatus) s;
     Some (word_of_int (ret r) AND DVD_READY E \<noteq> 0, s)
   }"

section \<open>What device operations may change\<close>

definition dev_io :: "call \<Rightarrow> bool" where
  "dev_io c \<longleftrightarrow> (case c of
       CDev _ \<Rightarrow> True | CSys _ \<Rightarrow> True | CMem (Free _) \<Rightarrow> True
     | CFile (Diropen _) \<Rightarrow> True | CFile (Dirclose _) \<Rightarrow> True | _ \<Rightarrow> False)"

lemma dev_io_simps [simp]:
  "dev_io (CDev d)" "dev_io (CSys y)" "dev_io (CFile (Diropen p))" "dev_io (CFile (Dirclose k))"
  "dev_io (CMem (Free a))"
  by (simp_all add: dev_io_def)

lemma neutral_CSys [simp]: "neutral (CSys y)"
  by (simp add: neutral_def)

lemma neutral_CDev [simp]: "(\<forall>d. x \<noteq> NtfsFindPartitions d) \<Longrightarrow> neutral (CDev x)"
  by (cases x) (simp_all add: neutral_def)

text \<open>The part of a table entry that never changes.\<close>

definition fixed_part :: "virtual_partition \<Rightarrow> virtual_partition" where
  "fixed_part p = p\<lparr>inserted := False, geckofail := False\<rparr>"

definition fs_frame :: "'z fs_st_scheme \<Rightarrow> 'z fs_st_scheme \<Rightarrow> bool" where
  "fs_frame s s' \<longleftrightarrow> logs dev_io s s' \<and> held (trace s') = held (trace s) \<and>
     reset_flag s' = reset_flag s \<and> power_flag s' = power_flag s \<and>
     NET_BUFFER_SIZE s' = NET_BUFFER_SIZE s \<and>
     map fixed_part (VIRTUAL_PARTITIONS s') = map fixed_part (VIRTUAL_PARTITIONS s) \<and>
     fs_st.more s' = fs_st.more s"

text \<open>\<open>drive_frame\<close>: in addition, the table and the state of the remount dialogue are unchanged.\<close>

definition drive_frame :: "'z fs_st_scheme \<Rightarrow> 'z fs_st_scheme \<Rightarrow> bool" where
  "drive_frame s s' \<longleftrightarrow> fs_frame s s' \<and> mountstate s' = mountstate s \<and>
     mount_partition s' = mount_partition s \<and> mount_timer s' = mount_timer s \<and>
     device_check_timer s' = device_check_timer s"

lemma fs_frame_refl [simp, intro]: "fs_frame s s"
  by (simp add: fs_frame_def)

lemma fs_frame_trans [trans]: "fs_frame s s' \<Longrightarrow> fs_frame s' s'' \<Longrightarrow> fs_frame s s''"
  by (auto simp: fs_frame_def intro: logs_trans)

lemma drive_frame_refl [simp, intro]: "drive_frame s s"
  by (simp add: drive_frame_def)

lemma drive_frame_trans [trans]: "drive_frame s s' \<Longrightarrow> drive_frame s' s'' \<Longrightarrow> drive_frame s s''"
  by (auto simp: drive_frame_def intro: fs_frame_trans)

lemma drive_fs_frame: "drive_frame s s' \<Longrightarrow> fs_frame s s'"
  by (simp add: drive_frame_def)

lemma base_more_fs:
  "base.more s' = base.more s \<Longrightarrow>
   dvd_mountWait s' = dvd_mountWait s \<and> dvd_last_stopped s' = dvd_last_stopped s \<and>
   VIRTUAL_PARTITIONS s' = VIRTUAL_PARTITIONS s \<and> mountstate s' = mountstate s \<and>
   mount_partition s' = mount_partition s \<and> mount_timer s' = mount_timer s \<and>
   device_check_timer s' = device_check_timer s \<and> NET_BUFFER_SIZE s' = NET_BUFFER_SIZE s \<and>
   reset_flag s' = reset_flag s \<and> power_flag s' = power_flag s \<and> fs_st.more s' = fs_st.more s"
  by (cases s; cases s') simp

lemma frame_drive:
  "frame dev_io s s' \<Longrightarrow> held (trace s') = held (trace s) \<Longrightarrow> drive_frame s s'"
  using base_more_fs[of s' s] by (auto simp: frame_def fs_frame_def drive_frame_def)

text \<open>A call of a device function as a step that keeps the frame and all variables.\<close>

lemma ext_drive:
  "dev_io c \<Longrightarrow> neutral c \<Longrightarrow>
   returns (ext E c s) (\<lambda>r s'. drive_frame s s' \<and> base.more s' = base.more s)"
  by (rule returns_mono[OF ext_neutral[where C = dev_io]]) (auto intro: frame_drive dest: frame_more)

lemma gettime_drive: "returns (gettime E s) (\<lambda>r s'. drive_frame s s' \<and> base.more s' = base.more s)"
  unfolding gettime_def by (auto intro!: returns_mono[OF ext_drive])

lemma fixed_part_update [simp]:
  "fixed_part (p\<lparr>inserted := b\<rparr>) = fixed_part p" "fixed_part (p\<lparr>geckofail := b\<rparr>) = fixed_part p"
  by (simp_all add: fixed_part_def)

lemma fixed_update:
  "fixed_part p = fixed_part (xs ! i) \<Longrightarrow> map fixed_part (xs[i := p]) = map fixed_part xs"
  by (cases "i < length xs") (simp_all add: map_update list_update_same_conv list_update_beyond)

lemma set_frames [simp]:
  "drive_frame s (s'\<lparr>dvd_last_stopped := t\<rparr>) = drive_frame s s'"
  "drive_frame s (set_dvd_mountWait b s') = drive_frame s s'"
  "drive_frame s (set_geckofail i b s') = drive_frame s s'"
  "drive_frame s (set_inserted i b s') = drive_frame s s'"
  by (simp_all add: drive_frame_def fs_frame_def set_dvd_mountWait_def set_geckofail_def
      set_inserted_def partition_def fixed_update logs_def)

lemma dvd_last_access_drive:
  "returns (dvd_last_access E s) (\<lambda>r s'. drive_frame s s' \<and> base.more s' = base.more s)"
  unfolding dvd_last_access_def LastAccess_def
  by (auto intro!: returns_mono[OF ext_drive] intro: drive_frame_trans)

lemma dvd_ready_drive: "returns (dvd_ready E s) (\<lambda>r s'. drive_frame s s' \<and> base.more s' = base.more s)"
  unfolding dvd_ready_def by (auto intro!: returns_mono[OF ext_drive])

text \<open>The variables of the disc that \<open>dvd_stop\<close> leaves alone.\<close>

definition same_media :: "'z fs_st_scheme \<Rightarrow> 'z fs_st_scheme \<Rightarrow> bool" where
  "same_media s s' \<longleftrightarrow> dvd_mountWait s' = dvd_mountWait s \<and> VIRTUAL_PARTITIONS s' = VIRTUAL_PARTITIONS s"

lemma same_media_refl [simp, intro]: "same_media s s"
  by (simp add: same_media_def)

lemma same_media_trans [trans]: "same_media s s' \<Longrightarrow> same_media s' s'' \<Longrightarrow> same_media s s''"
  by (simp add: same_media_def)

lemma same_media_more: "base.more s' = base.more s \<Longrightarrow> same_media s s'"
  using base_more_fs[of s' s] by (simp add: same_media_def)

lemma dvd_stop_drive: "returns (dvd_stop E s) (\<lambda>r s'. drive_frame s s' \<and> same_media s s')"
proof -
  have "drive_frame s s2 \<and> same_media s s2"
    if "drive_frame s s1" "base.more s1 = base.more s"
      "drive_frame (s1\<lparr>dvd_last_stopped := t\<rparr>) s2" "base.more s2 = base.more (s1\<lparr>dvd_last_stopped := t\<rparr>)"
    for s1 s2 :: "'a fs_st_scheme" and t
  proof -
    have "drive_frame s (s1\<lparr>dvd_last_stopped := t\<rparr>)" using that by simp
    then have "drive_frame s s2" using that(3) by (rule drive_frame_trans)
    moreover have "same_media (s1\<lparr>dvd_last_stopped := t\<rparr>) s2" using that(4) by (rule same_media_more)
    then have "same_media s s2" using same_media_more[OF that(2)] by (simp add: same_media_def)
    ultimately show ?thesis ..
  qed
  then show ?thesis
    unfolding dvd_stop_def
    by (auto simp: Let_def intro!: returns_mono[OF ext_drive] returns_mono[OF gettime_drive])
qed

end
