(* ===== verification/Mount.thy ===== *)
theory Mount
  imports Dvd
begin

text \<open>
  Mounting and unmounting: \<open>source/fs.c\<close> up to \<open>unmount_virtual\<close>, and the functions of
  \<open>source/dvd.c\<close> that use them.
\<close>

section \<open>Looking up and classifying partitions\<close>

fun find_alias :: "virtual_partition list \<Rightarrow> string \<Rightarrow> nat option" where
  "find_alias [] p = None"
| "find_alias (v # vs) p =
     (if strcaseeq (virtual_alias v) p then Some 0 else map_option Suc (find_alias vs p))"

definition to_virtual_partition :: "string \<Rightarrow> 'z fs_st_scheme \<Rightarrow> nat option" where
  "to_virtual_partition virtual_prefix s = find_alias (VIRTUAL_PARTITIONS s) virtual_prefix"

definition is_gecko :: "nat \<Rightarrow> bool" where
  "is_gecko i \<longleftrightarrow> i = PA_GCSDA \<or> i = PA_GCSDB"

definition is_fat :: "nat \<Rightarrow> bool" where
  "is_fat i \<longleftrightarrow> i = PA_SD \<or> i = PA_USB \<or> is_gecko i"

definition is_dvd :: "nat \<Rightarrow> bool" where
  "is_dvd i \<longleftrightarrow> i = PA_DVD \<or> i = PA_WOD \<or> i = PA_FST"

definition mounted :: "env \<Rightarrow> nat \<Rightarrow> 'z fs_st_scheme \<Rightarrow> (bool \<times> 'z fs_st_scheme) option" where
  "mounted E i s = do {
     (r, s) \<leftarrow> ext E (CFile (Diropen (real_prefix (partition i s)))) s;
     if ret r \<noteq> 0 then do { (_, s) \<leftarrow> ext_on (Dir (ret r)) E (CFile (Dirclose (ret r))) s; Some (True, s) }
     else Some (False, s)
   }"

text \<open>The library behind a partition that has one of its own.\<close>

definition fslib_of :: "nat \<Rightarrow> fslib option" where
  "fslib_of i =
     (if i = PA_DVD then Some ISO9660 else if i = PA_WOD then Some WOD
      else if i = PA_FST then Some FST else if i = PA_NAND then Some NANDIMG
      else if i = PA_ISFS then Some ISFS else if i = PA_OTP then Some OTP
      else if i = PA_SEEPROM then Some SEEPROM else None)"

definition lib_mount :: "env \<Rightarrow> nat \<Rightarrow> 'z base_scheme \<Rightarrow> (bool \<times> 'z base_scheme) option" where
  "lib_mount E i s = (case fslib_of i of
       None \<Rightarrow> Some (False, s)
     | Some l \<Rightarrow> do { (r, s) \<leftarrow> ext E (CDev (Lib_Mount l)) s; Some (ret r \<noteq> 0, s) })"

definition lib_unmount :: "env \<Rightarrow> nat \<Rightarrow> 'z base_scheme \<Rightarrow> (bool \<times> 'z base_scheme) option" where
  "lib_unmount E i s = (case fslib_of i of
       None \<Rightarrow> Some (False, s)
     | Some l \<Rightarrow> do { (r, s) \<leftarrow> ext E (CDev (Lib_Unmount l)) s; Some (ret r \<noteq> 0, s) })"

section \<open>Mounting\<close>

text \<open>The wait for the drive, until the given time.\<close>

partial_function (option) dvd_spin_up ::
  "env \<Rightarrow> u64 \<Rightarrow> 'z base_scheme \<Rightarrow> (unit \<times> 'z base_scheme) option" where
  "dvd_spin_up E timeout s = do {
     (ready, s) \<leftarrow> dvd_ready E s;
     if ready then Some ((), s) else do {
       (now, s) \<leftarrow> gettime E s;
       if now < timeout then do {
         (_, s) \<leftarrow> ext E (CSys (Usleep 2000)) s;
         dvd_spin_up E timeout s
       } else Some ((), s)
     }
   }"

declare dvd_spin_up.simps [code]

definition dvd_stop_if_unused :: "env \<Rightarrow> 'z fs_st_scheme \<Rightarrow> (unit \<times> 'z fs_st_scheme) option" where
  "dvd_stop_if_unused E s =
     (if dvd_mountWait s then Some ((), s) else do {
        (last, s) \<leftarrow> dvd_last_access E s;
        if last = 0 then do { (_, s) \<leftarrow> dvd_stop E s; Some ((), s) } else Some ((), s)
      })"

definition mount_dvd :: "env \<Rightarrow> nat \<Rightarrow> 'z fs_st_scheme \<Rightarrow> (bool \<times> 'z fs_st_scheme) option" where
  "mount_dvd E i s = do {
     let s = set_dvd_mountWait True s;
     (_, s) \<leftarrow> ext E (CDev DI_Mount) s;
     (now, s) \<leftarrow> gettime E s;
     (_, s) \<leftarrow> dvd_spin_up E (now + secs_to_ticks E 10) s;
     (ready, s) \<leftarrow> dvd_ready E s;
     (success, s) \<leftarrow> (if ready then lib_mount E i (set_dvd_mountWait False s) else Some (False, s));
     (_, s) \<leftarrow> dvd_stop_if_unused E s;
     Some (success, s)
   }"

text \<open>
  \<open>ntfsFindPartitions\<close> stores the address of a list it allocates (\<open>out\<close>, left 0 when it allocates
  none); \<open>ntfsMount\<close> is given its first element, which the address stands for here. Reading the
  first element through NULL is undefined.
\<close>

definition mount_ntfs :: "env \<Rightarrow> string \<Rightarrow> nat \<Rightarrow> 'z base_scheme \<Rightarrow> (bool \<times> 'z base_scheme) option" where
  "mount_ntfs E mp d s = do {
     (r, s) \<leftarrow> ext E (CDev (NtfsFindPartitions d)) s;
     let partitions = out r;
     (success, s) \<leftarrow>
       (if ret r > 0 then
          (if partitions = 0 then None
           else do { (r, s) \<leftarrow> ext E (CDev (NtfsMount mp d partitions)) s; Some (ret r \<noteq> 0, s) })
        else Some (False, s));
     (_, s) \<leftarrow> free E (uint partitions) s;
     Some (success, s)
   }"

text \<open>One attempt: whether the interface could be started, and whether a file system was mounted.\<close>

definition mount_fat_once ::
  "env \<Rightarrow> nat \<Rightarrow> 'z fs_st_scheme \<Rightarrow> ((bool \<times> bool) \<times> 'z fs_st_scheme) option" where
  "mount_fat_once E i s = (case disc (partition i s) of None \<Rightarrow> None | Some d \<Rightarrow> do {
     (down, s) \<leftarrow> (if i = PA_USB then Some (True, s)
        else do { (r, s) \<leftarrow> ext E (CDev (Disc_shutdown d)) s; Some (ret r \<noteq> 0, s) });
     (r, s) \<leftarrow> ext E (CDev (Disc_startup d)) s;
     if down \<and> ret r \<noteq> 0 then do {
       (r, s) \<leftarrow> ext E (CDev (FatMount (mount_point (partition i s)) d)) s;
       if ret r \<noteq> 0 then Some ((True, True), s)
       else do {
         (success, s) \<leftarrow> mount_ntfs E (mount_point (partition i s)) d s;
         Some ((True, success), s)
       }
     } else Some ((False, False), s)
   })"

definition mount_fat :: "env \<Rightarrow> nat \<Rightarrow> 'z fs_st_scheme \<Rightarrow> (bool \<times> 'z fs_st_scheme) option" where
  "mount_fat E i s = do {
     ((started, success), s) \<leftarrow> mount_fat_once E i s;
     if \<not> started \<and> is_gecko i then do {
       (_, s) \<leftarrow> ext E (CSys (Sleep 1)) s;
       ((started, success), s) \<leftarrow> mount_fat_once E i s;
       Some (success, s)
     } else Some (success, s)
   }"

definition mount :: "env \<Rightarrow> nat option \<Rightarrow> 'z fs_st_scheme \<Rightarrow> (bool \<times> 'z fs_st_scheme) option" where
  "mount E p s = (case p of None \<Rightarrow> Some (False, s) | Some i \<Rightarrow> do {
     (m, s) \<leftarrow> mounted E i s;
     if m \<or> is_dvd i \<and> dvd_mountWait s then Some (False, s)
     else do {
       (success, s) \<leftarrow> (if is_dvd i then mount_dvd E i s
          else if is_fat i then mount_fat E i s else lib_mount E i s);
       Some (success, if success \<and> is_gecko i then set_geckofail i False s else s)
     }
   })"

definition mount_virtual :: "env \<Rightarrow> string \<Rightarrow> 'z fs_st_scheme \<Rightarrow> (bool \<times> 'z fs_st_scheme) option" where
  "mount_virtual E dir s = mount E (to_virtual_partition dir s) s"

section \<open>Unmounting\<close>

definition unmount :: "env \<Rightarrow> nat option \<Rightarrow> 'z fs_st_scheme \<Rightarrow> (bool \<times> 'z fs_st_scheme) option" where
  "unmount E p s = (case p of None \<Rightarrow> Some (False, s) | Some i \<Rightarrow> do {
     (m, s) \<leftarrow> mounted E i s;
     if \<not> m \<or> is_dvd i \<and> dvd_mountWait s then Some (False, s)
     else if is_dvd i then do {
       (success, s) \<leftarrow> lib_unmount E i s;
       (_, s) \<leftarrow> dvd_stop_if_unused E s;
       Some (success, s)
     } else if is_fat i then do {
       (_, s) \<leftarrow> ext E (CDev (FatUnmount (real_prefix (partition i s)))) s;
       (_, s) \<leftarrow> ext E (CDev (NtfsUnmount (mount_point (partition i s)))) s;
       Some (True, s)
     } else lib_unmount E i s
   })"

definition unmount_virtual :: "env \<Rightarrow> string \<Rightarrow> 'z fs_st_scheme \<Rightarrow> (bool \<times> 'z fs_st_scheme) option" where
  "unmount_virtual E dir s = unmount E (to_virtual_partition dir s) s"

definition dvd_unmount :: "env \<Rightarrow> 'z fs_st_scheme \<Rightarrow> (unit \<times> 'z fs_st_scheme) option" where
  "dvd_unmount E s = do {
     (_, s) \<leftarrow> unmount E (Some PA_WOD) s;
     (_, s) \<leftarrow> unmount E (Some PA_FST) s;
     (_, s) \<leftarrow> unmount E (Some PA_DVD) s;
     (_, s) \<leftarrow> dvd_stop E s;
     Some ((), s)
   }"

definition dvd_eject :: "env \<Rightarrow> 'z fs_st_scheme \<Rightarrow> (int \<times> 'z fs_st_scheme) option" where
  "dvd_eject E s = do {
     (_, s) \<leftarrow> dvd_unmount E s;
     (r, s) \<leftarrow> ext E (CDev DI_Eject) s;
     Some (ret r, s)
   }"

definition DVD_MOTOR_TIMEOUT :: nat where "DVD_MOTOR_TIMEOUT = 300"

definition check_dvd_motor_timeout ::
  "env \<Rightarrow> u64 \<Rightarrow> 'z fs_st_scheme \<Rightarrow> (unit \<times> 'z fs_st_scheme) option" where
  "check_dvd_motor_timeout E now s = do {
     (dvd_access, s) \<leftarrow> dvd_last_access E s;
     if dvd_access > dvd_last_stopped s \<and> now > dvd_access + secs_to_ticks E DVD_MOTOR_TIMEOUT \<and>
        \<not> dvd_mountWait s
     then dvd_unmount E s else Some ((), s)
   }"

definition check_dvd_mount :: "env \<Rightarrow> 'z fs_st_scheme \<Rightarrow> (unit \<times> 'z fs_st_scheme) option" where
  "check_dvd_mount E s =
     (if dvd_mountWait s then do {
        (ready, s) \<leftarrow> dvd_ready E s;
        if ready then do {
          let s = set_dvd_mountWait False s;
          (wod, s) \<leftarrow> lib_mount E PA_WOD s;
          (fst, s) \<leftarrow> lib_mount E PA_FST s;
          (iso, s) \<leftarrow> lib_mount E PA_DVD s;
          if \<not> (wod \<or> fst \<or> iso) then do { (_, s) \<leftarrow> dvd_stop E s; Some ((), s) }
          else Some ((), s)
        } else Some ((), s)
      } else Some ((), s))"

section \<open>Termination and frames\<close>

text \<open>
  \<open>fs_wf\<close>: the table has its entries, with their strings and disc interfaces.
\<close>

definition fs_wf :: "'z fs_st_scheme \<Rightarrow> bool" where
  "fs_wf s \<longleftrightarrow> map fixed_part (VIRTUAL_PARTITIONS s) = initial_partitions"

lemma fs_wf_frame: "fs_wf s \<Longrightarrow> fs_frame s s' \<Longrightarrow> fs_wf s'"
  by (simp add: fs_wf_def fs_frame_def)

text \<open>
  Laws of the devices: the clock runs (after \<open>N\<close> pauses of two milliseconds ten seconds have passed),
  and a list of partitions that is not empty has an address.
\<close>

definition naps :: "hist \<Rightarrow> nat" where
  "naps h = length (filter (\<lambda>(c, r). c = CSys (Usleep 2000)) h)"

definition clock_runs :: "env \<Rightarrow> nat \<Rightarrow> bool" where
  "clock_runs E N \<longleftrightarrow> (\<forall>h x r r'. answers E h (CSys Gettime) r \<longrightarrow> answers E (h @ x) (CSys Gettime) r' \<longrightarrow>
     N \<le> naps x \<longrightarrow> \<not> word_of_int (ret r') < (word_of_int (ret r) + secs_to_ticks E 10 :: u64))"

definition lists_have_addresses :: "env \<Rightarrow> bool" where
  "lists_have_addresses E \<longleftrightarrow> (\<forall>h d r. answers E h (CDev (NtfsFindPartitions d)) r \<longrightarrow> 0 < ret r \<longrightarrow> out r \<noteq> 0)"

definition devices_ok :: "env \<Rightarrow> bool" where
  "devices_ok E \<longleftrightarrow> fresh E \<and> lists_have_addresses E \<and> (\<exists>N. clock_runs E N)"

lemma devices_ok_fresh: "devices_ok E \<Longrightarrow> fresh E"
  by (simp add: devices_ok_def)

lemma naps_simps [simp]:
  "naps [] = 0" "naps (h @ h') = naps h + naps h'"
  "naps ((c, r) # h) = (if c = CSys (Usleep 2000) then Suc (naps h) else naps h)"
  by (simp_all add: naps_def)

definition quiet :: "'z fs_st_scheme \<Rightarrow> 'z fs_st_scheme \<Rightarrow> bool" where
  "quiet s s' \<longleftrightarrow> drive_frame s s' \<and> base.more s' = base.more s"

lemma quiet_refl [simp, intro]: "quiet s s"
  by (simp add: quiet_def)

lemma quiet_trans [trans]: "quiet s s' \<Longrightarrow> quiet s' s'' \<Longrightarrow> quiet s s''"
  by (auto simp: quiet_def intro: drive_frame_trans)

lemma quiet_drive: "quiet s s' \<Longrightarrow> drive_frame s s'"
  by (simp add: quiet_def)

lemma quiet_media: "quiet s s' \<Longrightarrow> same_media s s'"
  by (auto simp: quiet_def intro: same_media_more)

lemma quiet_both: "quiet s s' \<Longrightarrow> drive_frame s s' \<and> same_media s s'"
  by (simp add: quiet_drive quiet_media)

lemma quiet_call:
  "base.more s' = base.more s \<Longrightarrow> trace s' = trace s @ [(c, r)] \<Longrightarrow> dev_io c \<Longrightarrow> neutral c \<Longrightarrow> quiet s s'"
  by (auto simp: quiet_def neutral_def intro!: frame_drive frame_call)

lemma ext_quiet: "dev_io c \<Longrightarrow> neutral c \<Longrightarrow> returns (ext E c s) (\<lambda>r s'. quiet s s')"
  unfolding quiet_def by (rule ext_drive)

lemma dvd_ready_law:
  "returns (dvd_ready E s) (\<lambda>b s'. quiet s s' \<and> naps (trace s') = naps (trace s) \<and>
     (\<exists>r. trace s' = trace s @ [(CDev DI_GetStatus, r)]))"
  unfolding dvd_ready_def
  by (auto intro!: returns_mono[OF ext_step] intro: quiet_call)

lemma gettime_law:
  "returns (gettime E s) (\<lambda>t s'. quiet s s' \<and> (\<exists>r. t = word_of_int (ret r) \<and>
     answers E (trace s) (CSys Gettime) r \<and> trace s' = trace s @ [(CSys Gettime, r)]))"
  unfolding gettime_def
  by (auto intro!: returns_mono[OF ext_law] intro: quiet_call)

lemma dvd_spin_up_quiet:
  assumes stop: "\<And>x r. answers E (h @ x) (CSys Gettime) r \<Longrightarrow> N \<le> naps x \<Longrightarrow> \<not> word_of_int (ret r) < timeout"
    and "trace s = h @ x"
  shows "returns (dvd_spin_up E timeout s) (\<lambda>_ s'. quiet s s')"
  using assms(2)
proof (induction "N - naps x" arbitrary: s x rule: less_induct)
  case less
  have again: "returns (dvd_spin_up E timeout s3) (\<lambda>_ s'. quiet s s')"
    if "quiet s s1" "trace s1 = trace s @ [(CDev DI_GetStatus, r1)]" "quiet s1 s2"
      "trace s2 = trace s1 @ [(CSys Gettime, r2)]" "answers E (trace s1) (CSys Gettime) r2"
      "t = word_of_int (ret r2)" "t < timeout"
      "quiet s2 s3" "trace s3 = trace s2 @ [(CSys (Usleep 2000), r3)]" for s1 s2 s3 r1 r2 r3 t
  proof -
    let ?y = "x @ [(CDev DI_GetStatus, r1)]" and ?x = "x @ [(CDev DI_GetStatus, r1), (CSys Gettime, r2), (CSys (Usleep 2000), r3)]"
    have "trace s1 = h @ ?y" "trace s3 = h @ ?x" using that less.prems by simp_all
    moreover have "\<not> N \<le> naps ?y" using stop[of ?y r2] that \<open>trace s1 = h @ ?y\<close> by auto
    then have "N - naps ?x < N - naps x" by simp
    ultimately have "returns (dvd_spin_up E timeout s3) (\<lambda>_ s'. quiet s3 s')" by (intro less.hyps)
    then show ?thesis by (rule returns_mono) (use that in \<open>blast intro: quiet_trans\<close>)
  qed
  have nap: "returns (ext E (CSys (Usleep 2000)) s2) (\<lambda>r s3. quiet s2 s3 \<and> trace s3 = trace s2 @ [(CSys (Usleep 2000), r)])"
    for s2 :: "'a fs_st_scheme"
    by (rule returns_mono[OF ext_step]) (auto intro: quiet_call)
  show ?case
    apply (subst dvd_spin_up.simps)
    apply (simp (no_asm) only: vc_simps)
    apply (rule returns_mono[OF dvd_ready_law], elim conjE exE, intro returns_ifI)
     apply (simp (no_asm_simp))
    apply (simp (no_asm) only: vc_simps)
    apply (rule returns_mono[OF gettime_law], elim conjE exE, intro returns_ifI)
     apply (simp (no_asm) only: vc_simps)
     apply (rule returns_mono[OF nap], elim conjE)
     apply (rule again; assumption)
    apply (simp (no_asm) only: vc_simps, blast intro: quiet_trans)
    done
qed

text \<open>\<open>mounted\<close> opens a directory and closes it again.\<close>

definition dir_io :: "call \<Rightarrow> bool" where
  "dir_io c \<longleftrightarrow> (case c of CFile (Diropen _) \<Rightarrow> True | CFile (Dirclose _) \<Rightarrow> True | _ \<Rightarrow> False)"

lemma mounted_returns:
  assumes "fresh E"
  shows "returns (mounted E i s) (\<lambda>b s'. frame dir_io s s' \<and> held (trace s') = held (trace s))"
proof -
  have cl: "frame dir_io s s'' \<and> held (trace s'') = held (trace s)"
    if "base.more s' = base.more s" "trace s' = trace s @ [(CFile (Diropen p), r)]" "ret r \<noteq> 0"
     "base.more s'' = base.more s'" "trace s'' = trace s' @ [(CFile (Dirclose (ret r)), q)]"
     "answers E (trace s) (CFile (Diropen p)) r"
    for s s' s'' :: "'a fs_st_scheme" and p r q
  proof -
    have "Dir (ret r) \<notin> held (trace s)" using freshD[OF assms that(6)] that(3) by simp
    then have "held (trace s'') = held (trace s)" using that by simp
    moreover have "frame dir_io s s'" "frame dir_io s' s''"
      using that by (auto intro!: frame_call simp: dir_io_def)
    then have "frame dir_io s s''" by (rule frame_trans)
    ultimately show ?thesis by simp
  qed
  show ?thesis
    unfolding mounted_def
    apply (simp (no_asm) only: vc_simps)
    apply (rule returns_mono[OF ext_law], elim conjE, intro returns_ifI)
     apply (simp (no_asm) only: vc_simps, subst ext_on_held, simp)
     apply (rule returns_mono[OF ext_step], elim conjE)
     apply (rule cl; assumption)
    apply (auto intro!: frame_call simp: dir_io_def)
    done
qed

lemma mounted_quiet: "fresh E \<Longrightarrow> returns (mounted E i s) (\<lambda>b s'. quiet s s')"
  by (rule returns_mono[OF mounted_returns])
     (auto simp: quiet_def dir_io_def dest: frame_more intro!: frame_drive elim!: frame_mono
       split: call.splits file_call.splits)

section \<open>What a successful mount means\<close>

text \<open>
  \<open>did s s' P\<close>: between the two states a call with an answer that satisfies \<open>P\<close> was made.
  \<open>mount_ok i p\<close>: it is a mount of partition \<open>i\<close>, whose table entry is \<open>p\<close>, that succeeded.
\<close>

definition did :: "'y base_scheme \<Rightarrow> 'z base_scheme \<Rightarrow> (call \<Rightarrow> reply \<Rightarrow> bool) \<Rightarrow> bool" where
  "did s s' P \<longleftrightarrow> (\<exists>t c r. trace s' = trace s @ t \<and> (c, r) \<in> set t \<and> P c r)"

definition mount_ok :: "nat \<Rightarrow> virtual_partition \<Rightarrow> call \<Rightarrow> reply \<Rightarrow> bool" where
  "mount_ok i p c r \<longleftrightarrow> ret r \<noteq> 0 \<and> (case c of
       CDev (Lib_Mount l) \<Rightarrow> fslib_of i = Some l
     | CDev (FatMount m d) \<Rightarrow> is_fat i \<and> m = mount_point p \<and> disc p = Some d
     | CDev (NtfsMount m d q) \<Rightarrow> is_fat i \<and> m = mount_point p \<and> disc p = Some d
     | _ \<Rightarrow> False)"

lemma did_later: "did s s' P \<Longrightarrow> logs C s' s'' \<Longrightarrow> did s s'' P"
  by (fastforce simp: did_def logs_def)

lemma did_append: "did s s' P \<Longrightarrow> trace s'' = trace s' @ t \<Longrightarrow> did s s'' P"
  by (fastforce simp: did_def)

lemma did_earlier: "logs C s s' \<Longrightarrow> did s' s'' P \<Longrightarrow> did s s'' P"
  by (fastforce simp: did_def logs_def)

lemma did_call: "trace s' = trace s @ [(c, r)] \<Longrightarrow> P c r \<Longrightarrow> did s s' P"
  by (auto simp: did_def)

lemma drive_logs: "drive_frame s s' \<Longrightarrow> logs dev_io s s'"
  by (simp add: drive_frame_def fs_frame_def)

lemma quiet_logs: "quiet s s' \<Longrightarrow> logs dev_io s s'"
  by (simp add: quiet_def drive_logs)

definition mount_spec :: "nat \<Rightarrow> virtual_partition \<Rightarrow> 'z fs_st_scheme \<Rightarrow> bool \<Rightarrow> 'z fs_st_scheme \<Rightarrow> bool" where
  "mount_spec i p s b s' \<longleftrightarrow> drive_frame s s' \<and> (b \<longrightarrow> did s s' (mount_ok i p))"

lemma mount_spec_after: "drive_frame s s' \<Longrightarrow> mount_spec i p s' b s'' \<Longrightarrow> mount_spec i p s b s''"
  by (auto simp: mount_spec_def intro: drive_frame_trans did_earlier drive_logs)

lemma mount_spec_before: "mount_spec i p s b s' \<Longrightarrow> drive_frame s' s'' \<Longrightarrow> mount_spec i p s b s''"
  by (auto simp: mount_spec_def intro: drive_frame_trans did_later drive_logs)

lemma mount_spec_drive: "mount_spec i p s b s' \<Longrightarrow> drive_frame s s'"
  by (simp add: mount_spec_def)

lemma mount_spec_failed: "drive_frame s s' \<Longrightarrow> mount_spec i p s False s'"
  by (simp add: mount_spec_def)

lemma mount_spec_call:
  "quiet s s' \<Longrightarrow> trace s' = trace s @ [(c, r)] \<Longrightarrow> (b \<Longrightarrow> mount_ok i p c r) \<Longrightarrow> mount_spec i p s b s'"
  by (auto simp: mount_spec_def quiet_drive intro: did_call)

lemma mount_spec_wait [simp]:
  "mount_spec i p (set_dvd_mountWait w s) b s' = mount_spec i p s b s'"
  by (simp add: mount_spec_def drive_frame_def fs_frame_def did_def logs_def set_dvd_mountWait_def)

lemma drive_frame_wait [simp]: "drive_frame (set_dvd_mountWait w s) s' = drive_frame s s'"
  by (simp add: drive_frame_def fs_frame_def logs_def set_dvd_mountWait_def)

lemma ext_quiet_law:
  "dev_io c \<Longrightarrow> neutral c \<Longrightarrow> returns (ext E c s) (\<lambda>r s'. quiet s s' \<and> trace s' = trace s @ [(c, r)])"
  by (rule returns_mono[OF ext_step]) (auto intro: quiet_call)

lemma lib_mount_spec: "returns (lib_mount E i s) (\<lambda>b s'. quiet s s' \<and> mount_spec i p s b s')"
proof -
  have "mount_spec i p s (ret r \<noteq> 0) s'"
    if "fslib_of i = Some l" "quiet s s'" "trace s' = trace s @ [(CDev (Lib_Mount l), r)]" for s' r l
    using that by (intro mount_spec_call) (auto simp: mount_ok_def)
  then show ?thesis
    unfolding lib_mount_def
    by (auto split: option.splits intro: mount_spec_failed intro!: returns_mono[OF ext_quiet_law])
qed

lemma lib_unmount_quiet: "returns (lib_unmount E i s) (\<lambda>b s'. quiet s s')"
  unfolding lib_unmount_def
  by (auto split: option.splits intro!: returns_mono[OF ext_quiet])

lemma dvd_last_access_quiet: "returns (dvd_last_access E s) (\<lambda>b s'. quiet s s')"
  unfolding quiet_def by (rule dvd_last_access_drive)

lemma dvd_stop_if_unused_drive:
  "returns (dvd_stop_if_unused E s) (\<lambda>_ s'. drive_frame s s' \<and> same_media s s')"
  unfolding dvd_stop_if_unused_def
  by (auto intro!: returns_mono[OF dvd_last_access_quiet] returns_mono[OF dvd_stop_drive]
      intro: drive_frame_trans same_media_trans dest!: quiet_both)

lemma mount_dvd_spec:
  assumes "devices_ok E"
  shows "returns (mount_dvd E i s) (\<lambda>b s'. mount_spec i p s b s')"
proof -
  obtain N where N: "clock_runs E N" using assms by (auto simp: devices_ok_def)
  have spin: "returns (dvd_spin_up E (t + secs_to_ticks E 10) s2) (\<lambda>_ s'. quiet s2 s')"
    if "answers E h (CSys Gettime) r" "t = word_of_int (ret r)" "trace s2 = h @ x"
    for h r x t and s2 :: "'a fs_st_scheme"
  proof (rule dvd_spin_up_quiet[OF _ that(3)])
    fix x' r' assume "answers E (h @ x') (CSys Gettime) r'" "N \<le> naps x'"
    then show "\<not> word_of_int (ret r') < t + secs_to_ticks E 10"
      using N that by (auto simp: clock_runs_def)
  qed
  have try_mount: "returns (if ready then lib_mount E i (set_dvd_mountWait False s3) else Some (False, s3))
      (\<lambda>b s'. mount_spec i p s b s')" if "drive_frame s s3" for ready s3
    using that by (auto intro!: returns_mono[OF lib_mount_spec[where p = p]]
        intro: mount_spec_failed mount_spec_after)
  have chain: "drive_frame s s4"
    if "quiet (set_dvd_mountWait True s) s1" "quiet s1 s2" "quiet s2 s3" "quiet s3 s4" for s1 s2 s3 s4
    using that[THEN quiet_drive] by (auto intro: drive_frame_trans)
  show ?thesis
    unfolding mount_dvd_def
    apply (simp (no_asm) only: vc_simps)
    apply (rule returns_mono[OF ext_quiet], simp, simp)
    apply (rule returns_mono[OF gettime_law], elim conjE exE)
    apply (rule returns_mono[OF spin], assumption, assumption, assumption)
    apply (rule returns_mono[OF dvd_ready_law], elim conjE exE)
    apply (rule returns_mono[OF try_mount])
     apply (blast intro: chain)
    apply (rule returns_mono[OF dvd_stop_if_unused_drive])
    apply (auto intro: mount_spec_before)
    done
qed

lemma quiet_partition: "quiet s s' \<Longrightarrow> partition i s' = partition i s"
  by (auto dest: quiet_media simp: same_media_def partition_def)

lemma mount_ntfs_spec:
  assumes "devices_ok E" "is_fat i" "mp = mount_point p" "disc p = Some d"
  shows "returns (mount_ntfs E mp d s) (\<lambda>b s'. quiet s s' \<and> mount_spec i p s b s')"
proof -
  note laws = assms(1)[unfolded devices_ok_def]
  define P where "P s1 r b s2 \<longleftrightarrow> frame dev_io s1 s2 \<and> held (trace s2) = held (trace s1) \<and>
    (b \<longrightarrow> did s1 s2 (mount_ok i p))" for s1 s2 :: "'a fs_st_scheme" and r :: reply and b
  have find: "returns (ext E (CDev (NtfsFindPartitions d)) s) (\<lambda>r s1. frame dev_io s s1 \<and>
      (0 < ret r \<longrightarrow> out r \<noteq> 0) \<and>
      (if out r = 0 then held (trace s1) = held (trace s)
       else Mem (uint (out r)) \<notin> held (trace s) \<and>
         held (trace s1) = insert (Mem (uint (out r))) (held (trace s))))"
    using laws by (auto intro!: returns_mono[OF ext_law] frame_call simp: lists_have_addresses_def
        dest: freshD)
  have try_mount: "returns (if ret r > 0 then (if out r = 0 then None
       else do { (r, s) \<leftarrow> ext E (CDev (NtfsMount mp d (out r))) s1; Some (ret r \<noteq> 0, s) })
     else Some (False, s1)) (\<lambda>b s2. P s1 r b s2)" if "0 < ret r \<longrightarrow> out r \<noteq> 0" for r s1
    using that assms(2-4)
    by (auto simp: P_def mount_ok_def intro!: returns_mono[OF ext_step] frame_call did_call)
  have release: "returns (free E (uint (out r)) s2) (\<lambda>_ s'. quiet s s' \<and> mount_spec i p s b s')"
    if "frame dev_io s s1" "if out r = 0 then held (trace s1) = held (trace s)
       else Mem (uint (out r)) \<notin> held (trace s) \<and>
         held (trace s1) = insert (Mem (uint (out r))) (held (trace s))" "P s1 r b s2" for r s1 b s2
  proof -
    have "frame dev_io s s2" using that(1,3) by (auto simp: P_def intro: frame_trans)
    moreover have "did s s2 (mount_ok i p)" if b
      using that \<open>P s1 r b s2\<close> \<open>frame dev_io s s1\<close> by (auto simp: P_def frame_def intro: did_earlier)
    ultimately show ?thesis
      using that(2,3)
      by (auto simp: free_def P_def mount_spec_def quiet_def uint_0_iff
          intro!: returns_mono[OF ext_step] frame_drive
          split: if_splits intro: frame_trans[OF _ frame_call] did_append
          dest: frame_more simp: frame_def)
  qed
  show ?thesis
    unfolding mount_ntfs_def Let_def
    apply (simp (no_asm) only: vc_simps)
    apply (rule returns_mono[OF find], elim conjE)
    apply (rule returns_mono[OF try_mount], assumption)
    apply (rule returns_mono[OF release], assumption, assumption, assumption)
    apply (simp (no_asm_simp))
    done
qed

lemma fat_disc: "fs_wf s \<Longrightarrow> is_fat i \<Longrightarrow> \<exists>d. disc (partition i s) = Some d"
proof -
  assume wf: "fs_wf s" and fat: "is_fat i"
  have "i < length initial_partitions" "disc (initial_partitions ! i) = Some i"
    using fat by (auto simp: is_fat_def is_gecko_def PA_defs initial_partitions_def partition_entry_def)
  moreover have "length (VIRTUAL_PARTITIONS s) = length initial_partitions"
    using wf by (metis fs_wf_def length_map)
  moreover have "fixed_part (VIRTUAL_PARTITIONS s ! i) = initial_partitions ! i"
    using wf calculation by (metis fs_wf_def nth_map)
  then have "disc (VIRTUAL_PARTITIONS s ! i) = disc (initial_partitions ! i)"
    by (metis fixed_part_def virtual_partition.simps(7) virtual_partition.update_convs(5,6)
        virtual_partition.select_convs(7) virtual_partition.surjective)
  ultimately show ?thesis by (simp add: partition_def)
qed

lemma mount_fat_once_spec:
  assumes "devices_ok E" "fs_wf s" "is_fat i"
  shows "returns (mount_fat_once E i s) (\<lambda>(started, b) s'. quiet s s' \<and>
    mount_spec i (partition i s) s b s')"
proof -
  obtain d where d: "disc (partition i s) = Some d" using fat_disc assms by blast
  have fat: "quiet s s2 \<and> (ret r \<noteq> 0 \<longrightarrow> mount_spec i (partition i s) s True s2)"
    if "quiet s s1" "quiet s1 s2"
      "trace s2 = trace s1 @ [(CDev (FatMount (mount_point (partition i s1)) d), r)]" for s1 s2 r
  proof -
    have "quiet s s2" using that(1,2) by (rule quiet_trans)
    moreover have "mount_spec i (partition i s) s1 True s2" if "ret r \<noteq> 0"
      using \<open>quiet s1 s2\<close> \<open>trace s2 = _\<close> quiet_partition[OF \<open>quiet s s1\<close>, of i] d assms(3) that
      by (intro mount_spec_call) (auto simp: mount_ok_def)
    ultimately show ?thesis using quiet_drive[OF \<open>quiet s s1\<close>] by (auto intro: mount_spec_after)
  qed
  have ntfs: "returns (mount_ntfs E (mount_point (partition i s2)) d s2)
      (\<lambda>b s'. quiet s s' \<and> mount_spec i (partition i s) s b s')" if "quiet s s2" for s2
    by (rule returns_mono[OF mount_ntfs_spec[OF assms(1,3), where p = "partition i s"]])
       (use that d quiet_partition[OF that, of i] in
         \<open>auto intro: quiet_trans mount_spec_after[OF quiet_drive]\<close>)
  have down: "returns (if i = PA_USB then Some (True, s)
      else do { (r, s) \<leftarrow> ext E (CDev (Disc_shutdown d)) s; Some (ret r \<noteq> 0, s) }) (\<lambda>_ s'. quiet s s')"
    by (auto intro!: returns_mono[OF ext_quiet])
  have up: "returns (ext E (CDev (Disc_startup d)) s1) (\<lambda>r s'. quiet s s')" if "quiet s s1" for s1
    by (rule returns_mono[OF ext_quiet]) (use that in \<open>auto intro: quiet_trans\<close>)
  have fail: "quiet s s2 \<Longrightarrow> mount_spec i (partition i s) s False s2" for s2
    by (simp add: mount_spec_def quiet_drive)
  have fat_call: "returns (ext E (CDev (FatMount (mount_point (partition i s1)) d)) s1) (\<lambda>r s'. quiet s s' \<and>
      (ret r \<noteq> 0 \<longrightarrow> mount_spec i (partition i s) s True s'))" if "quiet s s1" for s1
    by (rule returns_mono[OF ext_quiet_law]) (use fat[OF that] in auto)
  show ?thesis
    unfolding mount_fat_once_def d option.case
    apply (simp (no_asm) only: vc_simps)
    apply (rule returns_mono[OF down])
    apply (rule returns_mono[OF up], assumption)
    apply (intro returns_ifI)
     apply (simp (no_asm) only: vc_simps)
     apply (rule returns_mono[OF fat_call], assumption, elim conjE)
     apply (intro returns_ifI)
      apply simp
     apply (auto intro!: returns_mono[OF ntfs] intro: fail)
    done
qed

lemma mount_fat_spec:
  assumes "devices_ok E" "fs_wf s" "is_fat i"
  shows "returns (mount_fat E i s) (\<lambda>b s'. quiet s s' \<and> mount_spec i (partition i s) s b s')"
proof -
  have again: "returns (mount_fat_once E i s2) (\<lambda>(started, b) s'. quiet s s' \<and>
      mount_spec i (partition i s) s b s')" if "quiet s s2" for s2
    by (rule returns_mono[OF mount_fat_once_spec[OF assms(1) _ assms(3)]])
       (use that assms(2) fs_wf_frame[OF _ drive_fs_frame[OF quiet_drive]] quiet_partition[OF that, of i] in
         \<open>auto intro: quiet_trans mount_spec_after[OF quiet_drive]\<close>)
  show ?thesis
    unfolding mount_fat_def
    by (auto intro!: returns_mono[OF mount_fat_once_spec[OF assms]] returns_mono[OF ext_quiet]
        returns_mono[OF again] intro: quiet_trans)
qed

lemma gecko_frame: "mount_spec i p s b s' \<Longrightarrow> mount_spec i p s b (set_geckofail j v s')"
  by (simp add: mount_spec_def did_def set_geckofail_def drive_frame_def fs_frame_def logs_def
      partition_def fixed_update)

lemma mount_returns:
  assumes "devices_ok E" "fs_wf s"
  shows "returns (mount E p s) (\<lambda>b s'. drive_frame s s' \<and>
    (b \<longrightarrow> (\<exists>i. p = Some i \<and> did s s' (mount_ok i (partition i s)))))"
proof (cases p)
  case (Some i)
  let ?Q = "\<lambda>b s'. mount_spec i (partition i s) s b s'"
  have go: "returns (if is_dvd i then mount_dvd E i s1 else if is_fat i then mount_fat E i s1
      else lib_mount E i s1) ?Q" if "quiet s s1" for s1
  proof -
    have "fs_wf s1" using assms(2) that fs_wf_frame drive_fs_frame quiet_drive by blast
    then show ?thesis
      using that quiet_partition[OF that, of i]
      by (auto intro!: returns_mono[OF mount_dvd_spec[OF assms(1), where p = "partition i s"]]
          returns_mono[OF mount_fat_spec[OF assms(1)]]
          returns_mono[OF lib_mount_spec[where p = "partition i s"]]
          intro: mount_spec_after[OF quiet_drive])
  qed
  have "returns (mount E p s) ?Q"
    unfolding mount_def Some option.case
    apply (simp (no_asm) only: vc_simps)
    apply (rule returns_mono[OF mounted_quiet[OF devices_ok_fresh[OF assms(1)]]])
    apply (intro returns_ifI)
     apply (simp add: mount_spec_def quiet_drive)
    apply (simp (no_asm) only: vc_simps)
    apply (rule returns_mono[OF go], assumption)
    apply (auto intro: gecko_frame)
    done
  with Some show ?thesis by (auto simp: mount_spec_def elim: returns_mono)
qed (simp add: mount_def)

lemma unmount_returns:
  assumes "fresh E"
  shows "returns (unmount E p s) (\<lambda>b s'. drive_frame s s' \<and> same_media s s')"
proof -
  have "returns (unmount E (Some i) s) (\<lambda>b s'. drive_frame s s' \<and> same_media s s')" for i
    unfolding unmount_def
    by (auto intro!: returns_mono[OF mounted_quiet[OF assms]] returns_mono[OF lib_unmount_quiet]
        returns_mono[OF dvd_stop_if_unused_drive] returns_mono[OF ext_quiet]
        intro: drive_frame_trans same_media_trans dest!: quiet_both)
  then show ?thesis by (cases p) (simp_all add: unmount_def)
qed

lemma dvd_unmount_returns:
  assumes "fresh E"
  shows "returns (dvd_unmount E s) (\<lambda>_ s'. drive_frame s s' \<and> same_media s s')"
  unfolding dvd_unmount_def
  by (auto intro!: returns_mono[OF unmount_returns[OF assms]] returns_mono[OF dvd_stop_drive]
      intro: drive_frame_trans same_media_trans)

lemma dvd_eject_returns:
  assumes "fresh E"
  shows "returns (dvd_eject E s) (\<lambda>_ s'. drive_frame s s' \<and> same_media s s')"
  unfolding dvd_eject_def
  by (auto intro!: returns_mono[OF dvd_unmount_returns[OF assms]] returns_mono[OF ext_quiet]
      intro: drive_frame_trans same_media_trans dest!: quiet_both)

lemma check_dvd_motor_timeout_returns:
  assumes "fresh E"
  shows "returns (check_dvd_motor_timeout E now s) (\<lambda>_ s'. drive_frame s s' \<and> same_media s s')"
  unfolding check_dvd_motor_timeout_def
  by (auto intro!: returns_mono[OF dvd_unmount_returns[OF assms]] returns_mono[OF dvd_last_access_quiet]
      intro: drive_frame_trans same_media_trans dest!: quiet_both)

lemma check_dvd_mount_returns:
  "returns (check_dvd_mount E s) (\<lambda>_ s'. drive_frame s s' \<and>
    (dvd_mountWait s' \<longrightarrow> dvd_mountWait s))"
proof -
  have lib: "returns (lib_mount E i s1) (\<lambda>b s'. quiet s1 s')" for i s1
    by (rule returns_mono[OF lib_mount_spec]) auto
  have chain: "drive_frame s s4 \<and> \<not> dvd_mountWait s4"
    if "quiet s s1" "quiet (set_dvd_mountWait False s1) s2" "quiet s2 s3" "quiet s3 s4"
    for s1 s2 s3 s4
  proof -
    have "drive_frame s s4" using that[THEN quiet_drive] by (auto intro: drive_frame_trans)
    moreover have "same_media (set_dvd_mountWait False s1) s4"
      using that(2-4)[THEN quiet_media] by (auto intro: same_media_trans)
    ultimately show ?thesis by (simp add: same_media_def set_dvd_mountWait_def)
  qed
  have stop: "returns (dvd_stop E s4) (\<lambda>_ s'. drive_frame s s' \<and> \<not> dvd_mountWait s')"
    if "drive_frame s s4 \<and> \<not> dvd_mountWait s4" for s4
    by (rule returns_mono[OF dvd_stop_drive])
       (use that in \<open>auto intro: drive_frame_trans simp: same_media_def\<close>)
  have ready: "returns (dvd_ready E s) (\<lambda>b s'. quiet s s')"
    by (rule returns_mono[OF dvd_ready_law]) auto
  show ?thesis
    unfolding check_dvd_mount_def Let_def
    apply (intro returns_ifI)
     apply (simp (no_asm) only: vc_simps)
     apply (rule returns_mono[OF ready], intro returns_ifI)
      apply (simp (no_asm) only: vc_simps)
      apply (rule returns_mono[OF lib])
      apply (rule returns_mono[OF lib])
      apply (rule returns_mono[OF lib])
      apply (drule (3) chain, intro returns_ifI)
       apply (simp (no_asm) only: vc_simps)
       apply (rule returns_mono[OF stop], assumption)
       apply (auto dest: quiet_drive)
    done
qed

end
