(* ===== verification/Devices.thy ===== *)
theory Devices
  imports Mount
begin

text \<open>
  The rest of \<open>source/fs.c\<close>: polling the removable devices, the dialogue that lets the user change
  a device with the pads, and \<open>initialise_fs\<close>. The dialogue is a state machine; \<open>fs_step\<close> collects
  every operation on the file system state, and the dialogue's invariant holds in every state the
  steps reach.
\<close>

section \<open>Polling\<close>

definition update_inserted :: "env \<Rightarrow> nat \<Rightarrow> bool \<Rightarrow> 'z fs_st_scheme \<Rightarrow> (unit \<times> 'z fs_st_scheme) option" where
  "update_inserted E i already_inserted s =
     (if is_dvd i then
        (if i = PA_DVD then
           (if dvd_mountWait s then Some ((), s) else do {
              (_, s) \<leftarrow> ext E (CSys (Usleep 2000)) s;
              (r, s) \<leftarrow> ext E (CDev DI_GetCoverRegister) s;
              Some ((), if ret r = 0 then set_inserted i (out r AND 2 = 2) s else s)
            })
         else Some ((), set_inserted i (inserted (partition PA_DVD s)) s))
      else (case disc (partition i s) of None \<Rightarrow> None | Some d \<Rightarrow> do {
        (_, s) \<leftarrow> (if \<not> already_inserted \<and> i = PA_SD
          then do { (_, s) \<leftarrow> ext E (CDev (Disc_startup d)) s; Some ((), s) } else Some ((), s));
        (r, s) \<leftarrow> ext E (CDev (Disc_isInserted d)) s;
        Some ((), set_inserted i (ret r \<noteq> 0) s)
      }))"

definition was_inserted_or_removed :: "env \<Rightarrow> nat \<Rightarrow> 'z fs_st_scheme \<Rightarrow> (bool \<times> 'z fs_st_scheme) option" where
  "was_inserted_or_removed E i s =
     (if (disc (partition i s) = None \<or> geckofail (partition i s)) \<and> \<not> is_dvd i then Some (False, s)
      else do {
        (already_inserted, s) \<leftarrow> (if inserted (partition i s) then Some (True, s) else mounted E i s);
        (_, s) \<leftarrow> update_inserted E i already_inserted s;
        Some (already_inserted \<noteq> inserted (partition i s), s)
      })"

definition device_inserted :: "env \<Rightarrow> nat \<Rightarrow> 'z fs_st_scheme \<Rightarrow> (unit \<times> 'z fs_st_scheme) option" where
  "device_inserted E i s =
     (if i = PA_DVD then do {
        (_, s) \<leftarrow> ext E (CDev DI_Mount) (set_dvd_mountWait True s);
        Some ((), s)
      } else do {
        (b, s) \<leftarrow> mount E (Some i) s;
        Some ((), if \<not> b \<and> is_gecko i then set_geckofail i True s else s)
      })"

definition check_device :: "env \<Rightarrow> nat \<Rightarrow> 'z fs_st_scheme \<Rightarrow> (unit \<times> 'z fs_st_scheme) option" where
  "check_device E i s =
     (if mount_timer s \<noteq> 0 \<and> mount_partition s = Some i then Some ((), s) else do {
        (changed, s) \<leftarrow> was_inserted_or_removed E i s;
        if \<not> changed then Some ((), s)
        else if inserted (partition i s) then
          (if i = PA_DVD then device_inserted E i s
           else if is_dvd i then Some ((), s)
           else do {
             (m, s) \<leftarrow> mounted E i s;
             if m then Some ((), s) else device_inserted E i s
           })
        else do {
          (m, s) \<leftarrow> mounted E i s;
          if m then do { (_, s) \<leftarrow> unmount E (Some i) s; Some ((), s) } else Some ((), s)
        }
      })"

fun check_devices :: "env \<Rightarrow> nat list \<Rightarrow> 'z fs_st_scheme \<Rightarrow> (unit \<times> 'z fs_st_scheme) option" where
  "check_devices E [] s = Some ((), s)"
| "check_devices E (i # is) s = do { (_, s) \<leftarrow> check_device E i s; check_devices E is s }"

definition check_removable_devices :: "env \<Rightarrow> u64 \<Rightarrow> 'z fs_st_scheme \<Rightarrow> (unit \<times> 'z fs_st_scheme) option" where
  "check_removable_devices E now s =
     (if now \<le> device_check_timer s then Some ((), s) else do {
        (_, s) \<leftarrow> check_devices E [0..<MAX_VIRTUAL_PARTITIONS] s;
        (t, s) \<leftarrow> gettime E s;
        Some ((), s\<lparr>device_check_timer := t + secs_to_ticks E 2\<rparr>)
      })"

section \<open>The remount dialogue\<close>

definition process_remount_event :: "env \<Rightarrow> 'z fs_st_scheme \<Rightarrow> (unit \<times> 'z fs_st_scheme) option" where
  "process_remount_event E s =
     (if mountstate s = MOUNTSTATE_START \<or> mountstate s = MOUNTSTATE_SELECTDEVICE then
        Some ((), s\<lparr>mountstate := MOUNTSTATE_SELECTDEVICE, mount_partition := None\<rparr>)
      else do {
        let s = s\<lparr>mount_timer := 0, mountstate := MOUNTSTATE_START\<rparr>;
        (_, s) \<leftarrow> (case mount_partition s of
            Some i \<Rightarrow>
              if is_dvd i then do { (_, s) \<leftarrow> ext E (CDev DI_Mount) (set_dvd_mountWait True s); Some ((), s) }
              else do { (_, s) \<leftarrow> mount E (Some i) s; Some ((), s) }
          | None \<Rightarrow> do { (_, s) \<leftarrow> mount E None s; Some ((), s) });
        Some ((), s\<lparr>mount_partition := None\<rparr>)
      })"

definition pressed_device :: "env \<Rightarrow> u32 \<Rightarrow> nat option" where
  "pressed_device E pressed =
     (if pressed AND wpad_mask E Button_Left \<noteq> 0 then Some PA_SD
      else if pressed AND wpad_mask E Button_Right \<noteq> 0 then Some PA_USB
      else if pressed AND wpad_mask E Button_Up \<noteq> 0 then Some PA_GCSDA
      else if pressed AND wpad_mask E Button_Down \<noteq> 0 then Some PA_GCSDB
      else if pressed AND wpad_mask E Button_1X \<noteq> 0 then Some PA_DVD
      else None)"

definition process_device_select_event ::
  "env \<Rightarrow> u32 \<Rightarrow> 'z fs_st_scheme \<Rightarrow> (unit \<times> 'z fs_st_scheme) option" where
  "process_device_select_event E pressed s =
     (if mountstate s \<noteq> MOUNTSTATE_SELECTDEVICE then Some ((), s) else
        let s = (case pressed_device E pressed of
                   Some i \<Rightarrow> s\<lparr>mount_partition := Some i\<rparr> | None \<Rightarrow> s) in
        case mount_partition s of None \<Rightarrow> Some ((), s) | Some i \<Rightarrow>
          let s = s\<lparr>mountstate := MOUNTSTATE_WAITFORDEVICE\<rparr> in
          if is_dvd i \<and> dvd_mountWait s then Some ((), s\<lparr>mountstate := MOUNTSTATE_START\<rparr>)
          else do {
            (_, s) \<leftarrow> (if is_dvd i then dvd_unmount E s
               else if is_fat i then do { (_, s) \<leftarrow> unmount E (Some i) s; Some ((), s) }
               else Some ((), s));
            (now, s) \<leftarrow> gettime E s;
            Some ((), s\<lparr>mount_timer := now + secs_to_ticks E 30\<rparr>)
          })"

definition check_mount_timer :: "env \<Rightarrow> u64 \<Rightarrow> 'z fs_st_scheme \<Rightarrow> (unit \<times> 'z fs_st_scheme) option" where
  "check_mount_timer E now s =
     (if mount_timer s \<noteq> 0 \<and> now > mount_timer s then process_remount_event E s else Some ((), s))"

definition IPC_OK :: int where "IPC_OK = 0"

definition initialise_fs :: "env \<Rightarrow> 'z base_scheme \<Rightarrow> (unit \<times> 'z base_scheme) option" where
  "initialise_fs E s = do {
     (_, s) \<leftarrow> ext E (CDev (Lib_Mount NANDIMG)) s;
     (_, s) \<leftarrow> ext E (CDev (Lib_Mount OTP)) s;
     (_, s) \<leftarrow> ext E (CDev (Lib_Mount SEEPROM)) s;
     (_, s) \<leftarrow> ext E (CDev ISFS_SU) s;
     (r, s) \<leftarrow> ext E (CDev ISFS_Initialize) s;
     if ret r = IPC_OK then do { (_, s) \<leftarrow> ext E (CDev (Lib_Mount ISFS)) s; Some ((), s) }
     else Some ((), s)
   }"

section \<open>Polling ends and keeps the dialogue\<close>

lemma update_inserted_returns:
  assumes "fs_wf s" "is_dvd i \<or> disc (partition i s) \<noteq> None"
  shows "returns (update_inserted E i a s) (\<lambda>_ s'. drive_frame s s')"
  using assms(2) unfolding update_inserted_def
  by (auto intro!: returns_mono[OF ext_quiet] intro: drive_frame_trans dest!: quiet_drive)

lemma was_inserted_or_removed_returns:
  assumes "fresh E" "fs_wf s"
  shows "returns (was_inserted_or_removed E i s) (\<lambda>b s'. drive_frame s s')"
proof -
  have upd: "returns (update_inserted E i a s1) (\<lambda>_ s'. drive_frame s s')"
    if "quiet s s1" "is_dvd i \<or> disc (partition i s) \<noteq> None" for a s1
    using that quiet_partition[OF that(1), of i] fs_wf_frame[OF assms(2) drive_fs_frame[OF quiet_drive[OF that(1)]]]
    by (intro returns_mono[OF update_inserted_returns]) (auto intro: drive_frame_trans dest: quiet_drive)
  show ?thesis
    unfolding was_inserted_or_removed_def
    by (auto intro!: returns_mono[OF mounted_quiet[OF assms(1)]] returns_mono[OF upd])
qed

lemma device_inserted_returns:
  assumes "devices_ok E" "fs_wf s"
  shows "returns (device_inserted E i s) (\<lambda>_ s'. drive_frame s s')"
  unfolding device_inserted_def
  by (auto intro!: returns_mono[OF ext_quiet] returns_mono[OF mount_returns[OF assms]]
      dest!: quiet_drive)

lemma check_device_returns:
  assumes "devices_ok E" "fs_wf s"
  shows "returns (check_device E i s) (\<lambda>_ s'. drive_frame s s')"
proof -
  note fr = devices_ok_fresh[OF assms(1)]
  have wf: "fs_wf s1" if "drive_frame s s1" for s1
    using assms(2) that fs_wf_frame drive_fs_frame by blast
  have ins: "returns (device_inserted E j s1) (\<lambda>_ s'. drive_frame s s')" if "drive_frame s s1" for s1 j
    by (rule returns_mono[OF device_inserted_returns[OF assms(1) wf[OF that]]])
       (use that in \<open>blast intro: drive_frame_trans\<close>)
  have m: "returns (mounted E j s1) (\<lambda>b s'. drive_frame s s')" if "drive_frame s s1" for s1 j
    by (rule returns_mono[OF mounted_quiet[OF fr]])
       (use that in \<open>blast intro: drive_frame_trans dest: quiet_drive\<close>)
  have un: "returns (unmount E (Some j) s1) (\<lambda>b s'. drive_frame s s')" if "drive_frame s s1" for s1 j
    by (rule returns_mono[OF unmount_returns[OF fr]]) (use that in \<open>blast intro: drive_frame_trans\<close>)
  show ?thesis
    unfolding check_device_def
    by (auto intro!: returns_mono[OF was_inserted_or_removed_returns[OF fr assms(2)]]
        returns_mono[OF ins] returns_mono[OF m] returns_mono[OF un])
qed

lemma check_devices_returns:
  assumes "devices_ok E" "fs_wf s"
  shows "returns (check_devices E is s) (\<lambda>_ s'. drive_frame s s')"
  using assms(2)
proof (induction "is" arbitrary: s)
  case (Cons i "is")
  show ?case
    apply (simp only: check_devices.simps vc_simps)
    apply (rule returns_mono[OF check_device_returns[OF assms(1) Cons.prems]])
    apply (rule returns_mono[OF Cons.IH])
     apply (auto intro: drive_frame_trans fs_wf_frame[OF Cons.prems] drive_fs_frame)
    done
qed simp

text \<open>What polling leaves alone: the dialogue, not the poll timer.\<close>

definition dialogue_same :: "'z fs_st_scheme \<Rightarrow> 'z fs_st_scheme \<Rightarrow> bool" where
  "dialogue_same s s' \<longleftrightarrow> fs_frame s s' \<and> mountstate s' = mountstate s \<and>
     mount_partition s' = mount_partition s \<and> mount_timer s' = mount_timer s"

lemma drive_dialogue: "drive_frame s s' \<Longrightarrow> dialogue_same s s'"
  by (simp add: drive_frame_def dialogue_same_def)

lemma fs_frame_updates [simp]:
  "fs_frame s (s'\<lparr>device_check_timer := t\<rparr>) = fs_frame s s'"
  "fs_frame s (s'\<lparr>mount_timer := t\<rparr>) = fs_frame s s'"
  "fs_frame s (s'\<lparr>mountstate := m\<rparr>) = fs_frame s s'"
  "fs_frame s (s'\<lparr>mount_partition := p\<rparr>) = fs_frame s s'"
  "fs_frame (s\<lparr>mount_timer := t\<rparr>) s' = fs_frame s s'"
  "fs_frame (s\<lparr>mountstate := m\<rparr>) s' = fs_frame s s'"
  "fs_frame (s\<lparr>mount_partition := p\<rparr>) s' = fs_frame s s'"
  by (simp_all add: fs_frame_def logs_def)

lemma gettime_quiet: "returns (gettime E s) (\<lambda>t s'. quiet s s')"
  by (rule returns_mono[OF gettime_law]) simp

lemma check_removable_devices_returns:
  assumes "devices_ok E" "fs_wf s"
  shows "returns (check_removable_devices E now s) (\<lambda>_ s'. dialogue_same s s')"
proof -
  have "dialogue_same s (s2\<lparr>device_check_timer := t\<rparr>)" if "drive_frame s s1" "quiet s1 s2" for s1 s2 t
    using drive_frame_trans[OF that(1) quiet_drive[OF that(2)]]
    by (simp add: dialogue_same_def drive_frame_def)
  then show ?thesis
    unfolding check_removable_devices_def
    by (auto intro!: returns_mono[OF check_devices_returns[OF assms]] returns_mono[OF gettime_quiet]
        intro: drive_dialogue)
qed

section \<open>The dialogue as a state machine\<close>

definition dialogue_ok :: "'z fs_st_scheme \<Rightarrow> bool" where
  "dialogue_ok s \<longleftrightarrow> fs_wf s \<and>
     (case mountstate s of
        MOUNTSTATE_START \<Rightarrow> mount_timer s = 0
      | MOUNTSTATE_SELECTDEVICE \<Rightarrow> mount_timer s = 0 \<and> mount_partition s = None
      | MOUNTSTATE_WAITFORDEVICE \<Rightarrow> (\<exists>i. mount_partition s = Some i \<and> (is_fat i \<or> i = PA_DVD)))"

lemma dialogue_ok_same: "dialogue_ok s \<Longrightarrow> dialogue_same s s' \<Longrightarrow> dialogue_ok s'"
  by (auto simp: dialogue_ok_def dialogue_same_def fs_wf_frame split: mountstate_t.splits)

lemma dialogue_ok_wf: "dialogue_ok s \<Longrightarrow> fs_wf s"
  by (simp add: dialogue_ok_def)

lemma pressed_device_cases: "pressed_device E m = Some i \<Longrightarrow> is_fat i \<or> i = PA_DVD"
  by (auto simp: pressed_device_def is_fat_def is_gecko_def split: if_splits)

lemma process_remount_event_returns:
  assumes "devices_ok E" "dialogue_ok s"
  shows "returns (process_remount_event E s) (\<lambda>_ s'. fs_frame s s' \<and> dialogue_ok s' \<and>
    mount_partition s' = None \<and> mount_timer s' = 0 \<and>
    mountstate s' = (if mountstate s = MOUNTSTATE_WAITFORDEVICE then MOUNTSTATE_START
      else MOUNTSTATE_SELECTDEVICE))"
proof -
  note wf = dialogue_ok_wf[OF assms(2)]
  let ?s = "s\<lparr>mount_timer := 0, mountstate := MOUNTSTATE_START\<rparr>"
  have wf': "fs_wf ?s" using wf by (simp add: fs_wf_def)
  have fin: "fs_frame s (s1\<lparr>mount_partition := None\<rparr>) \<and> dialogue_ok (s1\<lparr>mount_partition := None\<rparr>) \<and>
      mount_timer s1 = 0 \<and> mountstate s1 = MOUNTSTATE_START" if "drive_frame ?s s1" for s1
  proof -
    have "fs_frame s s1" using drive_fs_frame[OF that] by simp
    moreover have "fs_wf s1" using wf' drive_fs_frame[OF that] by (rule fs_wf_frame)
    ultimately show ?thesis using that by (simp add: dialogue_ok_def drive_frame_def fs_wf_def)
  qed
  have dvd: "returns (ext E (CDev DI_Mount) (set_dvd_mountWait True ?s)) (\<lambda>_ s'. drive_frame ?s s')"
    by (auto intro!: returns_mono[OF ext_quiet] dest!: quiet_drive)
  have wait: "mountstate s = MOUNTSTATE_WAITFORDEVICE"
    if "mountstate s \<noteq> MOUNTSTATE_START" "mountstate s \<noteq> MOUNTSTATE_SELECTDEVICE"
    using that by (cases "mountstate s") auto
  have start: ?thesis if "mountstate s = MOUNTSTATE_START \<or> mountstate s = MOUNTSTATE_SELECTDEVICE"
    using that assms(2) by (auto simp: process_remount_event_def dialogue_ok_def fs_wf_def)
  have go: "returns (case mount_partition ?s of
            Some i \<Rightarrow>
              if is_dvd i then do { (_, s) \<leftarrow> ext E (CDev DI_Mount) (set_dvd_mountWait True ?s); Some ((), s) }
              else do { (_, s) \<leftarrow> mount E (Some i) ?s; Some ((), s) }
          | None \<Rightarrow> do { (_, s) \<leftarrow> mount E None ?s; Some ((), s) }) (\<lambda>_ s'. drive_frame ?s s')"
    by (auto split: option.splits intro!: returns_mono[OF mount_returns[OF assms(1) wf']] returns_mono[OF dvd])
  show ?thesis
  proof (cases "mountstate s = MOUNTSTATE_START \<or> mountstate s = MOUNTSTATE_SELECTDEVICE")
    case False
    have w: "mountstate s = MOUNTSTATE_WAITFORDEVICE" using False wait by blast
    show ?thesis
      unfolding process_remount_event_def Let_def
      apply (simp only: False if_False returns_bind prod.case returns_simps)
      apply (rule returns_mono[OF go])
      apply (auto simp: w dest: fin)
      done
  qed (rule start)
qed

lemma process_device_select_event_returns:
  assumes "devices_ok E" "dialogue_ok s"
  shows "returns (process_device_select_event E pressed s) (\<lambda>_ s'. fs_frame s s' \<and> dialogue_ok s')"
proof (cases "mountstate s = MOUNTSTATE_SELECTDEVICE")
  case sel: True
  note fr = devices_ok_fresh[OF assms(1)]
  show ?thesis
  proof (cases "pressed_device E pressed")
    case None
    then show ?thesis using sel assms(2)
      by (simp add: process_device_select_event_def dialogue_ok_def)
  next
    case (Some i)
    let ?s = "s\<lparr>mount_partition := Some i, mountstate := MOUNTSTATE_WAITFORDEVICE\<rparr>"
    have i: "is_fat i \<or> i = PA_DVD" by (rule pressed_device_cases[OF Some])
    have un: "returns (if is_dvd i then dvd_unmount E ?s
        else if is_fat i then do { (_, s) \<leftarrow> unmount E (Some i) ?s; Some ((), s) }
        else Some ((), ?s)) (\<lambda>_ s'. drive_frame ?s s')"
      by (auto intro!: returns_mono[OF dvd_unmount_returns[OF fr]] returns_mono[OF unmount_returns[OF fr]])
    have fin: "fs_frame s (s2\<lparr>mount_timer := t\<rparr>) \<and> dialogue_ok (s2\<lparr>mount_timer := t\<rparr>)"
      if "drive_frame ?s s1" "quiet s1 s2" for s1 s2 t
    proof -
      have f: "drive_frame ?s s2" using that by (blast intro: drive_frame_trans quiet_drive)
      have "fs_frame s s2" using drive_fs_frame[OF f] by simp
      moreover have "fs_wf s2" using dialogue_ok_wf[OF assms(2)] \<open>fs_frame s s2\<close> by (rule fs_wf_frame)
      ultimately show ?thesis using f i by (simp add: dialogue_ok_def drive_frame_def fs_wf_def)
    qed
    have busy: "fs_frame s (?s\<lparr>mountstate := MOUNTSTATE_START\<rparr>) \<and> dialogue_ok (?s\<lparr>mountstate := MOUNTSTATE_START\<rparr>)"
      using assms(2) sel by (simp add: dialogue_ok_def fs_wf_def)
    have eq: "process_device_select_event E pressed s =
        (if is_dvd i \<and> dvd_mountWait s then Some ((), ?s\<lparr>mountstate := MOUNTSTATE_START\<rparr>)
         else do {
           (_, s) \<leftarrow> (if is_dvd i then dvd_unmount E ?s
             else if is_fat i then do { (_, s) \<leftarrow> unmount E (Some i) ?s; Some ((), s) }
             else Some ((), ?s));
           (now, s) \<leftarrow> gettime E s;
           Some ((), s\<lparr>mount_timer := now + secs_to_ticks E 30\<rparr>)
         })"
      using sel Some by (simp add: process_device_select_event_def Let_def)
    show ?thesis
      unfolding eq
      apply (intro returns_ifI)
       apply (simp only: returns_simps busy simp_thms)
      apply (simp only: returns_bind prod.case)
      apply (rule returns_mono[OF un])
      apply (rule returns_mono[OF gettime_quiet])
      apply (simp only: returns_simps, erule (1) fin)
      done
  qed
qed (use assms(2) in \<open>simp add: process_device_select_event_def\<close>)

lemma check_mount_timer_returns:
  assumes "devices_ok E" "dialogue_ok s"
  shows "returns (check_mount_timer E now s) (\<lambda>_ s'. fs_frame s s' \<and> dialogue_ok s')"
  unfolding check_mount_timer_def using assms(2)
  by (auto intro: returns_mono[OF process_remount_event_returns[OF assms]])

text \<open>The operations that the main loop and the clients perform on this state.\<close>

inductive fs_step :: "env \<Rightarrow> 'z fs_st_scheme \<Rightarrow> 'z fs_st_scheme \<Rightarrow> bool" for E where
  remount: "process_remount_event E s = Some (u, s') \<Longrightarrow> fs_step E s s'"
| select: "process_device_select_event E m s = Some (u, s') \<Longrightarrow> fs_step E s s'"
| timer: "check_mount_timer E now s = Some (u, s') \<Longrightarrow> fs_step E s s'"
| poll: "check_removable_devices E now s = Some (u, s') \<Longrightarrow> fs_step E s s'"
| motor: "check_dvd_motor_timeout E now s = Some (u, s') \<Longrightarrow> fs_step E s s'"
| dvd: "check_dvd_mount E s = Some (u, s') \<Longrightarrow> fs_step E s s'"
| mount: "mount_virtual E dir s = Some (b, s') \<Longrightarrow> fs_step E s s'"
| unmount: "unmount_virtual E dir s = Some (b, s') \<Longrightarrow> fs_step E s s'"
| eject: "dvd_eject E s = Some (r, s') \<Longrightarrow> fs_step E s s'"

inductive fs_reach :: "env \<Rightarrow> 'z fs_st_scheme \<Rightarrow> 'z fs_st_scheme \<Rightarrow> bool" for E where
  start: "fs_reach E s s"
| step: "fs_reach E s s' \<Longrightarrow> fs_step E s' s'' \<Longrightarrow> fs_reach E s s''"

inductive_cases fs_stepE: "fs_step E s s'"

lemma returns_SomeD: "returns m Q \<Longrightarrow> m = Some (r, s) \<Longrightarrow> Q r s"
  by (simp add: returns_def)

lemma fs_step_dialogue:
  assumes "devices_ok E" "dialogue_ok s" "fs_step E s s'"
  shows "fs_frame s s' \<and> dialogue_ok s'"
proof -
  note fr = devices_ok_fresh[OF assms(1)] and wf = dialogue_ok_wf[OF assms(2)]
  have d: "fs_frame s s' \<and> dialogue_ok s'" if "dialogue_same s s'"
    using that assms(2) by (auto intro: dialogue_ok_same simp: dialogue_same_def)
  note acts = returns_SomeD[OF process_remount_event_returns[OF assms(1,2)]]
    returns_SomeD[OF process_device_select_event_returns[OF assms(1,2)]]
    returns_SomeD[OF check_mount_timer_returns[OF assms(1,2)]]
  have drive: "fs_frame s s' \<and> dialogue_ok s'" if "drive_frame s s'" using that by (intro d drive_dialogue)
  note same = returns_SomeD[OF check_removable_devices_returns[OF assms(1) wf]]
    returns_SomeD[OF check_dvd_motor_timeout_returns[OF fr]] returns_SomeD[OF check_dvd_mount_returns]
    returns_SomeD[OF mount_returns[OF assms(1) wf]] returns_SomeD[OF unmount_returns[OF fr]] returns_SomeD[OF dvd_eject_returns[OF fr]]
  show ?thesis
    apply (rule fs_stepE[OF assms(3)])
    apply ((unfold mount_virtual_def unmount_virtual_def)?, (drule acts, blast | drule same, (elim conjE)?, (erule d | erule drive)))+
    done
qed

lemma fs_reach_dialogue:
  assumes "fs_reach E s s'" "devices_ok E" "dialogue_ok s"
  shows "fs_frame s s' \<and> dialogue_ok s'"
  using assms by (induction rule: fs_reach.induct) (auto dest: fs_step_dialogue intro: fs_frame_trans)

end
