(* ===== verification/Path.thy ===== *)
theory Path
  imports Env
begin

text \<open>
  \<open>virtual_abspath\<close> of \<open>source/vrt.c\<close>, the automaton that makes the client's path absolute and
  resolves \<open>.\<close>, \<open>..\<close> and repeated slashes, and \<open>dirname\<close> and \<open>basename\<close> of \<open>source/fs.c\<close>.
  The reference definition is \<open>resolve\<close> on the path's components; \<open>normalise_resolve\<close> is the
  equivalence, and the locale \<open>path_normaliser\<close> is the contract the rest of the server needs.
\<close>

section \<open>The automaton\<close>

text \<open>
  One turn of the loop. \<open>st\<close> is the C variable \<open>state\<close> (0 start, 1 slash, 2 dot, 3 dotdot),
  \<open>cu\<close> the index of \<open>curr_dir\<close> in \<open>normalised_path\<close>, and \<open>n\<close> that string. Storing NUL at an
  index cuts the string there. \<open>norm_parent\<close> is the dotdot case at the end of a component,
  \<open>norm_switch\<close> the \<open>switch\<close>, \<open>norm_body\<close> a whole turn for a token that is not NUL;
  \<open>norm_loop\<close> consumes the path,
  the empty rest standing for the terminating NUL.
\<close>

definition norm_parent :: "nat \<Rightarrow> string \<Rightarrow> nat \<times> nat \<times> string" where
  "norm_parent cu n =
     (let t = take cu n in
      case strrchr t (CHR ''/'') of
        Some p \<Rightarrow> (1, p, take (Suc p) t)
      | None \<Rightarrow> (1, cu, take (Suc cu) (t @ ''/'')))"

definition norm_switch :: "char \<Rightarrow> nat \<times> nat \<times> string \<Rightarrow> nat \<times> nat \<times> string" where
  "norm_switch tok S = (case S of (st, cu, n) \<Rightarrow>
     if st = 0 then
       (if tok = CHR ''/'' then (1, length n, n @ [tok]) else (st, cu, n))
     else if st = 1 then
       (if tok = CHR ''.'' then (2, cu, n)
        else if tok \<noteq> CHR ''/'' then (0, cu, n) else (st, cu, n))
     else if st = 2 then
       (if tok = CHR ''/'' \<or> tok = NUL then (1, cu, take (Suc cu) n)
        else if tok = CHR ''.'' then (3, cu, n) else (0, cu, n))
     else
       (if tok = CHR ''/'' \<or> tok = NUL then
          norm_parent cu n
        else (0, cu, n)))"

definition norm_body :: "char \<Rightarrow> nat \<times> nat \<times> string \<Rightarrow> nat \<times> nat \<times> string" where
  "norm_body tok S = (case norm_switch tok S of (st, cu, n) \<Rightarrow>
     (st, cu, if st = 0 \<or> tok \<noteq> CHR ''/'' then n @ [tok] else n))"

fun norm_loop :: "string \<Rightarrow> nat \<times> nat \<times> string \<Rightarrow> string" where
  "norm_loop [] S = snd (snd (norm_switch NUL S))"
| "norm_loop (tok # rest) S = norm_loop rest (norm_body tok S)"

text \<open>The loop that removes trailing slashes.\<close>

fun strip_slashes :: "string \<Rightarrow> string" where
  "strip_slashes n =
     (if 1 < length n \<and> last n = CHR ''/'' then strip_slashes (butlast n) else n)"

declare strip_slashes.simps [simp del]

definition normalise :: "string \<Rightarrow> string" where
  "normalise path = strip_slashes (norm_loop path (0, 0, []))"

definition virtual_abspath ::
  "env \<Rightarrow> string \<Rightarrow> string \<Rightarrow> 'z base_scheme \<Rightarrow> (cstr \<times> 'z base_scheme) option" where
  "virtual_abspath E virtual_cwd virtual_path s =
     (if virtual_path \<noteq> [] \<and> hd virtual_path = CHR ''/'' then do {
        (q, s) \<leftarrow> malloc E (length virtual_path + 1) s;
        Some (if q = 0 then Null else Heap q (normalise virtual_path), s)
      } else
        let path_size = length virtual_cwd + length virtual_path + 1 in
        if path_size > MAXPATHLEN E then Some (Null, s)
        else do {
          (p, s) \<leftarrow> malloc E path_size s;
          if p = 0 then Some (Null, s)
          else do {
            let path = virtual_cwd @ virtual_path;
            (q, s) \<leftarrow> malloc E (length path + 1) s;
            let res = (if q = 0 then Null else Heap q (normalise path));
            (_, s) \<leftarrow> free E p s;
            Some (res, s)
          }
        })"

section \<open>The reference: resolving components\<close>

fun components :: "string \<Rightarrow> string list" where
  "components [] = [[]]"
| "components (c # cs) =
     (if c = CHR ''/'' then [] # components cs
      else (case components cs of [] \<Rightarrow> [[c]] | w # ws \<Rightarrow> (c # w) # ws))"

fun resolve :: "string list \<Rightarrow> string list \<Rightarrow> string list" where
  "resolve ds [] = ds"
| "resolve ds (c # cs) =
     (if c = [] \<or> c = ''.'' then resolve ds cs
      else if c = ''..'' then resolve (butlast ds) cs
      else resolve (ds @ [c]) cs)"

definition good_component :: "string \<Rightarrow> bool" where
  "good_component c \<longleftrightarrow> c \<noteq> [] \<and> c \<noteq> ''.'' \<and> c \<noteq> ''..'' \<and> CHR ''/'' \<notin> set c"

text \<open>\<open>dirs ds\<close> is the form with a trailing slash, which a client's \<open>cwd\<close> has; \<open>render ds\<close>
  the form without.\<close>

definition dirs :: "string list \<Rightarrow> string" where
  "dirs ds = ''/'' @ concat (map (\<lambda>d. d @ ''/'') ds)"

definition render :: "string list \<Rightarrow> string" where
  "render ds = (if ds = [] then ''/'' else concat (map (\<lambda>d. ''/'' @ d) ds))"

definition canonical :: "string \<Rightarrow> bool" where
  "canonical p \<longleftrightarrow> (\<exists>ds. list_all good_component ds \<and> p = render ds)"

definition cwd_form :: "string \<Rightarrow> bool" where
  "cwd_form p \<longleftrightarrow> (\<exists>ds. list_all good_component ds \<and> p = dirs ds)"

lemma components_not_Nil [simp]: "components p \<noteq> []"
  by (induction p) (auto split: list.splits)

lemma components_no_slash: "w \<in> set (components p) \<Longrightarrow> CHR ''/'' \<notin> set w"
  by (induction p arbitrary: w) (fastforce split: list.splits if_splits)+

lemma components_word: "CHR ''/'' \<notin> set w \<Longrightarrow> components w = [w]"
  by (induction w) auto

lemma components_append_slash:
  "CHR ''/'' \<notin> set w \<Longrightarrow> components (w @ CHR ''/'' # p) = w # components p"
  by (induction w) auto

lemma dirs_Nil [simp]: "dirs [] = ''/''"
  by (simp add: dirs_def)

lemma dirs_snoc [simp]: "dirs (ds @ [d]) = dirs ds @ d @ ''/''"
  by (simp add: dirs_def)

lemma dirs_not_Nil [simp]: "dirs ds \<noteq> []"
  by (simp add: dirs_def)

lemma length_dirs_Suc [simp]: "Suc (length (dirs ds) - Suc 0) = length (dirs ds)"
  by (cases "dirs ds") simp_all

lemma dirs_ends: "\<exists>b. dirs ds = b @ ''/''"
  by (cases ds rule: rev_cases) auto

lemma dirs_render: "dirs ds = (if ds = [] then ''/'' else render ds @ ''/'')"
  by (induction ds rule: rev_induct) (auto simp: render_def)

lemma render_snoc: "render (ds @ [d]) = dirs ds @ d"
  by (induction ds rule: rev_induct) (auto simp: render_def)

lemma render_singleton: "render [d] = ''/'' @ d"
  by (simp add: render_def)

lemma resolve_good:
  "list_all good_component ds \<Longrightarrow> (\<And>w. w \<in> set ws \<Longrightarrow> CHR ''/'' \<notin> set w) \<Longrightarrow>
   list_all good_component (resolve ds ws)"
proof (induction ds ws rule: resolve.induct)
  case (2 ds c cs)
  have "list_all good_component (butlast ds)"
    using "2.prems"(1) by (auto simp: list_all_iff dest: in_set_butlastD)
  with 2 show ?case by (simp add: good_component_def[of c])
qed simp

lemma resolve_good_id: "list_all good_component ws \<Longrightarrow> resolve ds ws = ds @ ws"
  by (induction ws arbitrary: ds) (auto simp: good_component_def)

section \<open>The automaton computes the reference\<close>

text \<open>
  The automaton after a prefix of an absolute path: \<open>ds\<close> are the directories resolved so far
  and \<open>w\<close> the word since the last slash.
\<close>

definition word_state :: "string \<Rightarrow> nat" where
  "word_state w = (if w = [] then 1 else if w = ''.'' then 2 else if w = ''..'' then 3 else 0)"

definition norm_rep :: "string list \<Rightarrow> string \<Rightarrow> nat \<times> nat \<times> string" where
  "norm_rep ds w = (word_state w, length (dirs ds) - 1, dirs ds @ w)"

lemma strip_dirs [simp]:
  assumes "list_all good_component ds"
  shows "strip_slashes (dirs ds) = render ds"
proof (cases ds rule: rev_cases)
  case Nil
  then show ?thesis by (simp add: strip_slashes.simps render_def)
next
  case (snoc ds' d)
  have d: "d \<noteq> []" "CHR ''/'' \<notin> set d" using assms snoc by (auto simp: good_component_def)
  then have "last d \<noteq> CHR ''/''" by (metis last_in_set)
  with d have "strip_slashes (dirs ds' @ d) = dirs ds' @ d"
    by (subst strip_slashes.simps) simp
  moreover have "strip_slashes (dirs ds) = strip_slashes (dirs ds' @ d)"
    using d snoc by (subst strip_slashes.simps) (simp add: butlast_append)
  ultimately show ?thesis using snoc by (simp add: render_snoc)
qed

lemma strip_word:
  assumes "w \<noteq> []" "CHR ''/'' \<notin> set w"
  shows "strip_slashes (dirs ds @ w) = dirs ds @ w"
proof -
  have "last w \<noteq> CHR ''/''" using assms by (metis last_in_set)
  with assms show ?thesis by (subst strip_slashes.simps) simp
qed

lemma norm_parent_dirs:
  assumes "list_all good_component ds"
  shows "norm_parent (length (dirs ds) - Suc 0) (dirs ds @ w) = norm_rep (butlast ds) []"
proof (cases ds rule: rev_cases)
  case Nil
  then show ?thesis by (simp add: norm_parent_def norm_rep_def word_state_def)
next
  case (snoc ds' d)
  have d: "CHR ''/'' \<notin> set d" using assms snoc by (auto simp: good_component_def)
  have t: "take (length (dirs ds) - Suc 0) (dirs ds @ w) = dirs ds' @ d"
    using snoc by simp
  obtain b where b: "dirs ds' = b @ ''/''" using dirs_ends by blast
  have "strrchr (dirs ds' @ d) (CHR ''/'') = Some (length b)"
    using d by (simp add: b strrchr_append strrchr_None[THEN iffD2])
  then show ?thesis using snoc by (simp add: norm_parent_def t norm_rep_def word_state_def b)
qed

lemma norm_switch_rep:
  assumes "list_all good_component ds" "CHR ''/'' \<notin> set w" "tok = CHR ''/'' \<or> tok = NUL" "w \<noteq> []"
  shows "norm_switch tok (norm_rep ds w) =
     (if w = ''.'' then norm_rep ds []
      else if w = ''..'' then norm_rep (butlast ds) []
      else if tok = NUL then norm_rep ds w else norm_rep (ds @ [w]) [])"
  using assms norm_parent_dirs[OF assms(1)]
  by (auto simp: norm_switch_def norm_rep_def word_state_def)

lemma norm_loop_rep:
  assumes "list_all good_component ds" "CHR ''/'' \<notin> set w" "NUL \<notin> set cs"
  shows "strip_slashes (norm_loop cs (norm_rep ds w)) = render (resolve ds (components (w @ cs)))"
  using assms
proof (induction cs arbitrary: ds w)
  case Nil
  have bl: "list_all good_component (butlast ds)"
    using Nil.prems(1) by (auto simp: list_all_iff dest: in_set_butlastD)
  show ?case
  proof (cases "w = []")
    case True
    then show ?thesis using Nil.prems
      by (simp add: norm_rep_def norm_switch_def word_state_def)
  next
    case False
    then show ?thesis using Nil.prems bl
      by (auto simp: norm_switch_rep components_word)
         (auto simp: norm_rep_def strip_word render_snoc)
  qed
next
  case (Cons c cs)
  have bl: "list_all good_component (butlast ds)"
    using Cons.prems(1) by (auto simp: list_all_iff dest: in_set_butlastD)
  show ?case
  proof (cases "c = CHR ''/''")
    case True
    show ?thesis
    proof (cases "w = []")
      case True
      then have "norm_loop (c # cs) (norm_rep ds w) = norm_loop cs (norm_rep ds [])"
        using \<open>c = CHR ''/''\<close> by (simp add: norm_body_def norm_rep_def norm_switch_def word_state_def)
      then show ?thesis using Cons.IH[of ds "[]"] Cons.prems True \<open>c = CHR ''/''\<close> by simp
    next
      case False
      let ?ds = "if w = ''.'' then ds else if w = ''..'' then butlast ds else ds @ [w]"
      have g: "list_all good_component ?ds"
        using Cons.prems(1,2) bl False by (simp add: good_component_def[of w])
      have "norm_switch c (norm_rep ds w) = norm_rep ?ds []"
        using Cons.prems False True by (simp add: norm_switch_rep)
      then have "norm_loop (c # cs) (norm_rep ds w) = norm_loop cs (norm_rep ?ds [])"
        using True by (simp add: norm_body_def norm_rep_def word_state_def)
      then show ?thesis using Cons.IH[OF g, of "[]"] Cons.prems True False
        by (simp add: components_append_slash)
    qed
  next
    case False
    have "norm_loop (c # cs) (norm_rep ds w) = norm_loop cs (norm_rep ds (w @ [c]))"
      using False Cons.prems
      by (auto simp: norm_body_def norm_rep_def norm_switch_def word_state_def
          append_eq_Cons_conv Cons_eq_append_conv)
    then show ?thesis using Cons.IH[of ds "w @ [c]"] Cons.prems False by simp
  qed
qed

lemma normalise_absolute:
  assumes "NUL \<notin> set p"
  shows "normalise (CHR ''/'' # p) = render (resolve [] (components p))"
proof -
  have "norm_body (CHR ''/'') (0, 0, []) = norm_rep [] []"
    by (simp add: norm_body_def norm_switch_def norm_rep_def word_state_def)
  then show ?thesis using norm_loop_rep[of "[]" "[]" p] assms by (simp add: normalise_def)
qed

lemma canonical_normalise: "NUL \<notin> set p \<Longrightarrow> canonical (normalise (CHR ''/'' # p))"
  unfolding canonical_def normalise_absolute
  by (intro exI[of _ "resolve [] (components p)"]) (auto intro!: resolve_good dest: components_no_slash)

lemma components_dirs:
  "list_all good_component ds \<Longrightarrow> components (tl (dirs ds @ p)) = ds @ components p"
proof (induction ds)
  case (Cons d ds)
  then show ?case by (simp add: dirs_def good_component_def components_append_slash)
qed (simp add: dirs_def)

lemma resolve_append: "resolve ds (ws @ ws') = resolve (resolve ds ws) ws'"
  by (induction ds ws rule: resolve.induct) auto

lemma normalise_dirs:
  assumes "list_all good_component ds" "NUL \<notin> set (dirs ds @ p)"
  shows "normalise (dirs ds @ p) = render (resolve ds (components p))"
proof -
  obtain t where t: "dirs ds @ p = CHR ''/'' # t" by (simp add: dirs_def)
  then have "components t = ds @ components p"
    using components_dirs[OF assms(1), of p] by simp
  then show ?thesis using assms t
    by (simp add: normalise_absolute resolve_append resolve_good_id)
qed

lemma canonical_fixed:
  assumes "canonical p" "NUL \<notin> set p"
  shows "normalise p = p"
proof -
  obtain ds where ds: "list_all good_component ds" "p = render ds"
    using assms(1) by (auto simp: canonical_def)
  show ?thesis
  proof (cases ds rule: rev_cases)
    case Nil
    then show ?thesis using ds normalise_absolute[of "[]"] by (simp add: render_def)
  next
    case (snoc ds' d)
    have d: "good_component d" "list_all good_component ds'" using ds snoc by auto
    then have "components d = [d]" by (simp add: good_component_def components_word)
    moreover have "p = dirs ds' @ d" using ds snoc by (simp add: render_snoc)
    ultimately show ?thesis using d assms(2) normalise_dirs[of ds' d]
      by (simp add: good_component_def render_snoc)
  qed
qed

lemma canonical_absolute: "canonical p \<Longrightarrow> hd p = CHR ''/'' \<and> p \<noteq> []"
proof -
  assume "canonical p"
  then obtain ds where "p = render ds" by (auto simp: canonical_def)
  then show ?thesis by (cases ds) (auto simp: render_def)
qed

lemma components_chars: "w \<in> set (components p) \<Longrightarrow> set w \<subseteq> set p"
  by (induction p arbitrary: w) (fastforce split: list.splits if_splits)+

lemma resolve_subset: "set (resolve ds ws) \<subseteq> set ds \<union> set ws"
proof (induction ds ws rule: resolve.induct)
  case (2 ds c cs)
  then show ?case by (auto dest: in_set_butlastD)
qed simp

lemma render_chars: "(\<And>d. d \<in> set ds \<Longrightarrow> set d \<subseteq> A) \<Longrightarrow> set (render ds) \<subseteq> insert (CHR ''/'') A"
  by (auto simp: render_def)

lemma normalise_chars:
  assumes "NUL \<notin> set p"
  shows "set (normalise (CHR ''/'' # p)) \<subseteq> insert (CHR ''/'') (set p)"
  unfolding normalise_absolute[OF assms]
  by (rule render_chars) (use resolve_subset[of "[]" "components p"] components_chars in auto)

section \<open>The buffer of the automaton\<close>

text \<open>\<open>norm_ok k\<close>: what holds after \<open>k\<close> characters. The result string is never longer than the
  part of the path read, so the block of \<open>strlen(path) + 1\<close> bytes is large enough at all times.\<close>

definition norm_ok :: "nat \<Rightarrow> nat \<times> nat \<times> string \<Rightarrow> bool" where
  "norm_ok k S \<longleftrightarrow> (case S of (st, cu, n) \<Rightarrow> length n \<le> k \<and> (st = 0 \<or> cu < length n))"

lemma norm_parent_ok:
  assumes "cu < length n"
  shows "case norm_parent cu n of (st, cu', n') \<Rightarrow> st = 1 \<and> cu' < length n' \<and> length n' \<le> length n"
  using assms by (auto simp: norm_parent_def Let_def split: option.splits dest!: strrchr_SomeD)

lemma norm_body_ok:
  assumes "norm_ok k S"
  shows "norm_ok (Suc k) (norm_body tok S)"
proof -
  obtain st cu n where S: "S = (st, cu, n)" by (cases S)
  show ?thesis
  proof (cases "st = 0 \<or> st = 1 \<or> st = 2 \<or> tok \<noteq> CHR ''/'' \<and> tok \<noteq> NUL")
    case True
    then show ?thesis using assms by (auto simp: S norm_ok_def norm_body_def norm_switch_def)
  next
    case False
    then show ?thesis using assms norm_parent_ok[of cu n]
      by (auto simp: S norm_ok_def norm_body_def norm_switch_def split: prod.splits)
  qed
qed

lemma norm_prefix_ok: "norm_ok k S \<Longrightarrow> norm_ok (k + length xs) (fold norm_body xs S)"
proof (induction xs arbitrary: k S)
  case (Cons x xs)
  from Cons.IH[OF norm_body_ok[OF Cons.prems, of x]] show ?case by simp
qed simp

lemma norm_loop_fold: "norm_loop path S = snd (snd (norm_switch NUL (fold norm_body path S)))"
  by (induction path arbitrary: S) simp_all

lemma norm_switch_NUL_length:
  "norm_ok k S \<Longrightarrow> length (snd (snd (norm_switch NUL S))) \<le> k"
  using norm_parent_ok[of "fst (snd S)" "snd (snd S)"]
  by (cases S) (auto simp: norm_ok_def norm_switch_def split: prod.splits)

lemma strip_slashes_length: "length (strip_slashes n) \<le> length n"
proof (induction n rule: strip_slashes.induct)
  case (1 n)
  then show ?case by (cases "1 < length n \<and> last n = CHR ''/''") (auto simp: strip_slashes.simps[of n])
qed

lemma normalise_length: "length (normalise path) \<le> length path"
proof -
  have "norm_ok (length path) (fold norm_body path (0, 0, []))"
    using norm_prefix_ok[of 0 "(0, 0, [])" path] by (simp add: norm_ok_def)
  then have "length (norm_loop path (0, 0, [])) \<le> length path"
    unfolding norm_loop_fold by (rule norm_switch_NUL_length)
  then show ?thesis unfolding normalise_def using strip_slashes_length le_trans by blast
qed

section \<open>The contract of the normaliser\<close>

text \<open>
  What \<open>to_real_path\<close> and \<open>vrt_chdir\<close> rely on. Their clients' facts are proved from the laws
  only, and the automaton is an instance.
\<close>

locale path_normaliser =
  fixes norm :: "string \<Rightarrow> string"
  assumes norm_canonical: "NUL \<notin> set p \<Longrightarrow> canonical (norm (CHR ''/'' # p))"
    and norm_fixed: "canonical q \<Longrightarrow> NUL \<notin> set q \<Longrightarrow> norm q = q"
    and norm_chars: "NUL \<notin> set p \<Longrightarrow> set (norm (CHR ''/'' # p)) \<subseteq> insert (CHR ''/'') (set p)"
    and norm_length: "length (norm p) \<le> length p"
begin

lemma norm_idem:
  assumes "NUL \<notin> set p"
  shows "norm (norm (CHR ''/'' # p)) = norm (CHR ''/'' # p)"
  using assms norm_chars[OF assms] by (intro norm_fixed norm_canonical) auto

lemma norm_in_cwd:
  assumes "cwd_form cwd" "NUL \<notin> set cwd" "NUL \<notin> set p"
  shows "canonical (norm (cwd @ p))"
proof -
  obtain t where "cwd = CHR ''/'' # t" using assms(1) by (auto simp: cwd_form_def dirs_def)
  with assms show ?thesis using norm_canonical[of "t @ p"] by simp
qed

lemma cwd_of_norm:
  assumes "canonical q"
  shows "cwd_form (if length q > 1 then q @ ''/'' else q)"
proof -
  obtain ds where ds: "list_all good_component ds" "q = render ds"
    using assms by (auto simp: canonical_def)
  have "(if length q > 1 then q @ ''/'' else q) = dirs ds"
  proof (cases "ds = []")
    case False
    then obtain d ds' where d: "ds = d # ds'" by (cases ds) auto
    then have "d \<noteq> []" using ds by (simp add: good_component_def)
    then have "length q > 1" using ds d by (simp add: render_def)
    with False show ?thesis using ds by (simp add: dirs_render)
  qed (simp add: ds render_def)
  with ds show ?thesis unfolding cwd_form_def by blast
qed

end

interpretation automaton: path_normaliser normalise
  by unfold_locales (auto intro: canonical_normalise canonical_fixed normalise_length
      dest: normalise_chars)

text \<open>The path \<open>virtual_abspath\<close> computes, as a function of the client's directory and argument.\<close>

definition abspath :: "string \<Rightarrow> string \<Rightarrow> string" where
  "abspath cwd p = normalise (if p \<noteq> [] \<and> hd p = CHR ''/'' then p else cwd @ p)"

lemma canonical_abspath:
  assumes "cwd_form cwd" "NUL \<notin> set cwd" "NUL \<notin> set p"
  shows "canonical (abspath cwd p)"
proof (cases "p \<noteq> [] \<and> hd p = CHR ''/''")
  case True
  then obtain t where "p = CHR ''/'' # t" by (cases p) auto
  with assms show ?thesis by (simp add: abspath_def automaton.norm_canonical)
next
  case False
  have "canonical (normalise (cwd @ p))" using assms by (rule automaton.norm_in_cwd)
  with False show ?thesis by (simp only: abspath_def if_False)
qed

lemma abspath_chars:
  assumes "cwd_form cwd" "NUL \<notin> set cwd" "NUL \<notin> set p"
  shows "set (abspath cwd p) \<subseteq> insert (CHR ''/'') (set cwd \<union> set p)"
proof -
  obtain c where "cwd = CHR ''/'' # c" using assms(1) by (auto simp: cwd_form_def dirs_def)
  then show ?thesis using assms normalise_chars[of "c @ p"] normalise_chars[of "tl p"]
    by (cases p) (auto simp: abspath_def)
qed

section \<open>The directory and the last component of a path\<close>

definition dirname :: "env \<Rightarrow> string \<Rightarrow> string" where
  "dirname E path =
     (let result = take (MAXPATHLEN E - 1) path in
      case strrchr result (CHR ''/'') of Some i \<Rightarrow> take i result | None \<Rightarrow> [])"

definition basename :: "string \<Rightarrow> string" where
  "basename path = (case strrchr path (CHR ''/'') of Some i \<Rightarrow> drop (Suc i) path | None \<Rightarrow> path)"

lemma basename_no_slash: "CHR ''/'' \<notin> set (basename path)"
  by (auto simp: basename_def strrchr_None split: option.splits dest!: strrchr_SomeD)

lemma dirname_basename:
  assumes "length path < MAXPATHLEN E" "CHR ''/'' \<in> set path"
  shows "dirname E path @ ''/'' @ basename path = path"
proof -
  obtain i where i: "strrchr path (CHR ''/'') = Some i"
    using assms(2) strrchr_None[of path "CHR ''/''"] by auto
  have "take (MAXPATHLEN E - 1) path = path" using assms(1) by simp
  then show ?thesis using i strrchr_SomeD[OF i]
    by (simp add: dirname_def basename_def Let_def) (metis id_take_nth_drop)
qed

section \<open>Memory of \<open>virtual_abspath\<close>\<close>

lemma virtual_abspath_returns:
  assumes "fresh E"
  shows "returns (virtual_abspath E cwd p s) (\<lambda>r s'. frame mem_only s s' \<and>
    (case r of
       Null \<Rightarrow> held (trace s') = held (trace s)
     | Static _ \<Rightarrow> False
     | Heap a q \<Rightarrow> a \<noteq> 0 \<and> q = abspath cwd p \<and> Mem a \<notin> held (trace s) \<and>
         held (trace s') = insert (Mem a) (held (trace s))))"
proof -
  note m = malloc_returns[OF assms]
  show ?thesis
    unfolding virtual_abspath_def abspath_def
    by (auto simp: Let_def intro!: returns_mono[OF m] returns_mono[OF free_returns]
        split: if_splits intro: frame_trans)
qed

section \<open>Properties\<close>

text \<open>
  C11: the in-place automaton of \<open>virtual_abspath\<close> computes the meaning of a path: in a working
  directory with the components \<open>ds\<close>, an argument names the directory reached by walking its
  components from the root (a leading slash) or from \<open>ds\<close>, where empty components and dots stay
  and two dots go up, not above the root; the result is written without a trailing slash.
\<close>

theorem abspath_resolves:
  assumes "list_all good_component ds" "NUL \<notin> set (dirs ds)" "NUL \<notin> set p"
  shows "abspath (dirs ds) p =
    (if p \<noteq> [] \<and> hd p = CHR ''/'' then render (resolve [] (components (tl p)))
     else render (resolve ds (components p)))"
proof (cases "p \<noteq> [] \<and> hd p = CHR ''/''")
  case True
  with assms show ?thesis by (cases p) (simp_all add: abspath_def normalise_absolute)
next
  case False
  with assms show ?thesis by (simp only: abspath_def if_False) (simp add: normalise_dirs)
qed

lemma abspath_resolves_witness:
  "abspath ''/sd/'' ''a/.././../usb//b/'' = ''/usb/b''"
  using abspath_resolves[of "[''sd'']" "''a/.././../usb//b/''"]
  by (simp add: good_component_def dirs_def render_def)

text \<open>
  C17: what \<open>virtual_abspath\<close> returns is absolute and has no empty, dot or dot-dot component, so a
  client cannot climb out of the virtual root; it contains no character that was in neither
  input, is not longer than the path it was made from, and is a fixed point of the normaliser.
\<close>

theorem abspath_contained:
  assumes "cwd_form cwd" "NUL \<notin> set cwd" "NUL \<notin> set p"
  shows "canonical (abspath cwd p) \<and>
    set (abspath cwd p) \<subseteq> insert (CHR ''/'') (set cwd \<union> set p) \<and>
    length (abspath cwd p) \<le> length cwd + length p \<and>
    normalise (abspath cwd p) = abspath cwd p"
  using canonical_abspath[OF assms] abspath_chars[OF assms] assms
    normalise_length[of p] normalise_length[of "cwd @ p"]
  by (auto simp: abspath_def intro!: canonical_fixed)

lemma abspath_contained_witness:
  "canonical (abspath ''/sd/'' ''../../../x'')"
proof -
  have "cwd_form ''/sd/''"
    by (auto simp: cwd_form_def dirs_def good_component_def intro!: exI[of _ "[''sd'']"])
  from abspath_contained[OF this, of "''../../../x''"] show ?thesis by simp
qed

text \<open>
  C18: \<open>virtual_abspath\<close> returns in every case. It answers NULL and holds no more memory than
  before, or a block of its own with the absolute path; the concatenation it made on the way is
  freed. Besides memory it touches nothing.
\<close>

theorem virtual_abspath_memory:
  assumes "fresh E"
  shows "returns (virtual_abspath E cwd p s) (\<lambda>r s'. frame mem_only s s' \<and>
    (case r of
       Null \<Rightarrow> held (trace s') = held (trace s)
     | Static _ \<Rightarrow> False
     | Heap a q \<Rightarrow> a \<noteq> 0 \<and> q = abspath cwd p \<and> Mem a \<notin> held (trace s) \<and>
         held (trace s') = insert (Mem a) (held (trace s))))"
  using assms by (rule virtual_abspath_returns)

lemma virtual_abspath_memory_witness:
  "returns (virtual_abspath (sample_env unscripted) ''/sd/'' ''../x'' \<lparr>trace = [], errno = 0\<rparr>)
     (\<lambda>r s'. case r of Heap a q \<Rightarrow> q = ''/x'' \<and> held (trace s') = {Mem a}
       | _ \<Rightarrow> held (trace s') = {})"
proof -
  have "abspath ''/sd/'' ''../x'' = ''/x''" by code_simp
  with virtual_abspath_memory[OF sample_unscripted, of "''/sd/''" "''../x''" "\<lparr>trace = [], errno = 0\<rparr>"]
  show ?thesis by (auto elim!: returns_mono split: cstr.splits)
qed

text \<open>
  \<open>dirname\<close> and \<open>basename\<close> take a path apart at its last slash: with a slash between them
  they give the path back, and the base name has no slash.
\<close>

lemma dirname_basename_join:
  assumes "length path < MAXPATHLEN E" "CHR ''/'' \<in> set path"
  shows "dirname E path @ ''/'' @ basename path = path \<and> CHR ''/'' \<notin> set (basename path)"
  using dirname_basename[OF assms] basename_no_slash by simp

end
