(* ===== verification/Vrt.thy ===== *)
theory Vrt
  imports Devices Path
begin

text \<open>
  \<open>source/vrt.c\<close> above the path automaton: the translation of virtual paths to paths of devices and
  the file operations on virtual paths.

  A \<open>DIR_ITER *\<close> is \<open>Real d\<close> when a library returned it and \<open>Fake a\<close> when \<open>vrt_diropen\<close> allocated
  it for the virtual root, whose field \<open>device\<close> is then \<open>VRT_DEVICE_ID\<close> (the devices of the
  libraries have small numbers). The field \<open>dirStruct\<close> of a fake iterator is kept in \<open>viters\<close>.
\<close>

datatype dir_iter = Real int | Fake int

record vrt_st = fs_st +
  viters :: "int \<Rightarrow> nat option"

definition sizeof_DIR_ITER :: nat where "sizeof_DIR_ITER = 8"

definition set_errno :: "int \<Rightarrow> 'z base_scheme \<Rightarrow> 'z base_scheme" where
  "set_errno n s = s\<lparr>errno := n\<rparr>"

definition char_at :: "string \<Rightarrow> nat \<Rightarrow> char" where
  "char_at q n = (if n < length q then q ! n else NUL)"

section \<open>Real paths\<close>

definition alias_matches :: "string \<Rightarrow> string \<Rightarrow> bool" where
  "alias_matches a q \<longleftrightarrow>
     strcaseeq a q \<or> strncaseeq a q (length a) \<and> char_at q (length a) = CHR ''/''"

text \<open>The loop over the table: the prefix of the first match and the rest of the path.\<close>

fun find_prefix :: "virtual_partition list \<Rightarrow> string \<Rightarrow> (string \<times> string) option" where
  "find_prefix [] q = None"
| "find_prefix (v # vs) q =
     (if alias_matches (virtual_alias v) q then
        let rest = drop (length (virtual_alias v)) q in
        Some (real_prefix v, if char_at rest 0 = CHR ''/'' then drop 1 rest else rest)
      else find_prefix vs q)"

definition to_real_path ::
  "env \<Rightarrow> string \<Rightarrow> string \<Rightarrow> 'z fs_st_scheme \<Rightarrow> (cstr \<times> 'z fs_st_scheme) option" where
  "to_real_path E virtual_cwd virtual_path s0 = do {
     let s = set_errno ENOENT s0;
     if CHR '':'' \<in> set virtual_path then Some (Null, s) else do {
       (v, s) \<leftarrow> virtual_abspath E virtual_cwd virtual_path s;
       (case v of
          Heap a q \<Rightarrow>
            if q = ''/'' then do { (_, s) \<leftarrow> free E a s; Some (Static [], s) }
            else (case find_prefix (VIRTUAL_PARTITIONS s) q of
                None \<Rightarrow> do { (_, s) \<leftarrow> free E a (set_errno ENODEV s); Some (Null, s) }
              | Some (pre, rest) \<Rightarrow>
                  if length pre + length rest + 1 > MAXPATHLEN E
                  then do { (_, s) \<leftarrow> free E a s; Some (Null, s) }
                  else do {
                    (path, s) \<leftarrow> malloc E (length pre + length rest + 1) s;
                    (_, s) \<leftarrow> free E a s;
                    Some (if path = 0 then Null else Heap path (pre @ rest), s)
                  })
        | _ \<Rightarrow> Some (Null, s))
     }
   }"

text \<open>
  \<open>with_virtual_path\<close> passes the real path and its further arguments, which are part of \<open>f\<close>, to a
  file function. Its result is the function's answer, or \<open>failed\<close>.
\<close>

definition with_virtual_path ::
  "env \<Rightarrow> string \<Rightarrow> (string \<Rightarrow> file_call) \<Rightarrow> string \<Rightarrow> int \<Rightarrow> 'z fs_st_scheme \<Rightarrow> (reply \<times> 'z fs_st_scheme) option" where
  "with_virtual_path E virtual_cwd f virtual_path failed s = do {
     (path, s) \<leftarrow> to_real_path E virtual_cwd virtual_path s;
     (case path of
        Null \<Rightarrow> Some (ok failed, s)
      | Static q \<Rightarrow> if q = [] then Some (ok failed, s) else None
      | Heap a q \<Rightarrow>
          if q = [] then Some (ok failed, s)
          else do {
            (r, s) \<leftarrow> ext E (CFile (f q)) s;
            (_, s) \<leftarrow> free E a s;
            Some (r, s)
          })
   }"

section \<open>Files\<close>

definition vrt_fopen ::
  "env \<Rightarrow> string \<Rightarrow> string \<Rightarrow> string \<Rightarrow> 'z fs_st_scheme \<Rightarrow> (int \<times> 'z fs_st_scheme) option" where
  "vrt_fopen E cwd path mode s = do {
     (r, s) \<leftarrow> with_virtual_path E cwd (\<lambda>q. Fopen q mode) path 0 s;
     Some (ret r, s)
   }"

definition vrt_stat ::
  "env \<Rightarrow> string \<Rightarrow> string \<Rightarrow> stat \<Rightarrow> 'z fs_st_scheme \<Rightarrow> ((int \<times> stat) \<times> 'z fs_st_scheme) option" where
  "vrt_stat E cwd path st s = do {
     (real_path, s) \<leftarrow> to_real_path E cwd path s;
     (case real_path of
        Null \<Rightarrow> Some ((-1, st), s)
      | Static q \<Rightarrow> Some ((0, st\<lparr>st_mode := S_IFDIR, st_size := 31337\<rparr>), s)
      | Heap a q \<Rightarrow>
          if q = [] then Some ((0, st\<lparr>st_mode := S_IFDIR, st_size := 31337\<rparr>), s)
          else do {
            (_, s) \<leftarrow> free E a s;
            (r, s) \<leftarrow> with_virtual_path E cwd Stat path (-1) s;
            Some ((ret r, if ret r = 0 then stat_out r else st), s)
          })
   }"

text \<open>
  The new directory goes into the array \<open>cwd\<close> of \<open>MAXPATHLEN\<close> characters; a string that does not
  fit with its terminator overflows it.
\<close>

definition vrt_chdir ::
  "env \<Rightarrow> string \<Rightarrow> string \<Rightarrow> 'z fs_st_scheme \<Rightarrow> ((int \<times> string) \<times> 'z fs_st_scheme) option" where
  "vrt_chdir E cwd path s = do {
     ((r, st), s) \<leftarrow> vrt_stat E cwd path (garbage_stat E) s;
     if r \<noteq> 0 then Some ((-1, cwd), s)
     else if st_mode st AND S_IFDIR = 0 then Some ((-1, cwd), set_errno ENOTDIR s)
     else do {
       (abs, s) \<leftarrow> virtual_abspath E cwd path s;
       (case abs of
          Heap a q \<Rightarrow> do {
            let new = (if length q > 1 then q @ ''/'' else q);
            if length new + 1 > MAXPATHLEN E then None
            else do { (_, s) \<leftarrow> free E a s; Some ((0, new), s) }
          }
        | _ \<Rightarrow> Some ((-1, cwd), set_errno ENOMEM s))
     }
   }"

definition vrt_unlink :: "env \<Rightarrow> string \<Rightarrow> string \<Rightarrow> 'z fs_st_scheme \<Rightarrow> (int \<times> 'z fs_st_scheme) option" where
  "vrt_unlink E cwd path s = do {
     (r, s) \<leftarrow> with_virtual_path E cwd Unlink path (-1) s; Some (ret r, s) }"

definition vrt_mkdir ::
  "env \<Rightarrow> string \<Rightarrow> string \<Rightarrow> u32 \<Rightarrow> 'z fs_st_scheme \<Rightarrow> (int \<times> 'z fs_st_scheme) option" where
  "vrt_mkdir E cwd path mode s = do {
     (r, s) \<leftarrow> with_virtual_path E cwd (\<lambda>q. Mkdir q mode) path (-1) s; Some (ret r, s) }"

definition vrt_rename ::
  "env \<Rightarrow> string \<Rightarrow> string \<Rightarrow> string \<Rightarrow> 'z fs_st_scheme \<Rightarrow> (int \<times> 'z fs_st_scheme) option" where
  "vrt_rename E cwd from_path to_path s = do {
     (real_to_path, s) \<leftarrow> to_real_path E cwd to_path s;
     (case real_to_path of
        Heap a q \<Rightarrow>
          if q = [] then Some (-1, s)
          else do {
            (r, s) \<leftarrow> with_virtual_path E cwd (\<lambda>p. Rename p q) from_path (-1) s;
            (_, s) \<leftarrow> free E a s;
            Some (ret r, s)
          }
      | _ \<Rightarrow> Some (-1, s))
   }"

section \<open>Directories\<close>

definition vrt_diropen ::
  "env \<Rightarrow> string \<Rightarrow> string \<Rightarrow> 'z vrt_st_scheme \<Rightarrow> (dir_iter option \<times> 'z vrt_st_scheme) option" where
  "vrt_diropen E cwd path s = do {
     (real_path, s) \<leftarrow> to_real_path E cwd path s;
     let fake_root = do {
       (iter, s) \<leftarrow> malloc E sizeof_DIR_ITER s;
       if iter = 0 then Some (None, s)
       else Some (Some (Fake iter), s\<lparr>viters := (viters s)(iter := Some 0)\<rparr>)
     };
     (case real_path of
        Null \<Rightarrow> Some (None, s)
      | Static q \<Rightarrow> fake_root
      | Heap a q \<Rightarrow>
          if q = [] then fake_root
          else do {
            (_, s) \<leftarrow> free E a s;
            (r, s) \<leftarrow> with_virtual_path E cwd Diropen path 0 s;
            Some (if ret r = 0 then None else Some (Real (ret r)), s)
          })
   }"

text \<open>
  The next mounted partition from index \<open>i\<close> on; \<open>n\<close> partitions are left. The result has the index
  the iterator moves to and the entry found.
\<close>

fun next_mounted ::
  "env \<Rightarrow> nat \<Rightarrow> nat \<Rightarrow> 'z fs_st_scheme \<Rightarrow> ((nat \<times> nat option) \<times> 'z fs_st_scheme) option" where
  "next_mounted E 0 i s = Some ((i, None), s)"
| "next_mounted E (Suc n) i s = do {
     (m, s) \<leftarrow> mounted E i s;
     if m then Some ((Suc i, Some i), s) else next_mounted E n (Suc i) s
   }"

definition vrt_dirnext ::
  "env \<Rightarrow> dir_iter \<Rightarrow> string \<Rightarrow> stat \<Rightarrow> 'z vrt_st_scheme \<Rightarrow> ((int \<times> string \<times> stat) \<times> 'z vrt_st_scheme) option" where
  "vrt_dirnext E iter filename st s = (case iter of
       Fake a \<Rightarrow> (case viters s a of None \<Rightarrow> None | Some i \<Rightarrow> do {
         ((i', found), s) \<leftarrow> next_mounted E (MAX_VIRTUAL_PARTITIONS - i) i s;
         let s = s\<lparr>viters := (viters s)(a := Some i')\<rparr>;
         Some (case found of
             Some k \<Rightarrow> (0, drop 1 (virtual_alias (partition k s)), st\<lparr>st_mode := S_IFDIR, st_size := 0\<rparr>)
           | None \<Rightarrow> (-1, filename, st), s)
       })
     | Real d \<Rightarrow> do {
         (r, s) \<leftarrow> ext_on (Dir d) E (CFile (Dirnext d)) s;
         Some (if ret r = 0 then (0, data r, stat_out r) else (ret r, filename, st), s)
       })"

definition vrt_dirclose :: "env \<Rightarrow> dir_iter \<Rightarrow> 'z vrt_st_scheme \<Rightarrow> (int \<times> 'z vrt_st_scheme) option" where
  "vrt_dirclose E iter s = (case iter of
       Fake a \<Rightarrow> (case viters s a of None \<Rightarrow> None | Some _ \<Rightarrow> do {
         (_, s) \<leftarrow> free E a s;
         Some (0, s\<lparr>viters := (viters s)(a := None)\<rparr>)
       })
     | Real d \<Rightarrow> do { (r, s) \<leftarrow> ext_on (Dir d) E (CFile (Dirclose d)) s; Some (ret r, s) })"

section \<open>Memory and effects of the translation\<close>

lemma set_errno_simps [simp]:
  "trace (set_errno n s) = trace s" "base.more (set_errno n s) = base.more s"
  "frame C (set_errno n s) s' = frame C s s'" "frame C s (set_errno n s') = frame C s s'"
  by (simp_all add: set_errno_def frame_def logs_def)

lemma base_more_partitions: "base.more s' = base.more s \<Longrightarrow> VIRTUAL_PARTITIONS s' = VIRTUAL_PARTITIONS s"
  using base_more_fs by blast

text \<open>The search sees only the fixed parts of the table, so its result is that on the initial table.\<close>

lemma fixed_part_fields [simp]:
  "virtual_alias (fixed_part v) = virtual_alias v" "real_prefix (fixed_part v) = real_prefix v"
  "mount_point (fixed_part v) = mount_point v" "disc (fixed_part v) = disc v"
  by (simp_all add: fixed_part_def)

lemma find_prefix_fixed: "find_prefix (map fixed_part vs) q = find_prefix vs q"
  by (induction vs) (simp_all add: Let_def)

lemma find_prefix_wf: "fs_wf s \<Longrightarrow> find_prefix (VIRTUAL_PARTITIONS s) q = find_prefix initial_partitions q"
  unfolding fs_wf_def by (metis find_prefix_fixed)

lemma find_prefix_SomeD:
  "find_prefix vs q = Some (pre, rest) \<Longrightarrow> \<exists>v \<in> set vs. pre = real_prefix v \<and> alias_matches (virtual_alias v) q \<and>
     rest = (let r = drop (length (virtual_alias v)) q in if char_at r 0 = CHR ''/'' then drop 1 r else r)"
  by (induction vs) (auto simp: Let_def split: if_splits)

lemma initial_prefix: "v \<in> set initial_partitions \<Longrightarrow> real_prefix v = mount_point v @ '':/'' \<and>
    virtual_alias v = ''/'' @ mount_point v \<and> mount_point v \<noteq> [] \<and> CHR ''/'' \<notin> set (mount_point v)"
  by (auto simp: initial_partitions_def partition_entry_def)

lemma prefix_not_Nil: "fs_wf s \<Longrightarrow> find_prefix (VIRTUAL_PARTITIONS s) q = Some (pre, rest) \<Longrightarrow> pre \<noteq> []"
  by (auto simp: find_prefix_wf dest!: find_prefix_SomeD dest: initial_prefix)

text \<open>The real path that a virtual absolute path stands for.\<close>

definition real_of :: "virtual_partition list \<Rightarrow> string \<Rightarrow> string \<Rightarrow> bool" where
  "real_of vs q r \<longleftrightarrow> (\<exists>pre rest. find_prefix vs q = Some (pre, rest) \<and> r = pre @ rest)"

definition real_path_result :: "env \<Rightarrow> string \<Rightarrow> string \<Rightarrow> 'z fs_st_scheme \<Rightarrow> cstr \<Rightarrow> resource set \<Rightarrow> bool" where
  "real_path_result E cwd p s r H \<longleftrightarrow> (case r of
       Null \<Rightarrow> H = held (trace s)
     | Static q \<Rightarrow> q = [] \<and> CHR '':'' \<notin> set p \<and> abspath cwd p = ''/'' \<and> H = held (trace s)
     | Heap a q \<Rightarrow> a \<noteq> 0 \<and> Mem a \<notin> held (trace s) \<and> H = insert (Mem a) (held (trace s)) \<and>
         CHR '':'' \<notin> set p \<and> abspath cwd p \<noteq> ''/'' \<and> q \<noteq> [] \<and> length q < MAXPATHLEN E \<and>
         real_of (VIRTUAL_PARTITIONS s) (abspath cwd p) q)"

lemma to_real_path_returns:
  assumes "fresh E" "fs_wf s"
  shows "returns (to_real_path E cwd p s) (\<lambda>r s'. frame mem_only s s' \<and>
    real_path_result E cwd p s r (held (trace s')))"
proof -
  let ?Q = "\<lambda>r s'. frame mem_only s s' \<and> real_path_result E cwd p s r (held (trace s'))"
  have drop: "returns (free E a s2) (\<lambda>_ s'. frame mem_only s s' \<and> held (trace s') = held (trace s))"
    if "frame mem_only s s2" "a \<noteq> 0" "Mem a \<notin> held (trace s)" "held (trace s2) = insert (Mem a) (held (trace s))" for a s2
    by (rule returns_mono[OF free_returns]) (use that in \<open>auto intro: frame_trans\<close>)
  have build: "returns (malloc E n s2) (\<lambda>b s3. returns (free E a s3) (\<lambda>_ s'. frame mem_only s s' \<and>
      (if b = 0 then held (trace s') = held (trace s)
       else Mem b \<notin> held (trace s) \<and> held (trace s') = insert (Mem b) (held (trace s)))))"
    if "frame mem_only s s2" "a \<noteq> 0" "Mem a \<notin> held (trace s)" "held (trace s2) = insert (Mem a) (held (trace s))" for a n s2
    by (rule returns_mono[OF malloc_returns[OF assms(1)]], rule returns_mono[OF free_returns])
       (use that in \<open>auto intro: frame_trans split: if_splits\<close>)
  show ?thesis
  proof (cases "CHR '':'' \<in> set p")
    case True
    then show ?thesis by (simp add: to_real_path_def real_path_result_def)
  next
    case False
    show ?thesis
      unfolding to_real_path_def Let_def
      apply (simp only: False if_False returns_bind prod.case)
      apply (rule returns_mono[OF virtual_abspath_returns[OF assms(1)]], elim conjE)
      subgoal for v s1
      proof (cases v)
        case (Heap a q)
        assume fr: "frame mem_only (set_errno ENOENT s) s1"
          and h: "case v of Null \<Rightarrow> held (trace s1) = held (trace (set_errno ENOENT s)) | Static x \<Rightarrow> False
            | Heap a q \<Rightarrow> a \<noteq> 0 \<and> q = abspath cwd p \<and> Mem a \<notin> held (trace (set_errno ENOENT s)) \<and>
                held (trace s1) = insert (Mem a) (held (trace (set_errno ENOENT s)))"
        then have fr': "frame mem_only s s1" and a: "a \<noteq> 0" "Mem a \<notin> held (trace s)"
          "held (trace s1) = insert (Mem a) (held (trace s))" and q: "q = abspath cwd p"
          using Heap by simp_all
        have vp: "VIRTUAL_PARTITIONS s1 = VIRTUAL_PARTITIONS s"
          by (rule base_more_partitions[OF frame_more[OF fr']])
        have fin: "?Q (if b = 0 then Null else Heap b (pre @ rest)) s'"
          if "find_prefix (VIRTUAL_PARTITIONS s1) q = Some (pre, rest)" "q \<noteq> ''/''"
            "\<not> length pre + length rest + 1 > MAXPATHLEN E"
            "frame mem_only s s' \<and> (if b = 0 then held (trace s') = held (trace s)
               else Mem b \<notin> held (trace s) \<and> held (trace s') = insert (Mem b) (held (trace s)))"
          for b s' pre rest
          using that False q vp prefix_not_Nil[OF assms(2)] by (auto simp: real_path_result_def real_of_def)
        note drop' = drop[OF fr' a] drop[of "set_errno ENODEV s1", simplified, OF fr' a]
        show ?thesis
          unfolding Heap cstr.case
          using fin False q
          by (auto split: option.splits intro!: returns_mono[OF drop'(1)] returns_mono[OF drop'(2)]
              returns_mono[OF build[OF fr' a]] elim!: returns_mono simp: real_path_result_def)
      qed (auto simp: real_path_result_def)
      done
  qed
qed

text \<open>
  The calls that a file operation on the virtual path \<open>p\<close> may make: memory, and the file function on
  the one real path that the virtual path stands for.
\<close>

definition real_call :: "'z fs_st_scheme \<Rightarrow> string \<Rightarrow> string \<Rightarrow> string \<Rightarrow> bool" where
  "real_call s cwd p q \<longleftrightarrow> CHR '':'' \<notin> set p \<and> abspath cwd p \<noteq> ''/'' \<and>
     real_of (VIRTUAL_PARTITIONS s) (abspath cwd p) q"

definition touches :: "'z fs_st_scheme \<Rightarrow> string \<Rightarrow> string \<Rightarrow> (string \<Rightarrow> file_call) \<Rightarrow> call \<Rightarrow> bool" where
  "touches s cwd p f c \<longleftrightarrow> mem_only c \<or> (\<exists>q. c = CFile (f q) \<and> real_call s cwd p q)"

definition path_result ::
  "env \<Rightarrow> (string \<Rightarrow> bool) \<Rightarrow> (string \<Rightarrow> file_call) \<Rightarrow> int \<Rightarrow> hist \<Rightarrow> reply \<Rightarrow> hist \<Rightarrow> bool" where
  "path_result E P f failed h r h' \<longleftrightarrow>
     r = ok failed \<and> held h' = held h \<or>
     (\<exists>q h1. P q \<and> answers E h1 (CFile (f q)) r \<and> held h' = held h \<union> acquires (CFile (f q)) r \<and>
        acquires (CFile (f q)) r \<inter> held h = {})"

lemma with_virtual_path_returns:
  assumes "fresh E" "\<And>q. releases (CFile (f q)) = {}" "fs_wf s"
  shows "returns (with_virtual_path E cwd f p failed s) (\<lambda>r s'.
    frame (touches s cwd p f) s s' \<and> path_result E (real_call s cwd p) f failed (trace s) r (trace s'))"
proof -
  have nomem: "Mem a \<notin> acquires (CFile c) r" for a c r by (cases c) auto
  have body: "returns (ext E (CFile (f q)) s1) (\<lambda>r s2. returns (free E a s2) (\<lambda>_ s'.
      frame (touches s cwd p f) s s' \<and> path_result E (real_call s cwd p) f failed (trace s) r (trace s')))"
    if "frame mem_only s s1" "real_path_result E cwd p s (Heap a q) (held (trace s1))" for a q s1
  proof -
    have mem: "frame (touches s cwd p f) s s1"
      using that(1) by (rule frame_mono) (simp add: touches_def)
    have call: "C = CFile (f q) \<Longrightarrow> touches s cwd p f C" for C
      using that(2) by (auto simp: touches_def real_path_result_def real_call_def)
    have rc: "real_call s cwd p q" using that(2) by (auto simp: real_path_result_def real_call_def)
    have fin: "frame (touches s cwd p f) s s' \<and> path_result E (real_call s cwd p) f failed (trace s) r (trace s')"
      if s2: "base.more s2 = base.more s1" "trace s2 = trace s1 @ [(CFile (f q), r)]"
        "answers E (trace s1) (CFile (f q)) r" and s': "frame mem_only s2 s'"
        "held (trace s') = (if a = 0 then held (trace s2) else held (trace s2) - {Mem a})" for r s2 s'
    proof -
      have "frame (touches s cwd p f) s2 s'" using s'(1) by (rule frame_mono) (simp add: touches_def)
      then have "frame (touches s cwd p f) s s'"
        using frame_trans[OF mem frame_call[OF s2(1,2) call]] frame_trans by blast
      moreover have "acquires (CFile (f q)) r \<inter> held (trace s1) = {}"
        using freshD[OF assms(1) s2(3)] by auto
      then have "held (trace s') = held (trace s) \<union> acquires (CFile (f q)) r \<and>
          acquires (CFile (f q)) r \<inter> held (trace s) = {}"
        using s2 s'(2) that nomem[of a "f q" r] assms(2)[of q]
          \<open>real_path_result E cwd p s (Heap a q) (held (trace s1))\<close>
        by (auto simp: real_path_result_def)
      ultimately show ?thesis using s2(3) rc unfolding path_result_def by blast
    qed
    have a: "Mem a \<in> held (trace s2)" if "trace s2 = trace s1 @ [(CFile (f q), r)]" for s2 r
      using that nomem[of a "f q" r] assms(2)[of q]
        \<open>real_path_result E cwd p s (Heap a q) (held (trace s1))\<close>
      by (auto simp: real_path_result_def)
    show ?thesis
      apply (rule returns_mono[OF ext_law], elim conjE, frule a)
      apply (rule returns_mono[OF free_returns], rule impI, assumption, elim conjE)
      apply (rule fin; assumption)
      done
  qed
  have mem: "frame (touches s cwd p f) s s1" if "frame mem_only s s1" for s1
    using that by (rule frame_mono) (simp add: touches_def)
  show ?thesis
    unfolding with_virtual_path_def
    apply (simp only: returns_bind prod.case)
    apply (rule returns_mono[OF to_real_path_returns[OF assms(1,3)]], elim conjE)
    subgoal for v s1
    proof (cases v)
      case (Heap a q)
      assume fr: "frame mem_only s s1" and res: "real_path_result E cwd p s v (held (trace s1))"
      then have "q \<noteq> []" using Heap by (simp add: real_path_result_def)
      then show ?thesis
        unfolding Heap cstr.case
        by (simp only: if_False returns_bind prod.case returns_simps) (rule body[OF fr res[unfolded Heap]])
    qed (auto simp: real_path_result_def mem path_result_def)
    done
qed

lemma vrt_fopen_returns:
  assumes "fresh E" "fs_wf s"
  shows "returns (vrt_fopen E cwd p mode s) (\<lambda>f s'. frame (touches s cwd p (\<lambda>q. Fopen q mode)) s s' \<and>
    (if f = 0 then held (trace s') = held (trace s)
     else File f \<notin> held (trace s) \<and> held (trace s') = insert (File f) (held (trace s))))"
  unfolding vrt_fopen_def
  by (auto intro!: returns_mono[OF with_virtual_path_returns[OF assms(1) _ assms(2)]]
      simp: path_result_def split: if_splits)

text \<open>Functions that hand out nothing leave what is held.\<close>

lemma neutral_path_returns:
  assumes "fresh E" "fs_wf s" "\<And>q. neutral (CFile (f q))"
  shows "returns (with_virtual_path E cwd f p failed s) (\<lambda>r s'.
    frame (touches s cwd p f) s s' \<and> held (trace s') = held (trace s))"
  using assms(3)
  by (auto intro!: returns_mono[OF with_virtual_path_returns[OF assms(1) _ assms(2)]]
      simp: path_result_def neutral_def)

lemma neutral_file [simp]:
  "neutral (CFile (Stat q))" "neutral (CFile (Unlink q))" "neutral (CFile (Mkdir q m))"
  "neutral (CFile (Rename q q'))" "neutral (CFile (Fread k n))" "neutral (CFile (Fwrite k b))"
  "neutral (CFile (Lseek k i))" "neutral (CFile (Fstat k))" "neutral (CFile (Dirnext d))"
  "neutral (CFile (Feof k))"
  by (simp_all add: neutral_def)

lemma frame_mem_touches: "frame mem_only s s' \<Longrightarrow> frame (touches s0 cwd p f) s s'"
  by (erule frame_mono) (simp add: touches_def)

lemma touches_same: "base.more s' = base.more s \<Longrightarrow> touches s' cwd p f = touches s cwd p f"
  by (drule base_more_partitions) (simp add: fun_eq_iff touches_def real_call_def)

lemma fs_wf_more: "fs_wf s \<Longrightarrow> base.more s' = base.more s \<Longrightarrow> fs_wf s'"
  by (drule base_more_partitions) (simp add: fs_wf_def)

lemma drop_real_path:
  assumes "frame mem_only s s1" "real_path_result E cwd p s (Heap a q) (held (trace s1))"
  shows "returns (free E a s1) (\<lambda>_ s'. frame mem_only s s' \<and> held (trace s') = held (trace s))"
  by (rule returns_mono[OF free_returns]) (use assms in \<open>auto simp: real_path_result_def intro: frame_trans\<close>)

lemma vrt_stat_returns:
  assumes "fresh E" "fs_wf s"
  shows "returns (vrt_stat E cwd p st s) (\<lambda>(r, st') s'. frame (touches s cwd p Stat) s s' \<and>
    held (trace s') = held (trace s) \<and> (r = 0 \<longrightarrow> CHR '':'' \<notin> set p \<and>
      (abspath cwd p = ''/'' \<or>
       (\<exists>q h a. real_call s cwd p q \<and> answers E h (CFile (Stat q)) a \<and> ret a = 0))))"
proof -
  have again: "returns (with_virtual_path E cwd Stat p (-1) s2) (\<lambda>r s'. frame (touches s cwd p Stat) s s' \<and>
      held (trace s') = held (trace s) \<and> (ret r = 0 \<longrightarrow>
        (\<exists>q h a. real_call s cwd p q \<and> answers E h (CFile (Stat q)) a \<and> ret a = 0)))"
    if "frame mem_only s s2" "held (trace s2) = held (trace s)" for s2
  proof (rule returns_mono[OF with_virtual_path_returns[OF assms(1) _ fs_wf_more[OF assms(2) frame_more[OF that(1)]]]])
    fix r s'
    assume "frame (touches s2 cwd p Stat) s2 s' \<and>
      path_result E (real_call s2 cwd p) Stat (-1) (trace s2) r (trace s')"
    moreover have "real_call s2 cwd p = real_call s cwd p"
      using base_more_partitions[OF frame_more[OF that(1)]] by (simp add: fun_eq_iff real_call_def)
    ultimately have "frame (touches s cwd p Stat) s2 s' \<and>
      path_result E (real_call s cwd p) Stat (-1) (trace s2) r (trace s')"
      unfolding touches_same[OF frame_more[OF that(1)]] by simp
    then show "frame (touches s cwd p Stat) s s' \<and> held (trace s') = held (trace s) \<and> (ret r = 0 \<longrightarrow>
        (\<exists>q h a. real_call s cwd p q \<and> answers E h (CFile (Stat q)) a \<and> ret a = 0))"
      using frame_trans[OF frame_mem_touches[OF that(1)], of s cwd p Stat s'] that(2)
      by (auto simp: path_result_def)
  qed simp
  show ?thesis
    unfolding vrt_stat_def
    apply (simp only: returns_bind prod.case)
    apply (rule returns_mono[OF to_real_path_returns[OF assms]], elim conjE)
    subgoal for v s1
    proof (cases v)
      case (Heap a q)
      assume fr: "frame mem_only s s1" and res: "real_path_result E cwd p s v (held (trace s1))"
      then have q: "q \<noteq> []" "CHR '':'' \<notin> set p" using Heap by (auto simp: real_path_result_def)
      show ?thesis
        unfolding Heap cstr.case
        apply (simp only: q if_False returns_bind prod.case returns_simps)
        apply (rule returns_mono[OF drop_real_path[OF fr res[unfolded Heap]]], elim conjE)
        apply (rule returns_mono[OF again], assumption, assumption)
        using q apply auto
        done
    qed (auto simp: real_path_result_def frame_mem_touches)
    done
qed

section \<open>The other operations\<close>

text \<open>All calls of this component, without the paths.\<close>

definition path_io :: "call \<Rightarrow> bool" where
  "path_io c \<longleftrightarrow> (case c of CMem _ \<Rightarrow> True
     | CFile (Fopen _ _) \<Rightarrow> True | CFile (Stat _) \<Rightarrow> True | CFile (Unlink _) \<Rightarrow> True
     | CFile (Mkdir _ _) \<Rightarrow> True | CFile (Rename _ _) \<Rightarrow> True
     | CFile (Diropen _) \<Rightarrow> True | CFile (Dirnext _) \<Rightarrow> True | CFile (Dirclose _) \<Rightarrow> True
     | _ \<Rightarrow> False)"

lemma path_io_simps [simp]:
  "path_io (CMem m)" "path_io (CFile (Fopen q m'))" "path_io (CFile (Stat q))" "path_io (CFile (Unlink q))"
  "path_io (CFile (Mkdir q n))" "path_io (CFile (Rename q q'))" "path_io (CFile (Diropen q))"
  "path_io (CFile (Dirnext d))" "path_io (CFile (Dirclose d))"
  by (simp_all add: path_io_def)

lemma mem_path_io: "frame mem_only s s' \<Longrightarrow> frame path_io s s'"
  by (erule frame_mono) (auto simp: mem_only_def split: call.splits)

lemma touches_path_io: "frame (touches s0 cwd p f) s s' \<Longrightarrow> (\<And>q. path_io (CFile (f q))) \<Longrightarrow> frame path_io s s'"
  by (erule frame_mono) (auto simp: touches_def mem_only_def split: call.splits)

definition keeps :: "'z base_scheme \<Rightarrow> 'z base_scheme \<Rightarrow> bool" where
  "keeps s s' \<longleftrightarrow> frame path_io s s' \<and> held (trace s') = held (trace s)"

lemma keeps_refl [simp, intro]: "keeps s s"
  by (simp add: keeps_def)

lemma keeps_trans [trans]: "keeps s s' \<Longrightarrow> keeps s' s'' \<Longrightarrow> keeps s s''"
  by (auto simp: keeps_def intro: frame_trans)

lemma keeps_errno [simp]: "keeps s (set_errno n s') = keeps s s'"
  by (simp add: keeps_def)

lemma keeps_more: "keeps s s' \<Longrightarrow> base.more s' = base.more s"
  by (auto simp: keeps_def frame_def)

lemma neutral_path_keeps:
  assumes "fresh E" "fs_wf s" "\<And>q. neutral (CFile (f q))" "\<And>q. path_io (CFile (f q))"
  shows "returns (with_virtual_path E cwd f p failed s) (\<lambda>r s'. keeps s s')"
  by (rule returns_mono[OF neutral_path_returns[OF assms(1,2,3)]])
     (auto simp: keeps_def intro: touches_path_io assms(4))

lemma vrt_unlink_keeps:
  "fresh E \<Longrightarrow> fs_wf s \<Longrightarrow> returns (vrt_unlink E cwd p s) (\<lambda>r s'. keeps s s')"
  unfolding vrt_unlink_def by (auto intro!: returns_mono[OF neutral_path_keeps])

lemma vrt_mkdir_keeps:
  "fresh E \<Longrightarrow> fs_wf s \<Longrightarrow> returns (vrt_mkdir E cwd p m s) (\<lambda>r s'. keeps s s')"
  unfolding vrt_mkdir_def by (auto intro!: returns_mono[OF neutral_path_keeps])

lemma vrt_stat_keeps:
  assumes "fresh E" "fs_wf s"
  shows "returns (vrt_stat E cwd p st s) (\<lambda>(r, st') s'. keeps s s')"
  by (rule returns_mono[OF vrt_stat_returns[OF assms]]) (auto simp: keeps_def intro: touches_path_io)

lemma vrt_rename_keeps:
  assumes "fresh E" "fs_wf s"
  shows "returns (vrt_rename E cwd from to s) (\<lambda>r s'. keeps s s')"
proof -
  have body: "returns (with_virtual_path E cwd (\<lambda>p. Rename p q) from (-1) s1) (\<lambda>r s2.
      returns (free E a s2) (\<lambda>_ s'. keeps s s'))"
    if "frame mem_only s s1" "real_path_result E cwd to s (Heap a q) (held (trace s1))" for a q s1
  proof -
    have fin: "keeps s s'" if "keeps s1 s2" "frame mem_only s2 s'"
      "held (trace s') = (if a = 0 then held (trace s2) else held (trace s2) - {Mem a})" for s2 s'
    proof -
      have "frame path_io s s'"
        using that(1,2) mem_path_io[OF \<open>frame mem_only s s1\<close>] mem_path_io[OF that(2)]
        by (auto simp: keeps_def intro: frame_trans)
      moreover have "held (trace s') = held (trace s)"
        using that \<open>real_path_result E cwd to s (Heap a q) (held (trace s1))\<close>
        by (auto simp: keeps_def real_path_result_def)
      ultimately show ?thesis by (simp add: keeps_def)
    qed
    have "Mem a \<in> held (trace s2)" if "keeps s1 s2" for s2
      using that \<open>real_path_result E cwd to s (Heap a q) (held (trace s1))\<close>
      by (simp add: keeps_def real_path_result_def)
    moreover have "fs_wf s1" using fs_wf_more[OF assms(2) frame_more[OF that(1)]] .
    ultimately show ?thesis
      by (intro returns_mono[OF neutral_path_keeps] returns_mono[OF free_returns])
         (auto intro: assms(1) fin)
  qed
  show ?thesis
    unfolding vrt_rename_def
    apply (simp only: returns_bind prod.case)
    apply (rule returns_mono[OF to_real_path_returns[OF assms]], elim conjE)
    subgoal for v s1
    proof (cases v)
      case (Heap a q)
      assume fr: "frame mem_only s s1" and res: "real_path_result E cwd to s v (held (trace s1))"
      then have "q \<noteq> []" using Heap by (simp add: real_path_result_def)
      then show ?thesis
        unfolding Heap cstr.case
        by (simp only: if_False returns_bind prod.case returns_simps) (rule body[OF fr res[unfolded Heap]])
    qed (auto simp: real_path_result_def keeps_def intro: mem_path_io)
    done
qed

text \<open>
  \<open>vrt_chdir\<close>: the law says that no object has a path of \<open>MAXPATHLEN - 1\<close> characters, without which
  the slash it appends can overflow \<open>cwd\<close>.
\<close>

definition names_short :: "env \<Rightarrow> bool" where
  "names_short E \<longleftrightarrow> 3 \<le> MAXPATHLEN E \<and>
     (\<forall>h q r. answers E h (CFile (Stat q)) r \<longrightarrow> ret r = 0 \<longrightarrow> length q + 1 < MAXPATHLEN E)"

definition chdir_result :: "string \<Rightarrow> string \<Rightarrow> int \<Rightarrow> string \<Rightarrow> bool" where
  "chdir_result cwd p r new \<longleftrightarrow> r = -1 \<and> new = cwd \<or>
     r = 0 \<and> CHR '':'' \<notin> set p \<and> new = (if length (abspath cwd p) > 1 then abspath cwd p @ ''/'' else abspath cwd p)"

lemma real_call_length:
  assumes "fs_wf s" "real_call s cwd p q"
  shows "length (abspath cwd p) \<le> length q"
proof -
  obtain pre rest where f: "find_prefix initial_partitions (abspath cwd p) = Some (pre, rest)" "q = pre @ rest"
    using assms by (auto simp: real_call_def real_of_def find_prefix_wf)
  from find_prefix_SomeD[OF f(1)] obtain v where v: "v \<in> set initial_partitions" "pre = real_prefix v"
    "rest = (let r = drop (length (virtual_alias v)) (abspath cwd p) in if char_at r 0 = CHR ''/'' then drop 1 r else r)"
    by auto
  then have "length pre = Suc (length (virtual_alias v))" using initial_prefix[OF v(1)] by simp
  moreover have "length (abspath cwd p) \<le> length (virtual_alias v) + Suc (length rest)"
    using v(3) by (auto simp: Let_def)
  ultimately show ?thesis using f(2) by simp
qed

text \<open>The directory that the path names, and whether its path fits.\<close>

definition entered :: "string \<Rightarrow> string \<Rightarrow> string" where
  "entered cwd p = (if length (abspath cwd p) > 1 then abspath cwd p @ ''/'' else abspath cwd p)"

lemma vrt_chdir_fits:
  assumes "fresh E" "fs_wf s"
    and "abspath cwd p = ''/'' \<or> (\<exists>q h a. real_call s cwd p q \<and> answers E h (CFile (Stat q)) a \<and> ret a = 0) \<Longrightarrow>
      length (entered cwd p) < MAXPATHLEN E"
  shows "returns (vrt_chdir E cwd p s) (\<lambda>(r, new) s'. keeps s s' \<and> chdir_result cwd p r new \<and>
    (r = 0 \<longrightarrow> length new < MAXPATHLEN E))"
proof -
  have fits: "length (if length q > 1 then q @ ''/'' else q) < MAXPATHLEN E"
    if "q = abspath cwd p" "abspath cwd p = ''/'' \<or>
       (\<exists>q h a. real_call s cwd p q \<and> answers E h (CFile (Stat q)) a \<and> ret a = 0)" for q
    using assms(3)[OF that(2)] unfolding entered_def that(1) .
  have abs: "returns (virtual_abspath E cwd p s1) (\<lambda>v s2. keeps s (set_errno n s2) \<and> v = Null \<or>
      (\<exists>a q. v = Heap a q \<and> q = abspath cwd p \<and>
        returns (free E a s2) (\<lambda>_ s'. keeps s s')))"
    if "keeps s s1" for s1 n
    by (rule returns_mono[OF virtual_abspath_returns[OF assms(1)]])
       (use that in \<open>auto split: cstr.splits simp: keeps_def intro!: returns_mono[OF free_returns]
         dest!: mem_path_io intro: frame_trans\<close>)
  have go: "returns (virtual_abspath E cwd p s1) (\<lambda>v s2. returns (case v of
          Heap a q \<Rightarrow> let new = (if length q > 1 then q @ ''/'' else q) in
            if length new + 1 > MAXPATHLEN E then None
            else do { (_, s) \<leftarrow> free E a s2; Some ((0, new), s) }
        | _ \<Rightarrow> Some ((-1, cwd), set_errno ENOMEM s2))
        (\<lambda>(r, new) s'. keeps s s' \<and> chdir_result cwd p r new \<and> (r = 0 \<longrightarrow> length new < MAXPATHLEN E)))"
    if "keeps s s1" "CHR '':'' \<notin> set p" "abspath cwd p = ''/'' \<or>
       (\<exists>q h a. real_call s cwd p q \<and> answers E h (CFile (Stat q)) a \<and> ret a = 0)" for s1
  proof (rule returns_mono[OF abs[OF that(1), of ENOMEM]], elim disjE exE conjE)
    fix v s2 a q
    assume v: "v = Heap a q" and q: "q = abspath cwd p" and f: "returns (free E a s2) (\<lambda>_ s'. keeps s s')"
    have "\<not> length (if length q > 1 then q @ ''/'' else q) + 1 > MAXPATHLEN E"
      using fits[OF q that(3)] by simp
    then show "returns (case v of
          Heap a q \<Rightarrow> let new = (if length q > 1 then q @ ''/'' else q) in
            if length new + 1 > MAXPATHLEN E then None
            else do { (_, s) \<leftarrow> free E a s2; Some ((0, new), s) }
        | _ \<Rightarrow> Some ((-1, cwd), set_errno ENOMEM s2))
        (\<lambda>(r, new) s'. keeps s s' \<and> chdir_result cwd p r new \<and> (r = 0 \<longrightarrow> length new < MAXPATHLEN E))"
      unfolding v cstr.case Let_def using fits[OF q that(3)] that(2)
      by (simp only: if_False returns_bind prod.case returns_simps)
         (rule returns_mono[OF f], simp add: chdir_result_def q)
  qed (simp add: chdir_result_def)
  show ?thesis
    unfolding vrt_chdir_def
    apply (simp only: returns_bind)
    apply (rule returns_mono[OF returns_conj[OF vrt_stat_returns[OF assms(1,2)]
            returns_upon[OF vrt_stat_keeps[OF assms(1,2)]]]])
    subgoal for x s1
      apply (cases x, hypsubst, simp only: prod.case, intro returns_ifI)
        apply (simp add: chdir_result_def)
       apply (simp add: chdir_result_def)
      apply (simp only: returns_bind prod.case)
      apply (rule go)
        apply auto
      done
    done
qed

lemma vrt_chdir_returns:
  assumes "fresh E" "fs_wf s" "names_short E"
  shows "returns (vrt_chdir E cwd p s) (\<lambda>(r, new) s'. keeps s s' \<and> chdir_result cwd p r new \<and>
    (r = 0 \<longrightarrow> length new < MAXPATHLEN E))"
proof (rule vrt_chdir_fits[OF assms(1,2)])
  assume "abspath cwd p = ''/'' \<or> (\<exists>q h a. real_call s cwd p q \<and> answers E h (CFile (Stat q)) a \<and> ret a = 0)"
  then show "length (entered cwd p) < MAXPATHLEN E"
    using assms(3) real_call_length[OF assms(2), of cwd p] unfolding names_short_def entered_def by fastforce
qed

section \<open>Directories: iterators and what they own\<close>

fun iter_res :: "dir_iter \<Rightarrow> resource" where
  "iter_res (Real d) = Dir d"
| "iter_res (Fake a) = Mem a"

fun iter_ok :: "(int \<Rightarrow> nat option) \<Rightarrow> dir_iter \<Rightarrow> bool" where
  "iter_ok v (Real d) = True"
| "iter_ok v (Fake a) = (a \<noteq> 0 \<and> v a \<noteq> None)"

text \<open>\<open>vframe\<close>: file and memory calls only, and no variable changed but \<open>viters\<close>.\<close>

definition vframe :: "'z vrt_st_scheme \<Rightarrow> 'z vrt_st_scheme \<Rightarrow> bool" where
  "vframe s s' \<longleftrightarrow> logs path_io s s' \<and> base.more s' = base.more (s\<lparr>viters := viters s'\<rparr>)"

lemma vframe_refl [simp, intro]: "vframe s s"
  by (simp add: vframe_def)

lemma base_more_viters:
  "base.more s' = base.more s \<Longrightarrow> base.more (s'\<lparr>viters := v\<rparr>) = base.more (s\<lparr>viters := v\<rparr>)"
  by (cases s; cases s') simp

lemma base_more_viters_eq: "base.more s' = base.more s \<Longrightarrow> viters s' = viters s"
  by (cases s; cases s') simp

lemma frame_viters: "frame C s s' \<Longrightarrow> viters s' = viters s"
  by (rule base_more_viters_eq) (rule frame_more)

lemma viters_same [simp]: "base.more (s\<lparr>viters := viters s\<rparr>) = base.more s"
  by (cases s) simp

lemma vframe_trans [trans]: "vframe s s' \<Longrightarrow> vframe s' s'' \<Longrightarrow> vframe s s''"
  using base_more_viters[of s' "s\<lparr>viters := viters s'\<rparr>" "viters s''"]
  by (auto simp: vframe_def intro: logs_trans)

lemma frame_vframe: "frame path_io s s' \<Longrightarrow> vframe s s'"
  using base_more_viters_eq[of s' s] by (auto simp: frame_def vframe_def)

lemma vframe_update: "vframe s s' \<Longrightarrow> vframe s (s'\<lparr>viters := v\<rparr>)"
  using base_more_viters[of s' "s\<lparr>viters := viters s'\<rparr>" v] by (simp add: vframe_def logs_def)

lemma vframe_partitions: "vframe s s' \<Longrightarrow> VIRTUAL_PARTITIONS s' = VIRTUAL_PARTITIONS s"
  unfolding vframe_def by (metis base_more_partitions fs_st.select_convs(3) fs_st.surjective fs_st.update_convs(3)
      vrt_st.surjective vrt_st.update_convs(1))

lemma mem_frames_vframe:
  "frame mem_only s s1 \<Longrightarrow> frame mem_only s1 s2 \<Longrightarrow> vframe s s2 \<and> viters s2 = viters s"
  using frame_trans[of mem_only s s1 s2] by (blast intro: frame_vframe mem_path_io frame_viters)

lemma malloc_iter:
  assumes "fresh E" "frame mem_only s s1" "held (trace s1) = held (trace s)"
  shows "returns (malloc E n s1) (\<lambda>a s2. vframe s s2 \<and> viters s2 = viters s \<and>
    (if a = 0 then held (trace s2) = held (trace s)
     else Mem a \<notin> held (trace s) \<and> held (trace s2) = insert (Mem a) (held (trace s))))"
  by (rule returns_mono[OF malloc_returns[OF assms(1)]])
     (use assms(3) mem_frames_vframe[OF assms(2)] in \<open>simp split: if_splits\<close>)

definition diropen_result :: "'z vrt_st_scheme \<Rightarrow> dir_iter option \<Rightarrow> 'z vrt_st_scheme \<Rightarrow> bool" where
  "diropen_result s r s' \<longleftrightarrow> vframe s s' \<and> (case r of
       None \<Rightarrow> held (trace s') = held (trace s) \<and> viters s' = viters s
     | Some it \<Rightarrow> iter_res it \<notin> held (trace s) \<and> held (trace s') = insert (iter_res it) (held (trace s)) \<and>
         iter_ok (viters s') it \<and>
         viters s' = (case it of Real _ \<Rightarrow> viters s | Fake a \<Rightarrow> (viters s)(a \<mapsto> 0)))"

lemma vrt_diropen_returns:
  assumes "fresh E" "fs_wf s"
  shows "returns (vrt_diropen E cwd p s) (diropen_result s)"
proof -
  have fake: "returns (malloc E sizeof_DIR_ITER s1) (\<lambda>iter s. returns (if iter = 0 then Some (None, s)
       else Some (Some (Fake iter), s\<lparr>viters := (viters s)(iter := Some 0)\<rparr>)) (diropen_result s0))"
    if "frame mem_only s0 s1" "held (trace s1) = held (trace s0)" for s0 s1 :: "'a vrt_st_scheme"
    by (rule returns_mono[OF malloc_iter[OF assms(1) that]])
       (auto simp: diropen_result_def intro: vframe_update split: if_splits)
  have real: "returns (with_virtual_path E cwd Diropen p 0 s2) (\<lambda>r s'.
      diropen_result s (if ret r = 0 then None else Some (Real (ret r))) s')"
    if "frame mem_only s s2" "held (trace s2) = held (trace s)" for s2
  proof (rule returns_mono[OF with_virtual_path_returns[OF assms(1) _ fs_wf_more[OF assms(2) frame_more[OF that(1)]]]])
    fix r s'
    assume a: "frame (touches s2 cwd p Diropen) s2 s' \<and>
      path_result E (real_call s2 cwd p) Diropen 0 (trace s2) r (trace s')"
    then have "frame path_io s2 s'" by (auto elim: touches_path_io)
    then have "frame path_io s s'" using mem_path_io[OF that(1)] by (blast intro: frame_trans)
    then show "diropen_result s (if ret r = 0 then None else Some (Real (ret r))) s'"
      using a that(2) base_more_viters_eq[OF frame_more[of path_io s s']]
      by (auto simp: diropen_result_def frame_vframe path_result_def split: if_splits)
  qed simp
  show ?thesis
    unfolding vrt_diropen_def Let_def
    apply (simp only: returns_bind prod.case)
    apply (rule returns_mono[OF to_real_path_returns[OF assms]], elim conjE)
    subgoal for v s1
    proof (cases v)
      case Null
      assume "frame mem_only s s1" "real_path_result E cwd p s v (held (trace s1))"
      then show ?thesis unfolding Null
        using base_more_viters_eq[OF frame_more[of mem_only s s1]]
        by (auto simp: real_path_result_def diropen_result_def intro: frame_vframe mem_path_io)
    next
      case (Static q)
      assume fr: "frame mem_only s s1" and res: "real_path_result E cwd p s v (held (trace s1))"
      then have "held (trace s1) = held (trace s)" using Static by (simp add: real_path_result_def)
      from fake[OF fr this] show ?thesis unfolding Static by simp
    next
      case (Heap a q)
      assume fr: "frame mem_only s s1" and res: "real_path_result E cwd p s v (held (trace s1))"
      then have q: "q \<noteq> []" using Heap by (auto simp: real_path_result_def)
      show ?thesis
        unfolding Heap cstr.case
        apply (simp only: q if_False returns_bind prod.case returns_simps)
        apply (rule returns_mono[OF drop_real_path[OF fr res[unfolded Heap]]], elim conjE)
        apply (rule real, assumption, assumption)
        done
    qed
    done
qed

lemma next_mounted_returns:
  assumes "fresh E"
  shows "returns (next_mounted E n i s) (\<lambda>(j, k) s'. frame dir_io s s' \<and> held (trace s') = held (trace s) \<and>
    j \<le> i + n \<and> (case k of None \<Rightarrow> j = i + n | Some k \<Rightarrow> i \<le> k \<and> j = Suc k))"
proof (induction n arbitrary: i s)
  case (Suc n)
  have go: "returns (next_mounted E n (Suc i) s1) (\<lambda>(j, k) s'. frame dir_io s s' \<and> held (trace s') = held (trace s) \<and>
    j \<le> i + Suc n \<and> (case k of None \<Rightarrow> j = i + Suc n | Some k \<Rightarrow> i \<le> k \<and> j = Suc k))"
    if "frame dir_io s s1" "held (trace s1) = held (trace s)" for s1
    by (rule returns_mono[OF Suc.IH]) (use that in \<open>auto intro: frame_trans split: option.splits\<close>)
  show ?case
    by (simp only: next_mounted.simps returns_bind prod.case)
       (rule returns_mono[OF mounted_returns[OF assms]], elim conjE, intro returns_ifI go, auto)
qed simp

lemma dir_path_io: "frame dir_io s s' \<Longrightarrow> frame path_io s s'"
  by (erule frame_mono) (auto simp: dir_io_def split: call.splits file_call.splits)

lemma vrt_dirnext_returns:
  assumes "fresh E" "iter_ok (viters s) it" "iter_res it \<in> held (trace s)"
  shows "returns (vrt_dirnext E it fname st s) (\<lambda>_ s'. vframe s s' \<and> held (trace s') = held (trace s) \<and>
    dom (viters s') = dom (viters s))"
proof (cases it)
  case (Real d)
  have "vframe s s' \<and> held (trace s') = held (trace s) \<and> dom (viters s') = dom (viters s)"
    if "base.more s' = base.more s" "trace s' = trace s @ [(CFile (Dirnext d), r)]" for r s'
    using frame_call[OF that, of path_io] that(2) base_more_viters_eq[OF that(1)]
    by (auto intro: frame_vframe)
  then show ?thesis unfolding vrt_dirnext_def Real dir_iter.case ext_on_held[OF assms(3)[unfolded Real iter_res.simps]]
    by (simp only: returns_bind prod.case returns_simps)
       (rule returns_mono[OF ext_step], elim conjE, metis)
next
  case (Fake a)
  then obtain i where i: "viters s a = Some i" using assms(2) by auto
  have "vframe s (s'\<lparr>viters := (viters s')(a := Some j)\<rparr>) \<and>
      dom (viters (s'\<lparr>viters := (viters s')(a := Some j)\<rparr>)) = dom (viters s)"
    if "frame dir_io s s'" for s' j
    using vframe_update[OF frame_vframe[OF dir_path_io[OF that]]] i
      base_more_viters_eq[OF frame_more[OF that]] by auto
  then show ?thesis unfolding vrt_dirnext_def Fake
    by (auto simp: i Let_def split: option.splits intro!: returns_mono[OF next_mounted_returns[OF assms(1)]])
qed

lemma vrt_dirclose_returns:
  assumes "iter_ok (viters s) it" "iter_res it \<in> held (trace s)"
  shows "returns (vrt_dirclose E it s) (\<lambda>_ s'. vframe s s' \<and>
    held (trace s') = held (trace s) - {iter_res it} \<and>
    viters s' = (case it of Real _ \<Rightarrow> viters s | Fake a \<Rightarrow> (viters s)(a := None)))"
proof (cases it)
  case (Real d)
  have "vframe s s' \<and> held (trace s') = held (trace s) - {Dir d} \<and> viters s' = viters s"
    if "base.more s' = base.more s" "trace s' = trace s @ [(CFile (Dirclose d), r)]" for r s'
    using frame_call[OF that, of path_io] that(2) base_more_viters_eq[OF that(1)]
    by (auto intro: frame_vframe)
  then show ?thesis
    unfolding vrt_dirclose_def Real dir_iter.case iter_res.simps ext_on_held[OF assms(2)[unfolded Real iter_res.simps]]
    by (simp only: returns_bind prod.case returns_simps)
       (rule returns_mono[OF ext_step], elim conjE, metis)
next
  case (Fake a)
  then obtain i where i: "viters s a = Some i" "a \<noteq> 0" using assms by auto
  have fk: "vframe s (s'\<lparr>viters := (viters s')(a := None)\<rparr>) \<and> viters s' = viters s"
    if "frame mem_only s s'" for s'
    using vframe_update[OF frame_vframe[OF mem_path_io[OF that]]] base_more_viters_eq[OF frame_more[OF that]]
    by auto
  show ?thesis unfolding vrt_dirclose_def Fake dir_iter.case i option.case
    by (simp only: returns_bind prod.case returns_simps)
       (rule returns_mono[OF free_returns], use assms(2) Fake in simp, elim conjE, drule fk, clarsimp simp: i)
qed

end
