(* ===== verification/Split.thy ===== *)
theory Split
  imports Prelude
begin

text \<open>
  \<open>split\<close> of \<open>source/ftp.c\<close>, which cuts a command line into a command and its argument. The
  reference is \<open>split_ref\<close>: up to \<open>maxsplit\<close> words, then the rest of the line without the
  separators around it.
\<close>

section \<open>The loop\<close>

text \<open>
  The local variables; \<open>result\<close> holds the caller's arrays, whose contents before the call are
  arbitrary. Writing a character at \<open>result_pos\<close> with a NUL behind it makes the string end there.
\<close>

record split_st =
  num_results :: nat
  result_pos :: nat
  trim_pos :: nat
  in_word :: bool
  result :: "string list"

definition split_write :: "char \<Rightarrow> split_st \<Rightarrow> split_st" where
  "split_write c st =
     st\<lparr>result := (result st)[num_results st - 1 :=
          take (result_pos st) (result st ! (num_results st - 1)) @ [c]],
        result_pos := Suc (result_pos st)\<rparr>"

definition split_enter :: "nat \<Rightarrow> split_st \<Rightarrow> split_st" where
  "split_enter maxsplit st =
     (if \<not> in_word st then
        (if num_results st \<le> maxsplit
         then st\<lparr>in_word := True, num_results := Suc (num_results st), result_pos := 0\<rparr>
         else st\<lparr>in_word := True\<rparr>)
      else st)"

definition split_char :: "char \<Rightarrow> nat \<Rightarrow> char \<Rightarrow> split_st \<Rightarrow> split_st" where
  "split_char sep maxsplit c st =
     (if c = sep \<and> num_results st \<le> maxsplit then st\<lparr>in_word := False\<rparr>
      else
        let st = (if c = sep then
                    (if trim_pos st = 0 then st\<lparr>trim_pos := result_pos st\<rparr> else st)
                  else (if trim_pos st \<noteq> 0 then st\<lparr>trim_pos := 0\<rparr> else st))
        in split_write c (split_enter maxsplit st))"

definition split :: "string \<Rightarrow> char \<Rightarrow> nat \<Rightarrow> string list \<Rightarrow> nat \<times> string list" where
  "split s sep maxsplit result0 =
     (let st = fold (split_char sep maxsplit) s
            \<lparr>num_results = 0, result_pos = 0, trim_pos = 0, in_word = False, result = result0\<rparr>;
          k = num_results st;
          res = (if trim_pos st \<noteq> 0
                 then (result st)[k - 1 := take (trim_pos st) (result st ! (k - 1))]
                 else result st)
      in (k, take k res @ replicate (Suc maxsplit - k) []))"

section \<open>The reference\<close>

definition rstrip :: "char \<Rightarrow> string \<Rightarrow> string" where
  "rstrip sep s = rev (dropWhile (\<lambda>c. c = sep) (rev s))"

fun split_ref :: "char \<Rightarrow> nat \<Rightarrow> string \<Rightarrow> string list" where
  "split_ref sep 0 s =
     (let s' = dropWhile (\<lambda>c. c = sep) s in if s' = [] then [] else [rstrip sep s'])"
| "split_ref sep (Suc k) s =
     (let s' = dropWhile (\<lambda>c. c = sep) s in
      if s' = [] then []
      else takeWhile (\<lambda>c. c \<noteq> sep) s' # split_ref sep k (dropWhile (\<lambda>c. c \<noteq> sep) s'))"

lemma rstrip_snoc [simp]:
  "rstrip sep (s @ [c]) = (if c = sep then rstrip sep s else s @ [c])"
  by (simp add: rstrip_def)

lemma rstrip_prefix: "\<exists>k. s = rstrip sep s @ replicate k sep"
proof (induction s rule: rev_induct)
  case (snoc c s)
  then obtain k where k: "s = rstrip sep s @ replicate k sep" by blast
  show ?case
  proof (cases "c = sep")
    case True
    have "s @ [c] = rstrip sep s @ replicate (Suc k) sep"
      by (subst k) (simp add: True replicate_append_same)
    moreover have "rstrip sep (s @ [c]) = rstrip sep s" using True by simp
    ultimately show ?thesis by metis
  qed (auto intro: exI[of _ "0::nat"])
qed (simp add: rstrip_def)

lemma rstrip_take: "take (length (rstrip sep s)) s = rstrip sep s"
  using rstrip_prefix[of s sep] by (metis append_eq_conv_conj)

lemma rstrip_not_Nil: "s \<noteq> [] \<Longrightarrow> hd s \<noteq> sep \<Longrightarrow> rstrip sep s \<noteq> []"
  by (auto simp: rstrip_def dropWhile_eq_Nil_conv)

lemma split_ref_Cons_sep [simp]: "split_ref sep k (sep # s) = split_ref sep k s"
  by (cases k) simp_all

lemma split_ref_length: "length (split_ref sep k s) \<le> Suc k"
  by (induction sep k s rule: split_ref.induct) (auto simp: Let_def)

section \<open>The loop computes the reference\<close>

text \<open>The three situations of the loop: between words, in a word that is not the last, in the
  last field.\<close>

definition split_done :: "nat \<Rightarrow> split_st \<Rightarrow> string list \<Rightarrow> bool" where
  "split_done maxsplit st ws \<longleftrightarrow> num_results st = length ws \<and> length (result st) = Suc maxsplit \<and>
     length ws \<le> Suc maxsplit \<and> take (length ws) (result st) = ws"

definition split_final :: "nat \<Rightarrow> split_st \<Rightarrow> nat \<times> string list" where
  "split_final maxsplit st =
     (let k = num_results st;
          res = (if trim_pos st \<noteq> 0
                 then (result st)[k - 1 := take (trim_pos st) (result st ! (k - 1))]
                 else result st)
      in (k, take k res @ replicate (Suc maxsplit - k) []))"

definition padded :: "nat \<Rightarrow> string list \<Rightarrow> nat \<times> string list" where
  "padded maxsplit ws = (length ws, ws @ replicate (Suc maxsplit - length ws) [])"

lemma split_done_last:
  assumes "split_done maxsplit st (ws @ [w])"
  shows "result st ! (num_results st - 1) = w"
proof -
  have "take (Suc (length ws)) (result st) ! length ws = w"
    using assms by (simp add: split_done_def nth_append)
  then show ?thesis using assms by (simp add: split_done_def)
qed

lemma split_done_write:
  assumes "split_done maxsplit st (ws @ [w])" "result_pos st = length w"
  shows "split_done maxsplit (split_write c st) (ws @ [w @ [c]])"
    "result_pos (split_write c st) = length (w @ [c])"
proof -
  have "take (Suc (length ws)) (result st) = ws @ [w]"
    using assms by (simp add: split_done_def)
  then have "take (Suc (length ws)) ((result st)[length ws := w @ [c]]) = ws @ [w @ [c]]"
    by (metis take_update_swap list_update_length)
  then show "split_done maxsplit (split_write c st) (ws @ [w @ [c]])"
    using assms split_done_last[OF assms(1)] by (simp add: split_done_def split_write_def)
  show "result_pos (split_write c st) = length (w @ [c])"
    using assms by (simp add: split_write_def)
qed

lemma split_write_simps [simp]:
  "num_results (split_write c st) = num_results st"
  "trim_pos (split_write c st) = trim_pos st"
  "in_word (split_write c st) = in_word st"
  by (simp_all add: split_write_def)

lemma trim_pos_same: "trim_pos st = x \<Longrightarrow> st\<lparr>trim_pos := x\<rparr> = st"
  by (cases st) simp

lemma split_first_char:
  assumes "split_done maxsplit st ws" "num_results st \<le> maxsplit" "\<not> in_word st" "trim_pos st = 0"
    "c \<noteq> sep"
  defines "st' \<equiv> split_char sep maxsplit c st"
  shows "split_done maxsplit st' (ws @ [[c]])" "result_pos st' = 1" "in_word st'"
    "trim_pos st' = 0"
  using assms by (auto simp: split_char_def split_enter_def split_write_def split_done_def
      take_Suc_conv_app_nth)

lemma split_last_field:
  assumes "split_done maxsplit st (ws @ [w])" "result_pos st = length w" "length ws = maxsplit"
    "in_word st" "w \<noteq> []" "hd w \<noteq> sep"
    "trim_pos st = (if last w = sep then length (rstrip sep w) else 0)"
  shows "split_final maxsplit (fold (split_char sep maxsplit) s st) =
     padded maxsplit (ws @ [rstrip sep (w @ s)])"
  using assms
proof (induction s arbitrary: st w)
  case Nil
  have num: "num_results st = Suc (length ws)" and
    res: "take (Suc (length ws)) (result st) = ws @ [w]"
    and len: "length (result st) = Suc maxsplit"
    using Nil by (auto simp: split_done_def)
  have r: "result st = ws @ [w]" using res len Nil.prems(3) by simp
  have z: "maxsplit - length ws = 0" using Nil.prems(3) by simp
  show ?case
  proof (cases "last w = sep")
    case True
    then have "trim_pos st = length (rstrip sep w)" "rstrip sep w \<noteq> []"
      using Nil by (auto simp: rstrip_not_Nil)
    then show ?thesis using num r z
      by (simp add: split_final_def padded_def rstrip_take Let_def)
  next
    case False
    have "rstrip sep w = w" using False Nil.prems(5)
      by (metis append_butlast_last_id rstrip_snoc)
    with False show ?thesis using num r Nil.prems
      by (simp add: split_final_def padded_def)
  qed
next
  case (Cons c s)
  let ?st = "split_char sep maxsplit c st"
  let ?t = "if c = sep then (if trim_pos st = 0 then result_pos st else trim_pos st) else 0"
  have eq: "?st = split_write c (st\<lparr>trim_pos := ?t\<rparr>)"
    using Cons.prems
    by (auto simp: split_char_def split_enter_def split_done_def trim_pos_same)
  have d: "split_done maxsplit (st\<lparr>trim_pos := ?t\<rparr>) (ws @ [w])"
    using Cons.prems(1) by (simp add: split_done_def)
  have t: "trim_pos ?st = (if last (w @ [c]) = sep then length (rstrip sep (w @ [c])) else 0)"
  proof (cases "c = sep \<and> last w \<noteq> sep")
    case True
    then have "rstrip sep w = w" using Cons.prems(5) by (metis append_butlast_last_id rstrip_snoc)
    with True show ?thesis using Cons.prems unfolding eq by simp
  next
    case False
    then show ?thesis using Cons.prems rstrip_not_Nil[of w sep] unfolding eq by auto
  qed
  have "split_final maxsplit (fold (split_char sep maxsplit) s ?st) =
     padded maxsplit (ws @ [rstrip sep ((w @ [c]) @ s)])"
    using Cons.prems split_done_write[OF d] t
    by (intro Cons.IH) (auto simp: eq)
  then show ?case by simp
qed

lemma split_words:
  assumes "split_done maxsplit st ws" "num_results st \<le> maxsplit" "trim_pos st = 0"
  shows
    "\<not> in_word st \<Longrightarrow> split_final maxsplit (fold (split_char sep maxsplit) s st) =
       padded maxsplit (ws @ split_ref sep (maxsplit - length ws) s)"
    "in_word st \<Longrightarrow> ws = vs @ [w] \<Longrightarrow> result_pos st = length w \<Longrightarrow>
       split_final maxsplit (fold (split_char sep maxsplit) s st) =
       padded maxsplit (vs @ [w @ takeWhile (\<lambda>c. c \<noteq> sep) s] @
         split_ref sep (maxsplit - length ws) (dropWhile (\<lambda>c. c \<noteq> sep) s))"
  using assms
proof (induction s arbitrary: st ws vs w)
  case Nil
  {
    case 1
    have "split_ref sep (maxsplit - length ws) [] = []" by (cases "maxsplit - length ws") simp_all
    with 1 show ?case by (simp add: split_final_def padded_def split_done_def Let_def)
  next
    case 2
    have "split_ref sep (maxsplit - length ws) [] = []" by (cases "maxsplit - length ws") simp_all
    with 2 show ?case by (simp add: split_final_def padded_def split_done_def Let_def)
  }
next
  case (Cons c s)
  {
    case 1
    show ?case
    proof (cases "c = sep")
      case True
      then have "split_char sep maxsplit c st = st"
        using 1 by (simp add: split_char_def split_done_def)
      with True Cons.IH(1)[of st ws] 1 show ?thesis by simp
    next
      case False
      let ?st = "split_char sep maxsplit c st"
      note f = split_first_char[OF 1(2,3,1,4) False]
      have num: "num_results ?st = Suc (length ws)" using f(1) by (simp add: split_done_def)
      have len: "length ws \<le> maxsplit" using 1(2,3) by (simp add: split_done_def)
      show ?thesis
      proof (cases "length ws = maxsplit")
        case True
        then have "split_final maxsplit (fold (split_char sep maxsplit) s ?st) =
            padded maxsplit (ws @ [rstrip sep ([c] @ s)])"
          using f False by (intro split_last_field) auto
        with True False show ?thesis by simp
      next
        case neq: False
        then obtain k where k: "maxsplit - length ws = Suc k"
          using len by (metis Suc_diff_Suc le_neq_implies_less)
        then have "maxsplit - Suc (length ws) = k" by simp
        moreover have "split_final maxsplit (fold (split_char sep maxsplit) s ?st) =
            padded maxsplit (ws @ [[c] @ takeWhile (\<lambda>c. c \<noteq> sep) s] @
              split_ref sep (maxsplit - length (ws @ [[c]])) (dropWhile (\<lambda>c. c \<noteq> sep) s))"
          using f num neq len by (intro Cons.IH(2)) auto
        ultimately show ?thesis using k False by simp
      qed
    qed
  next
    case 2
    show ?case
    proof (cases "c = sep")
      case True
      let ?st = "split_char sep maxsplit c st"
      have "?st = st\<lparr>in_word := False\<rparr>" using True 2 by (simp add: split_char_def)
      then have "split_final maxsplit (fold (split_char sep maxsplit) s ?st) =
          padded maxsplit (ws @ split_ref sep (maxsplit - length ws) s)"
        using 2 by (intro Cons.IH(1)) (auto simp: split_done_def)
      with True 2 show ?thesis by simp
    next
      case False
      let ?st = "split_char sep maxsplit c st"
      have eq: "?st = split_write c st" using False 2 by (simp add: split_char_def split_enter_def)
      have "split_final maxsplit (fold (split_char sep maxsplit) s ?st) =
          padded maxsplit (vs @ [(w @ [c]) @ takeWhile (\<lambda>c. c \<noteq> sep) s] @
            split_ref sep (maxsplit - length (vs @ [w @ [c]])) (dropWhile (\<lambda>c. c \<noteq> sep) s))"
        using 2 split_done_write[of maxsplit st vs w c] by (intro Cons.IH(2)) (auto simp: eq)
      with False 2 show ?thesis by simp
    qed
  }
qed

lemma split_correct:
  assumes "length result0 = Suc maxsplit"
  shows "split s sep maxsplit result0 = padded maxsplit (split_ref sep maxsplit s)"
  using split_words(1)[of maxsplit
      "\<lparr>num_results = 0, result_pos = 0, trim_pos = 0, in_word = False, result = result0\<rparr>" "[]" sep s]
    assms
  by (simp add: split_def split_final_def split_done_def Let_def)

section \<open>Properties\<close>

text \<open>
  C16: \<open>split\<close> returns the number of the words of the line, at most \<open>maxsplit + 1\<close> of which the last
  is the rest of the line with its inner separators and without the trailing ones, stores them in
  order, and empties the arrays it has no word for, whatever the arrays held before.
\<close>

theorem split_words_of_line:
  assumes "length result0 = Suc maxsplit"
  shows "split s sep maxsplit result0 = padded maxsplit (split_ref sep maxsplit s)"
  using assms by (rule split_correct)

lemma split_words_of_line_witness:
  "split '' STOR  my  file '' (CHR '' '') 1 [''?'', ''?''] = (2, [''STOR'', ''my  file''])"
  using split_words_of_line[of "[''?'', ''?'']" 1 "'' STOR  my  file ''" "CHR '' ''"]
  by (simp add: padded_def rstrip_def)

end
