(* ===== verification/Client.thy ===== *)
theory Client
  imports Vrt Split
begin

text \<open>
  The clients of \<open>source/ftp.c\<close>: their state, replies, and the commands that open no data connection
  (lines 44 to 341 and 508 to 517).

  A client is allocated with \<open>malloc\<close> and reached through its address. \<open>heap\<close> maps the addresses of
  the client structs that exist to their contents, so that using a client that was freed is
  undefined. The array \<open>buf\<close> is kept as the string of its first \<open>offset\<close> characters, whose
  length stands for \<open>offset\<close>. Function pointers are the constructors of two datatypes.
\<close>

definition FTP_BUFFER_SIZE :: nat where "FTP_BUFFER_SIZE = 1024"
definition MAX_CLIENTS :: nat where "MAX_CLIENTS = 5"
definition SRC_PORT :: u16 where "SRC_PORT = 20"
definition EQUIT :: int where "EQUIT = 696969"

section \<open>State\<close>

datatype data_callback = Send_nlst | Send_list | Send_from_file | Recv_to_file
datatype data_cleanup = Cleanup_dirclose | Cleanup_fclose
datatype data_arg = Arg_dir dir_iter | Arg_file int

record client =
  socket :: int
  representation_type :: char
  passive_socket :: int
  data_socket :: int
  cwd :: string
  pending_rename :: string
  restart_marker :: int
  address :: sockaddr_in
  authenticated :: bool
  buf :: string
  data_connection_connected :: bool
  data_callback :: "data_callback option"
  data_connection_callback_arg :: "data_arg option"
  data_connection_cleanup :: "data_cleanup option"
  data_connection_timer :: u64

record ftp_st = vrt_st +
  heap :: "int \<Rightarrow> client option"
  clients :: "int list"
  num_clients :: u8
  passive_port :: u16
  password :: "(int \<times> string) option"

type_synonym ('r, 'z) ftp = "'z ftp_st_scheme \<Rightarrow> ('r \<times> 'z ftp_st_scheme) option"

definition deref :: "int \<Rightarrow> (client, 'z) ftp" where
  "deref a s = (case heap s a of None \<Rightarrow> None | Some c \<Rightarrow> Some (c, s))"

definition modify :: "int \<Rightarrow> (client \<Rightarrow> client) \<Rightarrow> (unit, 'z) ftp" where
  "modify a f s = (case heap s a of None \<Rightarrow> None | Some c \<Rightarrow> Some ((), s\<lparr>heap := (heap s)(a := Some (f c))\<rparr>))"

text \<open>\<open>sprintf\<close> into an array of \<open>n\<close> characters; \<open>split\<close> into two arrays of \<open>FTP_BUFFER_SIZE\<close>.\<close>

definition sprintf :: "nat \<Rightarrow> string \<Rightarrow> string option" where
  "sprintf n text = (if length text + 1 > n then None else Some text)"

definition split2 :: "string \<Rightarrow> (nat \<times> string \<times> string) option" where
  "split2 line = (case split line (CHR '' '') 1 [[], []] of (n, r) \<Rightarrow>
     if FTP_BUFFER_SIZE \<le> length (r ! 0) \<or> FTP_BUFFER_SIZE \<le> length (r ! 1) then None
     else Some (n, r ! 0, r ! 1))"

section \<open>Passwords, replies\<close>

definition set_ftp_password :: "env \<Rightarrow> string option \<Rightarrow> (unit, 'z) ftp" where
  "set_ftp_password E new_password s = do {
     (_, s) \<leftarrow> (case password s of Some (a, _) \<Rightarrow> free E a s | None \<Rightarrow> Some ((), s));
     (case new_password of
        Some p \<Rightarrow> do {
          (a, s) \<leftarrow> malloc E (length p + 1) s;
          if a = 0 then exit_after (die E s) else Some ((), s\<lparr>password := Some (a, p)\<rparr>)
        }
      | None \<Rightarrow> Some ((), s\<lparr>password := None\<rparr>))
   }"

definition compare_ftp_password :: "string \<Rightarrow> 'z ftp_st_scheme \<Rightarrow> bool" where
  "compare_ftp_password attempt s \<longleftrightarrow> (case password s of None \<Rightarrow> True | Some (_, p) \<Rightarrow> p = attempt)"

text \<open>
  \<open>write_reply\<close> sends \<open>msglen\<close> bytes of the array it prints to. A code that does not have three
  digits would overflow it or leave bytes unset.
\<close>

definition reply_text :: "nat \<Rightarrow> string \<Rightarrow> string" where
  "reply_text code msg = dec code @ '' '' @ msg @ CRLF"

definition write_reply :: "env \<Rightarrow> int \<Rightarrow> nat \<Rightarrow> string \<Rightarrow> (int, 'z) ftp" where
  "write_reply E a code msg s = do {
     (c, s) \<leftarrow> deref a s;
     let msglen = 4 + length msg + 2;
     if length (reply_text code msg) \<noteq> msglen then None
     else send_exact E (socket c) (reply_text code msg) s
   }"

definition write_error :: "env \<Rightarrow> int \<Rightarrow> nat \<Rightarrow> int \<Rightarrow> (int, 'z) ftp" where
  "write_error E a code n s = do { (msg, s) \<leftarrow> strerror E n s; write_reply E a code msg s }"

definition close_passive_socket :: "env \<Rightarrow> int \<Rightarrow> (unit, 'z) ftp" where
  "close_passive_socket E a s = do {
     (c, s) \<leftarrow> deref a s;
     if passive_socket c \<ge> 0 then do {
       (_, s) \<leftarrow> net_close_blocking E (passive_socket c) s;
       modify a (\<lambda>c. c\<lparr>passive_socket := -1\<rparr>) s
     } else Some ((), s)
   }"

section \<open>Session commands\<close>

definition ftp_USER :: "env \<Rightarrow> int \<Rightarrow> string \<Rightarrow> (int, 'z) ftp" where
  "ftp_USER E a username s = write_reply E a 331 ''User name okay, need password.'' s"

definition ftp_PASS :: "env \<Rightarrow> int \<Rightarrow> string \<Rightarrow> (int, 'z) ftp" where
  "ftp_PASS E a password_attempt s =
     (if compare_ftp_password password_attempt s then do {
        (_, s) \<leftarrow> modify a (\<lambda>c. c\<lparr>authenticated := True\<rparr>) s;
        write_reply E a 230 ''User logged in, proceed.'' s
      } else write_reply E a 530 ''Login incorrect.'' s)"

definition ftp_REIN :: "env \<Rightarrow> int \<Rightarrow> string \<Rightarrow> (int, 'z) ftp" where
  "ftp_REIN E a rest s = do {
     (_, s) \<leftarrow> close_passive_socket E a s;
     (_, s) \<leftarrow> modify a (\<lambda>c. c\<lparr>cwd := ''/'', representation_type := CHR ''A'', authenticated := False\<rparr>) s;
     write_reply E a 220 ''Service ready for new user.'' s
   }"

definition ftp_QUIT :: "env \<Rightarrow> int \<Rightarrow> string \<Rightarrow> (int, 'z) ftp" where
  "ftp_QUIT E a rest s = do {
     (result, s) \<leftarrow> write_reply E a 221 ''Service closing control connection.'' s;
     Some (if result < 0 then result else - EQUIT, s)
   }"

definition ftp_SYST :: "env \<Rightarrow> int \<Rightarrow> string \<Rightarrow> (int, 'z) ftp" where
  "ftp_SYST E a rest s = write_reply E a 215 ''UNIX Type: L8 Version: ftpii'' s"

definition ftp_TYPE :: "env \<Rightarrow> int \<Rightarrow> string \<Rightarrow> (int, 'z) ftp" where
  "ftp_TYPE E a rest s = do {
     (num_args, typ, param) \<leftarrow> split2 rest;
     if num_args = 0 then write_reply E a 501 ''Syntax error in parameters.'' s
     else if strcaseeq ''A'' typ \<and> (param = [] \<or> strcaseeq ''N'' param) \<or> strcaseeq ''I'' typ \<and> num_args = 1
     then do {
       (_, s) \<leftarrow> modify a (\<lambda>c. c\<lparr>representation_type := char_at typ 0\<rparr>) s;
       msg \<leftarrow> sprintf 15 (''Type set to '' @ typ @ ''.'');
       write_reply E a 200 msg s
     }
     else write_reply E a 501 ''Syntax error in parameters.'' s
   }"

definition ftp_MODE :: "env \<Rightarrow> int \<Rightarrow> string \<Rightarrow> (int, 'z) ftp" where
  "ftp_MODE E a rest s =
     (if strcaseeq ''S'' rest then write_reply E a 200 ''Mode S ok.'' s
      else write_reply E a 501 ''Syntax error in parameters.'' s)"

section \<open>Directory commands\<close>

definition ftp_PWD :: "env \<Rightarrow> int \<Rightarrow> string \<Rightarrow> (int, 'z) ftp" where
  "ftp_PWD E a rest s = do {
     (c, s) \<leftarrow> deref a s;
     msg \<leftarrow> sprintf (MAXPATHLEN E + 24) ([CHR 0x22] @ cwd c @ [CHR 0x22] @ '' is current directory.'');
     write_reply E a 257 msg s
   }"

text \<open>\<open>CWD\<close> and \<open>CDUP\<close> differ in the path and in the reply.\<close>

definition change_dir :: "env \<Rightarrow> int \<Rightarrow> string \<Rightarrow> string \<Rightarrow> (int, 'z) ftp" where
  "change_dir E a path success s = do {
     (c, s) \<leftarrow> deref a s;
     ((r, new), s) \<leftarrow> vrt_chdir E (cwd c) path s;
     (_, s) \<leftarrow> modify a (\<lambda>c. c\<lparr>cwd := new\<rparr>) s;
     if r = 0 then write_reply E a 250 success s else write_error E a 550 (errno s) s
   }"

definition ftp_CWD :: "env \<Rightarrow> int \<Rightarrow> string \<Rightarrow> (int, 'z) ftp" where
  "ftp_CWD E a path s = change_dir E a path ''CWD command successful.'' s"

definition ftp_CDUP :: "env \<Rightarrow> int \<Rightarrow> string \<Rightarrow> (int, 'z) ftp" where
  "ftp_CDUP E a rest s = change_dir E a ''..'' ''CDUP command successful.'' s"

definition ftp_DELE :: "env \<Rightarrow> int \<Rightarrow> string \<Rightarrow> (int, 'z) ftp" where
  "ftp_DELE E a path s = do {
     (c, s) \<leftarrow> deref a s;
     (r, s) \<leftarrow> vrt_unlink E (cwd c) path s;
     if r = 0 then write_reply E a 250 ''File or directory removed.'' s
     else write_error E a 550 (errno s) s
   }"

definition ftp_MKD :: "env \<Rightarrow> int \<Rightarrow> string \<Rightarrow> (int, 'z) ftp" where
  "ftp_MKD E a path s =
     (if path = [] then write_reply E a 501 ''Syntax error in parameters.'' s
      else do {
        (c, s) \<leftarrow> deref a s;
        (r, s) \<leftarrow> vrt_mkdir E (cwd c) path 0x1FF s;
        if r = 0 then do {
          ((_, abspath), s) \<leftarrow> vrt_chdir E (cwd c) path s;
          msg \<leftarrow> sprintf (MAXPATHLEN E + 21) ([CHR 0x22] @ abspath @ [CHR 0x22] @ '' directory created.'');
          write_reply E a 257 msg s
        } else write_error E a 550 (errno s) s
      })"

definition ftp_RNFR :: "env \<Rightarrow> int \<Rightarrow> string \<Rightarrow> (int, 'z) ftp" where
  "ftp_RNFR E a path s =
     (if length path + 1 > MAXPATHLEN E then None else do {
        (_, s) \<leftarrow> modify a (\<lambda>c. c\<lparr>pending_rename := path\<rparr>) s;
        write_reply E a 350 ''Ready for RNTO.'' s
      })"

definition ftp_RNTO :: "env \<Rightarrow> int \<Rightarrow> string \<Rightarrow> (int, 'z) ftp" where
  "ftp_RNTO E a path s = do {
     (c, s) \<leftarrow> deref a s;
     if pending_rename c = [] then write_reply E a 503 ''RNFR required first.'' s
     else do {
       (r, s) \<leftarrow> vrt_rename E (cwd c) (pending_rename c) path s;
       (result, s) \<leftarrow> (if r = 0 then write_reply E a 250 ''Rename successful.'' s
         else write_error E a 550 (errno s) s);
       (_, s) \<leftarrow> modify a (\<lambda>c. c\<lparr>pending_rename := []\<rparr>) s;
       Some (result, s)
     }
   }"

definition ftp_SIZE :: "env \<Rightarrow> int \<Rightarrow> string \<Rightarrow> (int, 'z) ftp" where
  "ftp_SIZE E a path s = do {
     (c, s) \<leftarrow> deref a s;
     ((r, st), s) \<leftarrow> vrt_stat E (cwd c) path (garbage_stat E) s;
     if r = 0 then do {
       size_buf \<leftarrow> sprintf 12 (dec (unat (st_size st)));
       write_reply E a 213 size_buf s
     } else write_error E a 550 (errno s) s
   }"

end
