(* ===== verification/Ports.thy ===== *)
theory Ports
  imports Client
begin

text \<open>
  \<open>PASV\<close>, \<open>PORT\<close> and \<open>REST\<close> of \<open>source/ftp.c\<close>, with the number formats of \<open>sscanf\<close> they use.
\<close>

section \<open>Scanning numbers\<close>

definition isspace :: "char \<Rightarrow> bool" where
  "isspace c \<longleftrightarrow> c = CHR '' '' \<or> (let n = (of_char c :: nat) in 9 \<le> n \<and> n \<le> 13)"

definition digit_value :: "char \<Rightarrow> nat" where
  "digit_value c = (let n = (of_char c :: nat) in
     if 48 \<le> n \<and> n \<le> 57 then n - 48
     else if 97 \<le> n \<and> n \<le> 102 then n - 87
     else if 65 \<le> n \<and> n \<le> 70 then n - 55 else 16)"

definition numeral_value :: "nat \<Rightarrow> string \<Rightarrow> nat" where
  "numeral_value base ds = fold (\<lambda>d n. base * n + digit_value d) ds 0"

fun split_sign :: "string \<Rightarrow> bool \<times> string" where
  "split_sign (c # cs) =
     (if c = CHR ''-'' then (True, cs) else if c = CHR ''+'' then (False, cs) else (False, c # cs))"
| "split_sign [] = (False, [])"

text \<open>
  \<open>%3u\<close>: white space is skipped; a sign and digits, three characters at most together, are
  converted like \<open>strtoul\<close> does, a minus sign negating in 32 bits. No digit is a failure.
\<close>

definition scan_u3 :: "string \<Rightarrow> (u32 \<times> string) option" where
  "scan_u3 str =
     (let s1 = dropWhile isspace str;
          (neg, body) = split_sign (take 3 s1);
          ds = takeWhile (\<lambda>c. digit_value c < 10) body;
          used = (length (take 3 s1) - length body) + length ds;
          v = of_nat (numeral_value 10 ds)
      in if ds = [] then None else Some (if neg then - v else v, drop used s1))"

text \<open>The format \<open>"%3u,%3u,..."\<close> with \<open>n\<close> numbers.\<close>

fun scan_list :: "nat \<Rightarrow> string \<Rightarrow> u32 list option" where
  "scan_list 0 str = Some []"
| "scan_list (Suc n) str = (case scan_u3 str of
       None \<Rightarrow> None
     | Some (v, rest) \<Rightarrow>
         if n = 0 then Some [v]
         else (case rest of
             [] \<Rightarrow> None
           | c # cs \<Rightarrow> if c = CHR '','' then map_option (\<lambda>vs. v # vs) (scan_list n cs) else None))"

text \<open>
  \<open>%lli\<close>: the base is 16 after \<open>0x\<close> and a hexadecimal digit, else 8 after \<open>0\<close>, else 10; the value is
  limited to 64 bits like that of \<open>strtoll\<close>.
\<close>

definition scan_lli :: "string \<Rightarrow> int option" where
  "scan_lli str =
     (let (neg, body) = split_sign (dropWhile isspace str);
          hex = (length body > 2 \<and> body ! 0 = CHR ''0'' \<and> (body ! 1 = CHR ''x'' \<or> body ! 1 = CHR ''X'') \<and>
                 digit_value (body ! 2) < 16);
          base = (if hex then 16 else if body \<noteq> [] \<and> hd body = CHR ''0'' then 8 else 10);
          ds = takeWhile (\<lambda>c. digit_value c < base) (if hex then drop 2 body else body);
          v = int (numeral_value base ds)
      in if ds = [] then None
         else Some (max (- (2 ^ 63)) (min (2 ^ 63 - 1) (if neg then - v else v))))"

section \<open>The commands\<close>

definition passive_reply :: "u32 \<Rightarrow> u16 \<Rightarrow> string" where
  "passive_reply ip port = ''Entering Passive Mode ('' @
     dec (unat ((drop_bit 24 ip) AND 0xff)) @ '','' @ dec (unat ((drop_bit 16 ip) AND 0xff)) @ '','' @
     dec (unat ((drop_bit 8 ip) AND 0xff)) @ '','' @ dec (unat (ip AND 0xff)) @ '','' @
     dec (unat ((drop_bit 8 port) AND 0xff)) @ '','' @ dec (unat (port AND 0xff)) @ '').''"

definition ftp_PASV :: "env \<Rightarrow> int \<Rightarrow> string \<Rightarrow> (int, 'z) ftp" where
  "ftp_PASV E a rest s = do {
     (_, s) \<leftarrow> close_passive_socket E a s;
     (r, s) \<leftarrow> ext E (CNet Net_socket) s;
     let k = ret r;
     (_, s) \<leftarrow> modify a (\<lambda>c. c\<lparr>passive_socket := k\<rparr>) s;
     if k < 0 then write_reply E a 520 ''Unable to create listening socket.'' s
     else do {
       (_, s) \<leftarrow> set_blocking E k False s;
       let port = passive_port s;
       let s = s\<lparr>passive_port := port + 1\<rparr>;
       (r, s) \<leftarrow> ext E (CNet (Net_bind k \<lparr>sin_addr = INADDR_ANY, sin_port = port\<rparr>)) s;
       if ret r < 0 then do {
         (_, s) \<leftarrow> close_passive_socket E a s;
         write_reply E a 520 ''Unable to bind listening socket.'' s
       } else do {
         (r, s) \<leftarrow> ext E (CNet (Net_listen k 1)) s;
         if ret r < 0 then do {
           (_, s) \<leftarrow> close_passive_socket E a s;
           write_reply E a 520 ''Unable to listen on socket.'' s
         } else do {
           (r, s) \<leftarrow> ext E (CNet Net_gethostip) s;
           reply \<leftarrow> sprintf 49 (passive_reply (word_of_int (ret r)) port);
           write_reply E a 227 reply s
         }
       }
     }
   }"

definition dotted :: "u32 list \<Rightarrow> string" where
  "dotted vs = dec (unat (vs ! 0)) @ ''.'' @ dec (unat (vs ! 1)) @ ''.'' @ dec (unat (vs ! 2)) @ ''.'' @
     dec (unat (vs ! 3))"

definition port_number :: "u32 \<Rightarrow> u32 \<Rightarrow> u16" where
  "port_number p1 p2 = ucast (push_bit 8 (p1 AND 0xff) OR (p2 AND 0xff))"

definition ftp_PORT :: "env \<Rightarrow> int \<Rightarrow> string \<Rightarrow> (int, 'z) ftp" where
  "ftp_PORT E a portspec s = (case scan_list 6 portspec of
       None \<Rightarrow> write_reply E a 501 ''Syntax error in parameters.'' s
     | Some vs \<Rightarrow> do {
         addr_str \<leftarrow> sprintf 44 (dotted vs);
         (r, s) \<leftarrow> ext E (CSys (Inet_aton addr_str)) s;
         if ret r = 0 then write_reply E a 501 ''Syntax error in parameters.'' s
         else do {
           (_, s) \<leftarrow> close_passive_socket E a s;
           (_, s) \<leftarrow> modify a (\<lambda>c. c\<lparr>address := \<lparr>sin_addr = out r, sin_port = port_number (vs ! 4) (vs ! 5)\<rparr>\<rparr>) s;
           write_reply E a 200 ''PORT command successful.'' s
         }
       })"

definition ftp_REST :: "env \<Rightarrow> int \<Rightarrow> string \<Rightarrow> (int, 'z) ftp" where
  "ftp_REST E a offset_str s = (case scan_lli offset_str of
       None \<Rightarrow> write_reply E a 501 ''Syntax error in parameters.'' s
     | Some offset \<Rightarrow>
         if offset < 0 then write_reply E a 501 ''Syntax error in parameters.'' s
         else do {
           (_, s) \<leftarrow> modify a (\<lambda>c. c\<lparr>restart_marker := offset\<rparr>) s;
           msg \<leftarrow> sprintf FTP_BUFFER_SIZE (''Restart position accepted ('' @ dec_int offset @ '').'');
           write_reply E a 350 msg s
         })"

end
