(* ===== verification/Data.thy ===== *)
theory Data
  imports Ports
begin

text \<open>
  Data connections of \<open>source/ftp.c\<close>: the commands that open one (lines 343 to 506), what is sent
  over it, and the release of its resources (lines 657 to 670).
\<close>

section \<open>Opening\<close>

definition fclose :: "env \<Rightarrow> int \<Rightarrow> 'z base_scheme \<Rightarrow> (int \<times> 'z base_scheme) option" where
  "fclose E f s = do { (r, s) \<leftarrow> ext_on (File f) E (CFile (Fclose f)) s; Some (ret r, s) }"

definition prepare_data_connection_active :: "env \<Rightarrow> int \<Rightarrow> (int, 'z) ftp" where
  "prepare_data_connection_active E a s = do {
     (r, s) \<leftarrow> ext E (CNet Net_socket) s;
     let k = ret r;
     if k < 0 then Some (k, s) else do {
       (_, s) \<leftarrow> set_blocking E k False s;
       (r, s) \<leftarrow> ext E (CNet (Net_bind k \<lparr>sin_addr = INADDR_ANY, sin_port = SRC_PORT\<rparr>)) s;
       if ret r < 0 then do { (_, s) \<leftarrow> net_close E k s; Some (ret r, s) }
       else do {
         (_, s) \<leftarrow> modify a (\<lambda>c. c\<lparr>data_socket := k\<rparr>) s;
         Some (0, s)
       }
     }
   }"

definition prepare_data_connection_passive :: "env \<Rightarrow> int \<Rightarrow> (int, 'z) ftp" where
  "prepare_data_connection_passive E a s = do {
     (_, s) \<leftarrow> modify a (\<lambda>c. c\<lparr>data_socket := passive_socket c\<rparr>) s;
     Some (0, s)
   }"

definition prepare_data_connection ::
  "env \<Rightarrow> int \<Rightarrow> data_callback \<Rightarrow> data_arg \<Rightarrow> data_cleanup \<Rightarrow> (int, 'z) ftp" where
  "prepare_data_connection E a callback arg cleanup s = do {
     (result, s) \<leftarrow> write_reply E a 150 ''Transferring data.'' s;
     if result < 0 then Some (result, s) else do {
       (c, s) \<leftarrow> deref a s;
       (result, s) \<leftarrow> (if passive_socket c \<ge> 0 then prepare_data_connection_passive E a s
         else prepare_data_connection_active E a s);
       if result < 0
       then write_reply E a 520 ''Closing data connection, error occurred during transfer.'' s
       else do {
         (now, s) \<leftarrow> gettime E s;
         (_, s) \<leftarrow> modify a (\<lambda>c. c\<lparr>data_connection_connected := False, data_callback := Some callback,
             data_connection_callback_arg := Some arg, data_connection_cleanup := Some cleanup,
             data_connection_timer := now + secs_to_ticks E 30\<rparr>) s;
         Some (result, s)
       }
     }
   }"

section \<open>Listings\<close>

text \<open>
  The loops keep the local variables \<open>filename\<close> and \<open>st\<close>. In \<open>send_nlst\<close> the array \<open>filename\<close> has
  room for \<open>MAXPATHLEN + 2\<close> characters; in \<open>send_list\<close> it has room for \<open>MAXPATHLEN\<close>, which
  \<open>vrt_dirnext\<close> can overflow, and \<open>line\<close> for \<open>MAXPATHLEN + 59\<close>.
\<close>

partial_function (option) send_nlst_loop ::
  "env \<Rightarrow> int \<Rightarrow> dir_iter \<Rightarrow> string \<Rightarrow> stat \<Rightarrow> 'z vrt_st_scheme \<Rightarrow> (int \<times> 'z vrt_st_scheme) option" where
  "send_nlst_loop E k dir filename st s = do {
     ((r, filename, st), s) \<leftarrow> vrt_dirnext E dir filename st s;
     if r \<noteq> 0 then Some (0, s) else do {
       line \<leftarrow> sprintf (MAXPATHLEN E + 2) (filename @ CRLF);
       (result, s) \<leftarrow> send_exact E k line s;
       if result < 0 then Some (result, s) else send_nlst_loop E k dir line st s
     }
   }"

declare send_nlst_loop.simps [code]

definition send_nlst :: "env \<Rightarrow> int \<Rightarrow> dir_iter \<Rightarrow> 'z vrt_st_scheme \<Rightarrow> (int \<times> 'z vrt_st_scheme) option" where
  "send_nlst E k dir s = send_nlst_loop E k dir [] (garbage_stat E) s"

definition pad_left :: "nat \<Rightarrow> string \<Rightarrow> string" where
  "pad_left n str = replicate (n - length str) (CHR '' '') @ str"

definition list_line :: "stat \<Rightarrow> string \<Rightarrow> string \<Rightarrow> string" where
  "list_line st timestamp filename =
     [if st_mode st AND S_IFDIR \<noteq> 0 then CHR ''d'' else CHR ''-''] @ ''rwxr-xr-x    1 0        0     '' @
     pad_left 10 (dec (unat (st_size st))) @ '' '' @ timestamp @ '' '' @ filename @ CRLF"

text \<open>A line fits the array of \<open>send_list\<close> if the name does and the size has no more than twelve digits.\<close>

lemma list_line_fits:
  assumes "length name < m" "unat (st_size st) < 10 ^ 12" "length timestamp \<le> 12"
  shows "length (list_line st timestamp name) < m + 59"
proof -
  have "length (dec (unat (st_size st))) \<le> 12" using assms(2) by (simp add: dec_length)
  then show ?thesis using assms(1,3) by (simp add: list_line_def pad_left_def CRLF_def)
qed

text \<open>\<open>strftime\<close> with twelve characters of room; a longer result leaves the array unset.\<close>

definition format_time :: "env \<Rightarrow> int \<Rightarrow> 'z base_scheme \<Rightarrow> (string \<times> 'z base_scheme) option" where
  "format_time E t s = do {
     (r, s) \<leftarrow> ext E (CSys (Strftime t)) s;
     if length (data r) > 12 then None else Some (data r, s)
   }"

partial_function (option) send_list_loop ::
  "env \<Rightarrow> int \<Rightarrow> dir_iter \<Rightarrow> string \<Rightarrow> stat \<Rightarrow> 'z vrt_st_scheme \<Rightarrow> (int \<times> 'z vrt_st_scheme) option" where
  "send_list_loop E k dir filename st s = do {
     ((r, filename, st), s) \<leftarrow> vrt_dirnext E dir filename st s;
     if r \<noteq> 0 then Some (0, s) else do {
       filename \<leftarrow> sprintf (MAXPATHLEN E) filename;
       (timestamp, s) \<leftarrow> format_time E (st_mtime st) s;
       line \<leftarrow> sprintf (MAXPATHLEN E + 59) (list_line st timestamp filename);
       (result, s) \<leftarrow> send_exact E k line s;
       if result < 0 then Some (result, s) else send_list_loop E k dir filename st s
     }
   }"

declare send_list_loop.simps [code]

definition send_list :: "env \<Rightarrow> int \<Rightarrow> dir_iter \<Rightarrow> 'z vrt_st_scheme \<Rightarrow> (int \<times> 'z vrt_st_scheme) option" where
  "send_list E k dir s = send_list_loop E k dir [] (garbage_stat E) s"

section \<open>The commands\<close>

text \<open>The end of \<open>NLST\<close> and of \<open>LIST\<close>.\<close>

definition open_listing :: "env \<Rightarrow> int \<Rightarrow> string \<Rightarrow> data_callback \<Rightarrow> (int, 'z) ftp" where
  "open_listing E a path callback s = do {
     (c, s) \<leftarrow> deref a s;
     (dir, s) \<leftarrow> vrt_diropen E (cwd c) (if path = [] then ''.'' else path) s;
     (case dir of
        None \<Rightarrow> write_error E a 550 (errno s) s
      | Some d \<Rightarrow> do {
          (result, s) \<leftarrow> prepare_data_connection E a callback (Arg_dir d) Cleanup_dirclose s;
          if result < 0 then do { (_, s) \<leftarrow> vrt_dirclose E d s; Some (result, s) }
          else Some (result, s)
        })
   }"

definition ftp_NLST :: "env \<Rightarrow> int \<Rightarrow> string \<Rightarrow> (int, 'z) ftp" where
  "ftp_NLST E a path s = open_listing E a path Send_nlst s"

definition ftp_LIST :: "env \<Rightarrow> int \<Rightarrow> string \<Rightarrow> (int, 'z) ftp" where
  "ftp_LIST E a path s =
     (if path \<noteq> [] \<and> hd path = CHR ''-'' then do {
        (_, flags, rest) \<leftarrow> split2 path;
        open_listing E a rest Send_list s
      } else open_listing E a path Send_list s)"

text \<open>
  A transfer of the open file \<open>f\<close>. \<open>seek_file\<close> moves to the restart marker, when there is one; its
  result says whether that went well, else the file is closed and the error replied.
\<close>

definition transfer_file :: "env \<Rightarrow> int \<Rightarrow> data_callback \<Rightarrow> int \<Rightarrow> (int, 'z) ftp" where
  "transfer_file E a callback f s = do {
     (result, s) \<leftarrow> prepare_data_connection E a callback (Arg_file f) Cleanup_fclose s;
     if result < 0 then do { (_, s) \<leftarrow> fclose E f s; Some (result, s) } else Some (result, s)
   }"

definition seek_fails :: "env \<Rightarrow> int \<Rightarrow> int \<Rightarrow> 'z base_scheme \<Rightarrow> (bool \<times> 'z base_scheme) option" where
  "seek_fails E f marker s =
     (if marker = 0 then Some (False, s) else do {
        (r, s) \<leftarrow> ext_on (File f) E (CFile (Lseek f marker)) s;
        Some (ret r \<noteq> marker, s)
      })"

definition seek_error :: "env \<Rightarrow> int \<Rightarrow> int \<Rightarrow> (int, 'z) ftp" where
  "seek_error E a f s = do {
     let lseek_error = errno s;
     (_, s) \<leftarrow> fclose E f s;
     (_, s) \<leftarrow> modify a (\<lambda>c. c\<lparr>restart_marker := 0\<rparr>) s;
     write_error E a 550 lseek_error s
   }"

definition ftp_RETR :: "env \<Rightarrow> int \<Rightarrow> string \<Rightarrow> (int, 'z) ftp" where
  "ftp_RETR E a path s = do {
     (c, s) \<leftarrow> deref a s;
     (f, s) \<leftarrow> vrt_fopen E (cwd c) path ''rb'' s;
     if f = 0 then write_error E a 550 (errno s) s
     else do {
       (bad, s) \<leftarrow> seek_fails E f (restart_marker c) s;
       if bad then seek_error E a f s
       else do {
         (_, s) \<leftarrow> modify a (\<lambda>c. c\<lparr>restart_marker := 0\<rparr>) s;
         transfer_file E a Send_from_file f s
       }
     }
   }"

definition stor_or_append :: "env \<Rightarrow> int \<Rightarrow> int \<Rightarrow> (int, 'z) ftp" where
  "stor_or_append E a f s =
     (if f = 0 then write_error E a 550 (errno s) s else transfer_file E a Recv_to_file f s)"

definition ftp_STOR :: "env \<Rightarrow> int \<Rightarrow> string \<Rightarrow> (int, 'z) ftp" where
  "ftp_STOR E a path s = do {
     (c, s) \<leftarrow> deref a s;
     (f, s) \<leftarrow> vrt_fopen E (cwd c) path ''wb'' s;
     (bad, s) \<leftarrow> (if f = 0 then Some (False, s) else seek_fails E f (restart_marker c) s);
     if bad then seek_error E a f s
     else do {
       (_, s) \<leftarrow> modify a (\<lambda>c. c\<lparr>restart_marker := 0\<rparr>) s;
       stor_or_append E a f s
     }
   }"

definition ftp_APPE :: "env \<Rightarrow> int \<Rightarrow> string \<Rightarrow> (int, 'z) ftp" where
  "ftp_APPE E a path s = do {
     (c, s) \<leftarrow> deref a s;
     (f, s) \<leftarrow> vrt_fopen E (cwd c) path ''ab'' s;
     stor_or_append E a f s
   }"

section \<open>Running and releasing\<close>

text \<open>
  Calling a callback or a cleanup function with the argument stored for it. One that gets an
  argument it does not expect, or NULL, is undefined.
\<close>

fun run_callback ::
  "env \<Rightarrow> data_callback \<Rightarrow> int \<Rightarrow> data_arg option \<Rightarrow> 'z vrt_st_scheme \<Rightarrow> (int \<times> 'z vrt_st_scheme) option" where
  "run_callback E Send_nlst k (Some (Arg_dir d)) s = send_nlst E k d s"
| "run_callback E Send_list k (Some (Arg_dir d)) s = send_list E k d s"
| "run_callback E Send_from_file k (Some (Arg_file f)) s = send_from_file E k f s"
| "run_callback E Recv_to_file k (Some (Arg_file f)) s = recv_to_file E k f s"
| "run_callback E _ k _ s = None"

fun run_cleanup ::
  "env \<Rightarrow> data_cleanup \<Rightarrow> data_arg option \<Rightarrow> 'z vrt_st_scheme \<Rightarrow> (int \<times> 'z vrt_st_scheme) option" where
  "run_cleanup E Cleanup_dirclose (Some (Arg_dir d)) s = vrt_dirclose E d s"
| "run_cleanup E Cleanup_fclose (Some (Arg_file f)) s = fclose E f s"
| "run_cleanup E _ _ s = None"

definition cleanup_data_resources :: "env \<Rightarrow> int \<Rightarrow> (unit, 'z) ftp" where
  "cleanup_data_resources E a s = do {
     (c, s) \<leftarrow> deref a s;
     (_, s) \<leftarrow> (if data_socket c \<ge> 0 \<and> data_socket c \<noteq> passive_socket c
       then do { (_, s) \<leftarrow> net_close_blocking E (data_socket c) s; Some ((), s) } else Some ((), s));
     (_, s) \<leftarrow> modify a (\<lambda>c. c\<lparr>data_socket := -1, data_connection_connected := False, data_callback := None\<rparr>) s;
     (_, s) \<leftarrow> (case data_connection_cleanup c of
         Some f \<Rightarrow> do { (_, s) \<leftarrow> run_cleanup E f (data_connection_callback_arg c) s; Some ((), s) }
       | None \<Rightarrow> Some ((), s));
     modify a (\<lambda>c. c\<lparr>data_connection_callback_arg := None, data_connection_cleanup := None,
       data_connection_timer := 0\<rparr>) s
   }"

end
