(* ===== verification/Ownership.thy ===== *)
theory Ownership
  imports Data
begin

text \<open>
  What a client owns, and that every operation of a session keeps it: the invariant \<open>good\<close>, stated for
  one client and a set \<open>F\<close> of resources that belong to somebody else, in the manner of a frame
  rule. \<open>stays\<close> adds what an operation on one client leaves alone.
\<close>

section \<open>Ownership\<close>

fun arg_res :: "data_arg \<Rightarrow> resource" where
  "arg_res (Arg_dir d) = iter_res d"
| "arg_res (Arg_file f) = File f"

definition socks :: "client \<Rightarrow> resource list" where
  "socks c = Sock (socket c) #
     (if passive_socket c \<ge> 0 then [Sock (passive_socket c)] else []) @
     (if data_socket c \<ge> 0 \<and> data_socket c \<noteq> passive_socket c then [Sock (data_socket c)] else [])"

definition data_res :: "client \<Rightarrow> resource list" where
  "data_res c = (case data_connection_callback_arg c of None \<Rightarrow> [] | Some x \<Rightarrow> [arg_res x])"

definition pw_res :: "'z ftp_st_scheme \<Rightarrow> resource list" where
  "pw_res s = (case password s of None \<Rightarrow> [] | Some (p, _) \<Rightarrow> [Mem p])"

definition owned :: "int \<Rightarrow> client \<Rightarrow> 'z ftp_st_scheme \<Rightarrow> resource list" where
  "owned a c s = Mem a # pw_res s @ socks c @ data_res c"

text \<open>The three fields of a data connection fit together.\<close>

definition data_ok :: "(int \<Rightarrow> nat option) \<Rightarrow> client \<Rightarrow> bool" where
  "data_ok v c \<longleftrightarrow> (case data_connection_callback_arg c of
       None \<Rightarrow> data_callback c = None \<and> data_connection_cleanup c = None \<and> data_socket c = -1
     | Some (Arg_dir d) \<Rightarrow> (data_callback c = Some Send_nlst \<or> data_callback c = Some Send_list) \<and>
         data_connection_cleanup c = Some Cleanup_dirclose \<and> iter_ok v d
     | Some (Arg_file f) \<Rightarrow> (data_callback c = Some Send_from_file \<or> data_callback c = Some Recv_to_file) \<and>
         data_connection_cleanup c = Some Cleanup_fclose)"

definition client_ok :: "env \<Rightarrow> (int \<Rightarrow> nat option) \<Rightarrow> client \<Rightarrow> bool" where
  "client_ok E v c \<longleftrightarrow> cwd_form (cwd c) \<and> NUL \<notin> set (cwd c) \<and> length (cwd c) < MAXPATHLEN E \<and>
     0 \<le> restart_marker c \<and> 0 \<le> socket c \<and> data_ok v c"

definition good :: "env \<Rightarrow> int \<Rightarrow> resource set \<Rightarrow> 'z ftp_st_scheme \<Rightarrow> bool" where
  "good E a F s \<longleftrightarrow> fs_wf s \<and> a \<noteq> 0 \<and> (\<forall>p q. password s = Some (p, q) \<longrightarrow> p \<noteq> 0) \<and>
     (\<exists>c. heap s a = Some c \<and> client_ok E (viters s) c \<and> distinct (owned a c s) \<and>
        set (owned a c s) \<inter> F = {} \<and> set (owned a c s) \<union> F \<subseteq> held (trace s))"

definition stays :: "env \<Rightarrow> int \<Rightarrow> resource set \<Rightarrow> 'z ftp_st_scheme \<Rightarrow> 'z ftp_st_scheme \<Rightarrow> bool" where
  "stays E a F s s' \<longleftrightarrow> good E a F s' \<and> extends s s' \<and> (\<forall>b. b \<noteq> a \<longrightarrow> heap s' b = heap s b) \<and>
     clients s' = clients s \<and> num_clients s' = num_clients s \<and>
     (\<forall>x. Mem x \<in> F \<longrightarrow> viters s' x = viters s x) \<and>
     (\<exists>c c'. heap s a = Some c \<and> heap s' a = Some c' \<and> socket c' = socket c \<and> buf c' = buf c)"

lemma stays_good: "stays E a F s s' \<Longrightarrow> good E a F s'"
  by (simp add: stays_def)

lemma stays_refl: "good E a F s \<Longrightarrow> stays E a F s s"
  by (auto simp: stays_def good_def)

lemma stays_trans [trans]: "stays E a F s s' \<Longrightarrow> stays E a F s' s'' \<Longrightarrow> stays E a F s s''"
proof -
  assume 1: "stays E a F s s'" and 2: "stays E a F s' s''"
  note d1 = 1[unfolded stays_def] and d2 = 2[unfolded stays_def]
  from d1 obtain c c1 where c: "heap s a = Some c" "heap s' a = Some c1" "socket c1 = socket c" "buf c1 = buf c"
    by blast
  from d2 obtain c2 c3 where c': "heap s' a = Some c2" "heap s'' a = Some c3" "socket c3 = socket c2" "buf c3 = buf c2"
    by blast
  have "c2 = c1" using c(2) c'(1) by (simp only: option.inject)
  then have "\<exists>c c'. heap s a = Some c \<and> heap s'' a = Some c' \<and> socket c' = socket c \<and> buf c' = buf c"
    using c c' by metis
  moreover have "good E a F s''" using d2 by blast
  moreover have "extends s s''" using d1 d2 logs_trans by metis
  moreover have "clients s'' = clients s" "num_clients s'' = num_clients s" using d1 d2 by metis+
  moreover have "\<forall>b. b \<noteq> a \<longrightarrow> heap s'' b = heap s b" using d1 d2 by metis
  moreover have "\<forall>x. Mem x \<in> F \<longrightarrow> viters s'' x = viters s x" using d1 d2 by metis
  ultimately show ?thesis unfolding stays_def by blast
qed

lemma good_weaken: "good E a F s \<Longrightarrow> G \<subseteq> F \<Longrightarrow> good E a G s"
  unfolding good_def by blast

lemma stays_weaken: "stays E a F s s' \<Longrightarrow> G \<subseteq> F \<Longrightarrow> stays E a G s s'"
  unfolding stays_def using good_weaken by blast

lemma good_wf: "good E a F s \<Longrightarrow> fs_wf s"
  by (simp add: good_def)

lemma good_client: "good E a F s \<Longrightarrow> \<exists>c. heap s a = Some c \<and> client_ok E (viters s) c"
  by (auto simp: good_def)

section \<open>Operations below the clients\<close>

definition upper :: "'z ftp_st_scheme \<Rightarrow> (int \<Rightarrow> nat option) \<times> (int \<Rightarrow> client option) \<times> int list \<times> u8 \<times> (int \<times> string) option" where
  "upper s = (viters s, heap s, clients s, num_clients s, password s)"

lemma owned_upper: "upper s' = upper s \<Longrightarrow> owned a c s' = owned a c s"
  by (simp add: owned_def pw_res_def upper_def)

lemma logs_fields [simp]:
  "logs C s (s'\<lparr>heap := h\<rparr>) \<longleftrightarrow> logs C s s'" "logs C s (s'\<lparr>clients := p\<rparr>) \<longleftrightarrow> logs C s s'"
  "logs C s (s'\<lparr>num_clients := n\<rparr>) \<longleftrightarrow> logs C s s'" "logs C s (s'\<lparr>password := w\<rparr>) \<longleftrightarrow> logs C s s'"
  "logs C (s\<lparr>heap := h\<rparr>) s' \<longleftrightarrow> logs C s s'"
  by (simp_all add: logs_def)

lemma logs_below [simp]:
  "logs C s (s'\<lparr>viters := v\<rparr>) \<longleftrightarrow> logs C s s'" "logs C s (s''\<lparr>reset_flag := b\<rparr>) \<longleftrightarrow> logs C s s''"
  by (simp_all add: logs_def)

lemma stays_upper:
  assumes "good E a F s" "extends s s'" "upper s' = upper s" "held (trace s') = held (trace s)"
    "map fixed_part (VIRTUAL_PARTITIONS s') = map fixed_part (VIRTUAL_PARTITIONS s)"
  shows "stays E a F s s'"
  using assms owned_upper[OF assms(3)]
  by (auto simp: stays_def good_def fs_wf_def upper_def)

lemma base_more_upper:
  "base.more s' = base.more s \<Longrightarrow> upper s' = upper s \<and> VIRTUAL_PARTITIONS s' = VIRTUAL_PARTITIONS s"
  by (cases s; cases s') (simp add: upper_def)

lemma net_more_upper:
  "net_st.more s' = net_st.more s \<Longrightarrow> upper s' = upper s \<and> VIRTUAL_PARTITIONS s' = VIRTUAL_PARTITIONS s"
  by (cases s; cases s') (simp add: upper_def)

lemma fs_more_upper: "fs_st.more s' = fs_st.more s \<Longrightarrow> upper s' = upper s"
  by (cases s; cases s') (simp add: upper_def)

lemma stays_base:
  "good E a F s \<Longrightarrow> extends s s' \<Longrightarrow> base.more s' = base.more s \<Longrightarrow> held (trace s') = held (trace s) \<Longrightarrow>
   stays E a F s s'"
  by (drule base_more_upper, elim conjE) (rule stays_upper, simp_all)

lemma stays_keeps: "good E a F s \<Longrightarrow> keeps s s' \<Longrightarrow> stays E a F s s'"
  by (rule stays_base) (auto simp: keeps_def dest: frame_more frame_extends)

lemma stays_net_frame:
  "good E a F s \<Longrightarrow> net_frame C s s' \<Longrightarrow> (\<And>c. C c \<Longrightarrow> neutral c) \<Longrightarrow> stays E a F s s'"
  by (rule stays_upper)
    (auto simp: net_frame_def dest!: net_more_upper intro!: logs_neutral_held elim: logs_mono logs_extends)

lemma stays_fs_frame: "good E a F s \<Longrightarrow> fs_frame s s' \<Longrightarrow> stays E a F s s'"
  by (rule stays_upper) (auto simp: fs_frame_def dest: fs_more_upper logs_extends)

lemma stays_errno: "good E a F s \<Longrightarrow> neutral c \<Longrightarrow> returns (ext E c s) (\<lambda>r s'. stays E a F s s')"
  by (rule returns_mono[OF ext_neutral[where C = "\<lambda>_. True"]]) (auto intro: stays_base dest: frame_more frame_extends)

section \<open>Operations on a client\<close>

lemma deref_good:
  assumes "good E a F s"
  shows "returns (deref a s) (\<lambda>c s'. s' = s \<and> heap s a = Some c \<and> client_ok E (viters s) c)"
  using assms by (auto simp: deref_def good_def)

text \<open>A change that owns the same and keeps the invariant, the socket and the buffer.\<close>

definition same_owned :: "client \<Rightarrow> client \<Rightarrow> bool" where
  "same_owned c c' \<longleftrightarrow> socks c' = socks c \<and> data_res c' = data_res c \<and> socket c' = socket c \<and> buf c' = buf c"

lemma modify_good:
  assumes "good E a F s" "\<And>c. heap s a = Some c \<Longrightarrow> client_ok E (viters s) c \<Longrightarrow>
     client_ok E (viters s) (f c) \<and> same_owned c (f c)"
  shows "returns (modify a f s) (\<lambda>_ s'. stays E a F s s' \<and> (\<exists>c. heap s a = Some c \<and> heap s' a = Some (f c)))"
proof -
  obtain c where c: "heap s a = Some c" "client_ok E (viters s) c" using good_client[OF assms(1)] by blast
  have so: "same_owned c (f c)" using assms(2)[OF c] by simp
  have "owned a (f c) (s\<lparr>heap := (heap s)(a := Some (f c))\<rparr>) = owned a c s"
    using so by (simp add: owned_def pw_res_def same_owned_def)
  then show ?thesis
    using assms(1) c so assms(2)[OF c]
    by (auto simp: modify_def stays_def good_def fs_wf_def same_owned_def)
qed

definition laws :: "env \<Rightarrow> bool" where
  "laws E \<longleftrightarrow> devices_ok E \<and> write_bounded E \<and> read_bounded E \<and> names_short E \<and>
     FTP_BUFFER_SIZE \<le> MAXPATHLEN E"

lemma laws_fresh: "laws E \<Longrightarrow> fresh E"
  by (simp add: laws_def devices_ok_def)

text \<open>A reply code has three digits.\<close>

definition is_code :: "nat \<Rightarrow> bool" where
  "is_code n \<longleftrightarrow> 100 \<le> n \<and> n < 1000"

lemma reply_length: "is_code n \<Longrightarrow> length (reply_text n msg) = 4 + length msg + 2"
  using dec_length_eq[of 2 n] by (simp add: is_code_def reply_text_def CRLF_def)

lemma write_reply_good:
  assumes "good E a F s" "write_bounded E" "is_code n"
  shows "returns (write_reply E a n msg s) (\<lambda>r s'. stays E a F s s')"
  unfolding write_reply_def
  by (auto simp: Let_def reply_length[OF assms(3)]
      intro!: returns_mono[OF deref_good[OF assms(1)]] returns_mono[OF send_exact_returns[OF assms(2)]]
      intro: stays_net_frame[OF assms(1)] sock_io_neutral)

lemma strerror_good:
  "good E a F s \<Longrightarrow> returns (strerror E n s) (\<lambda>r s'. stays E a F s s')"
  unfolding strerror_def by (auto intro!: returns_mono[OF stays_errno])

lemma write_error_good:
  assumes "good E a F s" "write_bounded E" "is_code n"
  shows "returns (write_error E a n k s) (\<lambda>r s'. stays E a F s s')"
  unfolding write_error_def
  by (auto intro!: returns_mono[OF strerror_good[OF assms(1)]] returns_mono[OF write_reply_good]
      intro: assms stays_trans dest: stays_good)

lemma net_close_blocking_returns:
  "returns (net_close_blocking E k s) (\<lambda>_ s'. base.more s' = base.more s \<and> extends s s' \<and>
     held (trace s') = held (trace s) - {Sock k})"
proof -
  have "held (trace s') = held (trace s)" if "frame (sock_io k) s s'" for s s' :: "'a base_scheme"
    using that by (intro frame_held) (auto elim: frame_mono intro: sock_io_neutral)
  then show ?thesis
    unfolding net_close_blocking_def net_close_def
    by (auto intro!: returns_mono[OF set_blocking_returns] returns_mono[OF ext_step] dest: frame_more
        intro: logs_trans[OF frame_extends snoc_extends])
qed

text \<open>
  Closing the passive socket, when no data connection uses it. \<open>idle\<close> says that the client has none.
\<close>

definition idle :: "int \<Rightarrow> 'z ftp_st_scheme \<Rightarrow> bool" where
  "idle a s \<longleftrightarrow> (\<forall>c. heap s a = Some c \<longrightarrow> data_connection_callback_arg c = None)"

lemma idle_data: "idle a s \<Longrightarrow> heap s a = Some c \<Longrightarrow> client_ok E (viters s) c \<Longrightarrow>
    data_socket c = -1 \<and> data_res c = [] \<and> data_callback c = None \<and> data_connection_cleanup c = None \<and>
    data_connection_callback_arg c = None"
  by (auto simp: idle_def client_ok_def data_ok_def data_res_def)

lemma close_passive_good:
  assumes "good E a F s" "idle a s"
  shows "returns (close_passive_socket E a s) (\<lambda>_ s'. stays E a F s s' \<and> idle a s' \<and>
    (\<exists>c c'. heap s a = Some c \<and> heap s' a = Some c' \<and>
       (passive_socket c' < 0) \<and> c' = c\<lparr>passive_socket := passive_socket c'\<rparr>))"
proof -
  obtain c where c: "heap s a = Some c" "client_ok E (viters s) c" using good_client[OF assms(1)] by blast
  have d: "data_socket c = -1" "data_res c = []" "data_connection_callback_arg c = None"
    using idle_data[OF assms(2) c] by simp_all
  let ?c = "c\<lparr>passive_socket := -1\<rparr>"
  have cl: "stays E a F s (s1\<lparr>heap := (heap s1)(a := Some ?c)\<rparr>) \<and> heap s1 a = Some c"
    if "base.more s1 = base.more s" "held (trace s1) = held (trace s) - {Sock (passive_socket c)}"
      "passive_socket c \<ge> 0" "extends s s1" for s1
  proof -
    let ?s = "s1\<lparr>heap := (heap s1)(a := Some ?c)\<rparr>"
    have u: "upper s1 = upper s" "VIRTUAL_PARTITIONS s1 = VIRTUAL_PARTITIONS s"
      using base_more_upper[OF that(1)] by auto
    then have f: "heap s1 = heap s" "viters s1 = viters s" "clients s1 = clients s"
      "num_clients s1 = num_clients s" "password s1 = password s" by (auto simp: upper_def)
    have "distinct (owned a ?c ?s) \<and> set (owned a ?c ?s) = set (owned a c s) - {Sock (passive_socket c)} \<and>
        Sock (passive_socket c) \<in> set (owned a c s)"
      using assms(1) c(1) d that(3) f(5)
      by (auto simp: good_def owned_def socks_def data_res_def pw_res_def split: option.splits)
    moreover have "client_ok E (viters ?s) ?c"
      using c d f by (auto simp: client_ok_def data_ok_def)
    ultimately show ?thesis
      using assms(1) c f u(2) that(2,4) by (auto simp: stays_def good_def fs_wf_def)
  qed
  show ?thesis
    unfolding close_passive_socket_def modify_def
    apply (simp only: returns_bind prod.case)
    apply (rule returns_mono[OF deref_good[OF assms(1)]], elim conjE, hypsubst)
    subgoal for c' s'
      using c
      apply (intro returns_ifI)
       apply (simp only: returns_bind prod.case)
       apply (rule returns_mono[OF net_close_blocking_returns], elim conjE)
      using cl d stays_refl[OF assms(1)] assms(2)
       apply (auto simp: idle_def)
      done
    done
qed

section \<open>The session commands\<close>

text \<open>
  What a handler is called with: a good client with no data connection, and an argument out of the
  control buffer.
\<close>

definition ready :: "env \<Rightarrow> int \<Rightarrow> resource set \<Rightarrow> string \<Rightarrow> 'z ftp_st_scheme \<Rightarrow> bool" where
  "ready E a F args s \<longleftrightarrow> good E a F s \<and> idle a s \<and> NUL \<notin> set args \<and> length args < FTP_BUFFER_SIZE"

lemma readyD: "ready E a F args s \<Longrightarrow> good E a F s" "ready E a F args s \<Longrightarrow> idle a s"
  "ready E a F args s \<Longrightarrow> NUL \<notin> set args" "ready E a F args s \<Longrightarrow> length args < FTP_BUFFER_SIZE"
  by (simp_all add: ready_def)

lemma laws_write: "laws E \<Longrightarrow> write_bounded E"
  by (simp add: laws_def)

lemma is_code_simps [simp]: "is_code (numeral n) = (100 \<le> (numeral n :: nat) \<and> (numeral n :: nat) < 1000)"
  by (simp add: is_code_def)

text \<open>Replying after other steps.\<close>

lemma reply_after:
  assumes "laws E" "stays E a F s s1" "is_code n"
  shows "returns (write_reply E a n msg s1) (\<lambda>r s'. stays E a F s s')"
    and "returns (write_error E a n k s1) (\<lambda>r s'. stays E a F s s')"
  using assms
  by (auto intro!: returns_mono[OF write_reply_good] returns_mono[OF write_error_good]
      intro: stays_trans stays_good laws_write)

lemma reply_first:
  assumes "laws E" "good E a F s" "is_code n"
  shows "returns (write_reply E a n msg s) (\<lambda>r s'. stays E a F s s')"
    and "returns (write_error E a n k s) (\<lambda>r s'. stays E a F s s')"
  using reply_after[OF assms(1) stays_refl[OF assms(2)] assms(3)] .

text \<open>A change of the client after other steps.\<close>

lemma modify_after:
  assumes "stays E a F s s1" "\<And>c. heap s1 a = Some c \<Longrightarrow> client_ok E (viters s1) c \<Longrightarrow>
     client_ok E (viters s1) (f c) \<and> same_owned c (f c)"
  shows "returns (modify a f s1) (\<lambda>_ s'. stays E a F s s')"
  by (rule returns_mono[OF modify_good[OF stays_good[OF assms(1)] assms(2)]])
     (use assms(1) in \<open>blast intro: stays_trans\<close>)+

lemma same_owned_simps [simp]:
  "same_owned c (c\<lparr>authenticated := b\<rparr>)" "same_owned c (c\<lparr>representation_type := t\<rparr>)"
  "same_owned c (c\<lparr>cwd := d\<rparr>)" "same_owned c (c\<lparr>pending_rename := d\<rparr>)"
  "same_owned c (c\<lparr>restart_marker := m\<rparr>)" "same_owned c (c\<lparr>address := ad\<rparr>)"
  "same_owned c (c\<lparr>cwd := d, representation_type := t, authenticated := b\<rparr>)"
  by (simp_all add: same_owned_def socks_def data_res_def)

lemma data_ok_simps [simp]:
  "data_ok v (c\<lparr>authenticated := b\<rparr>) = data_ok v c"
  "data_ok v (c\<lparr>representation_type := t\<rparr>) = data_ok v c"
  "data_ok v (c\<lparr>cwd := d\<rparr>) = data_ok v c"
  "data_ok v (c\<lparr>pending_rename := d\<rparr>) = data_ok v c"
  "data_ok v (c\<lparr>restart_marker := m\<rparr>) = data_ok v c"
  "data_ok v (c\<lparr>address := ad\<rparr>) = data_ok v c"
  "data_ok v (c\<lparr>passive_socket := k\<rparr>) = data_ok v c"
  "data_ok v (c\<lparr>buf := l\<rparr>) = data_ok v c"
  by (simp_all add: data_ok_def split: option.splits data_arg.splits)

lemma client_ok_simps [simp]:
  "client_ok E v (c\<lparr>authenticated := b\<rparr>) = client_ok E v c"
  "client_ok E v (c\<lparr>representation_type := t\<rparr>) = client_ok E v c"
  "client_ok E v (c\<lparr>pending_rename := d\<rparr>) = client_ok E v c"
  "client_ok E v (c\<lparr>address := ad\<rparr>) = client_ok E v c"
  "client_ok E v (c\<lparr>passive_socket := k\<rparr>) = client_ok E v c"
  "client_ok E v (c\<lparr>buf := l\<rparr>) = client_ok E v c"
  by (simp_all add: client_ok_def)

lemma client_ok_marker: "client_ok E v c \<Longrightarrow> 0 \<le> m \<Longrightarrow> client_ok E v (c\<lparr>restart_marker := m\<rparr>)"
  by (simp add: client_ok_def)

lemma cwd_form_root [simp]: "cwd_form ''/''"
  by (auto simp: cwd_form_def intro!: exI[of _ "[]"])

lemma client_ok_cwd:
  "client_ok E v c \<Longrightarrow> cwd_form d \<Longrightarrow> NUL \<notin> set d \<Longrightarrow> length d < MAXPATHLEN E \<Longrightarrow> client_ok E v (c\<lparr>cwd := d\<rparr>)"
  by (simp add: client_ok_def)

lemma laws_path: "laws E \<Longrightarrow> 1024 \<le> MAXPATHLEN E"
  by (simp add: laws_def FTP_BUFFER_SIZE_def)

named_theorems handler_good \<open>the handlers keep the ownership invariant\<close>

lemma ftp_USER_good [handler_good]:
  "laws E \<Longrightarrow> ready E a F x s \<Longrightarrow> returns (ftp_USER E a x s) (\<lambda>r s'. stays E a F s s')"
  unfolding ftp_USER_def by (auto intro!: reply_first dest: readyD)

lemma ftp_PASS_good [handler_good]:
  "laws E \<Longrightarrow> ready E a F x s \<Longrightarrow> returns (ftp_PASS E a x s) (\<lambda>r s'. stays E a F s s')"
  unfolding ftp_PASS_def
  by (auto intro!: reply_first returns_mono[OF modify_good] reply_after stays_refl dest: readyD)

lemma ftp_REIN_good [handler_good]:
  assumes "laws E" "ready E a F x s"
  shows "returns (ftp_REIN E a x s) (\<lambda>r s'. stays E a F s s')"
proof -
  have "client_ok E v c \<Longrightarrow> client_ok E v (c\<lparr>cwd := ''/'', representation_type := CHR ''A'', authenticated := False\<rparr>)"
    for v c using laws_path[OF assms(1)] client_ok_cwd[of E v c "''/''"] by simp
  then show ?thesis
    unfolding ftp_REIN_def
    by (auto intro!: returns_mono[OF close_passive_good[OF readyD(1,2)[OF assms(2)]]]
        returns_mono[OF modify_after] reply_after assms(1))
qed

lemma ftp_QUIT_good [handler_good]:
  "laws E \<Longrightarrow> ready E a F x s \<Longrightarrow> returns (ftp_QUIT E a x s) (\<lambda>r s'. stays E a F s s')"
  unfolding ftp_QUIT_def by (auto intro!: returns_mono[OF reply_first(1)] dest: readyD)

lemma ftp_SYST_good [handler_good]:
  "laws E \<Longrightarrow> ready E a F x s \<Longrightarrow> returns (ftp_SYST E a x s) (\<lambda>r s'. stays E a F s s')"
  unfolding ftp_SYST_def by (auto intro!: reply_first dest: readyD)

text \<open>The arrays that \<open>split\<close> fills are as large as the control buffer.\<close>

lemma rstrip_length: "length (rstrip sep s) \<le> length s"
  using rstrip_take[of sep s] by (metis length_take min.cobounded1 rstrip_def length_rev length_dropWhile_le)

lemma split_ref_words: "w \<in> set (split_ref sep k s) \<Longrightarrow> length w \<le> length s \<and> set w \<subseteq> set s"
proof (induction sep k s rule: split_ref.induct)
  case (1 sep s)
  let ?d = "dropWhile (\<lambda>c. c = sep) s"
  have "w = rstrip sep ?d" using 1 by (auto simp: Let_def split: if_splits)
  moreover have "set (rstrip sep ?d) \<subseteq> set ?d" unfolding rstrip_def
    by (metis set_dropWhileD set_rev subsetI)
  moreover have "set ?d \<subseteq> set s" by (auto dest: set_dropWhileD)
  ultimately show ?case using rstrip_length[of sep ?d] length_dropWhile_le[of "\<lambda>c. c = sep" s] by fastforce
next
  case (2 sep k s)
  let ?d = "dropWhile (\<lambda>c. c = sep) s"
  have d: "length ?d \<le> length s" "set ?d \<subseteq> set s"
    by (auto simp: length_dropWhile_le dest: set_dropWhileD)
  have "w \<in> set (split_ref sep k (dropWhile (\<lambda>c. c \<noteq> sep) ?d)) \<or> w = takeWhile (\<lambda>c. c \<noteq> sep) ?d"
    and "?d \<noteq> []" using 2(2) by (auto simp: Let_def split: if_splits)
  then consider "w \<in> set (split_ref sep k (dropWhile (\<lambda>c. c \<noteq> sep) ?d))" | "w = takeWhile (\<lambda>c. c \<noteq> sep) ?d" by blast
  then show ?case
  proof cases
    case 1
    have "length w \<le> length (dropWhile (\<lambda>c. c \<noteq> sep) ?d) \<and> set w \<subseteq> set (dropWhile (\<lambda>c. c \<noteq> sep) ?d)"
      using 2(1)[OF refl \<open>?d \<noteq> []\<close> 1] .
    then show ?thesis using d length_dropWhile_le[of "\<lambda>c. c \<noteq> sep" ?d] by (auto dest: set_dropWhileD)
  next
    case 2
    then show ?thesis using d length_takeWhile_le[of "\<lambda>c. c \<noteq> sep" ?d] by (auto dest: set_takeWhileD)
  qed
qed

lemma split2_words:
  assumes "length line < FTP_BUFFER_SIZE"
  shows "\<exists>n w v. split2 line = Some (n, w, v) \<and> n \<le> 2 \<and> length w \<le> length line \<and> length v \<le> length line \<and>
    set w \<subseteq> set line \<and> set v \<subseteq> set line \<and> padded 1 (split_ref (CHR '' '') 1 line) = (n, [w, v])"
proof -
  let ?ws = "split_ref (CHR '' '') 1 line"
  have len: "length ?ws \<le> 2" using split_ref_length[of "CHR '' ''" 1 line] by simp
  have words: "length w \<le> length line \<and> set w \<subseteq> set line" if "w \<in> set ?ws" for w
    using split_ref_words[OF that] .
  obtain w v where p: "padded 1 ?ws = (length ?ws, [w, v])"
    and wv: "w \<in> set ?ws \<or> w = []" "v \<in> set ?ws \<or> v = []"
  proof (cases ?ws)
    case Nil
    then show ?thesis using that[of "[]" "[]"] by (simp add: padded_def numeral_2_eq_2)
  next
    case (Cons x xs)
    then show ?thesis using that[of x "[]"] that[of x "hd xs"] len
      by (cases xs) (auto simp: padded_def)
  qed
  have l: "length w \<le> length line \<and> set w \<subseteq> set line" "length v \<le> length line \<and> set v \<subseteq> set line"
    using wv words by auto
  have "split line (CHR '' '') 1 [[], []] = (length ?ws, [w, v])"
    using split_correct[of "[[], []]" 1 line "CHR '' ''"] p by simp
  then show ?thesis using l len assms p by (simp add: split2_def)
qed

lemma ftp_TYPE_good [handler_good]:
  assumes "laws E" "ready E a F x s"
  shows "returns (ftp_TYPE E a x s) (\<lambda>r s'. stays E a F s s')"
proof -
  obtain n w v where s: "split2 x = Some (n, w, v)" using split2_words[OF readyD(4)[OF assms(2)]] by blast
  have fit: "length w = 1" if "strcaseeq ''A'' w \<or> strcaseeq ''I'' w"
    using that by (auto dest!: strcaseeq_length)
  note g = readyD(1)[OF assms(2)]
  have ok: "returns (modify a (\<lambda>c. c\<lparr>representation_type := t\<rparr>) s) (\<lambda>_ s1.
      returns (write_reply E a 200 m s1) (\<lambda>r s'. stays E a F s s'))" for t m
    by (auto intro!: returns_mono[OF modify_good[OF g]] reply_after assms(1))
  show ?thesis
    unfolding ftp_TYPE_def s
    by (auto simp: fit sprintf_def intro!: reply_first assms(1) g ok)
qed

lemma ftp_MODE_good [handler_good]:
  "laws E \<Longrightarrow> ready E a F x s \<Longrightarrow> returns (ftp_MODE E a x s) (\<lambda>r s'. stays E a F s s')"
  unfolding ftp_MODE_def by (auto intro!: reply_first dest: readyD)

end
