(* ===== verification/Handlers.thy ===== *)
theory Handlers
  imports Ownership
begin

text \<open>
  The commands on directories, ports and files keep the ownership invariant of \<open>Ownership\<close>, and so
  do the transfers and their clean-up.
\<close>

section \<open>Directory commands\<close>

lemma laws_names: "laws E \<Longrightarrow> names_short E"
  by (simp add: laws_def)

lemma laws_read: "laws E \<Longrightarrow> read_bounded E"
  by (simp add: laws_def)

lemma ready_client: "ready E a F x s \<Longrightarrow> \<exists>c. heap s a = Some c \<and> client_ok E (viters s) c"
  using good_client readyD(1) by blast

lemma ftp_PWD_good [handler_good]:
  assumes "laws E" "ready E a F x s"
  shows "returns (ftp_PWD E a x s) (\<lambda>r s'. stays E a F s s')"
  unfolding ftp_PWD_def sprintf_def
  by (auto simp: client_ok_def intro!: returns_mono[OF deref_good[OF readyD(1)[OF assms(2)]]] reply_first assms(1)
      readyD(1)[OF assms(2)])

lemma chdir_keeps_form:
  assumes "laws E" "good E a F s" "heap s a = Some c" "client_ok E v c" "NUL \<notin> set p" "chdir_result (cwd c) p r new"
    "r = 0 \<longrightarrow> length new < MAXPATHLEN E"
  shows "cwd_form new \<and> NUL \<notin> set new \<and> length new < MAXPATHLEN E"
proof -
  have c: "cwd_form (cwd c)" "NUL \<notin> set (cwd c)" "length (cwd c) < MAXPATHLEN E"
    using assms(4) by (simp_all add: client_ok_def)
  have "NUL \<notin> set (abspath (cwd c) p)" using abspath_chars[OF c(1,2) assms(5)] c(2) assms(5) by auto
  then show ?thesis
    using assms(6,7) c automaton.cwd_of_norm[OF canonical_abspath[OF c(1,2) assms(5)]]
    by (auto simp: chdir_result_def split: if_splits)
qed

lemma change_dir_good:
  assumes "laws E" "good E a F s" "NUL \<notin> set p"
  shows "returns (change_dir E a p success s) (\<lambda>r s'. stays E a F s s')"
proof -
  have upd: "returns (modify a (\<lambda>c. c\<lparr>cwd := new\<rparr>) s1) (\<lambda>_ s2. stays E a F s s2)"
    if "heap s a = Some c" "client_ok E (viters s) c" "keeps s s1" "chdir_result (cwd c) p r new"
      "r = 0 \<longrightarrow> length new < MAXPATHLEN E" for c s1 r new
    using chdir_keeps_form[OF assms(1,2) that(1,2) assms(3) that(4,5)]
    by (intro modify_after[OF stays_keeps[OF assms(2) that(3)]]) (auto intro: client_ok_cwd)
  show ?thesis
    unfolding change_dir_def
    apply (simp only: returns_bind prod.case)
    apply (rule returns_mono[OF deref_good[OF assms(2)]], elim conjE, hypsubst)
    apply (rule returns_mono[OF vrt_chdir_returns[OF laws_fresh[OF assms(1)] good_wf[OF assms(2)] laws_names[OF assms(1)]]])
    subgoal for c s0 x s1
      apply (cases x, hypsubst, simp only: prod.case returns_bind, elim conjE)
      apply (rule returns_mono[OF upd], assumption, assumption, assumption, assumption, assumption)
      apply (auto intro!: reply_after assms(1))
      done
    done
qed

lemma ftp_CWD_good [handler_good]:
  "laws E \<Longrightarrow> ready E a F x s \<Longrightarrow> returns (ftp_CWD E a x s) (\<lambda>r s'. stays E a F s s')"
  unfolding ftp_CWD_def by (rule change_dir_good) (auto dest: readyD)

lemma ftp_CDUP_good [handler_good]:
  "laws E \<Longrightarrow> ready E a F x s \<Longrightarrow> returns (ftp_CDUP E a x s) (\<lambda>r s'. stays E a F s s')"
  unfolding ftp_CDUP_def by (rule change_dir_good) (auto dest: readyD)

lemma ftp_DELE_good [handler_good]:
  assumes "laws E" "ready E a F x s"
  shows "returns (ftp_DELE E a x s) (\<lambda>r s'. stays E a F s s')"
  unfolding ftp_DELE_def
  by (auto intro!: returns_mono[OF deref_good[OF readyD(1)[OF assms(2)]]]
      returns_mono[OF vrt_unlink_keeps[OF laws_fresh[OF assms(1)] good_wf[OF readyD(1)[OF assms(2)]]]]
      reply_after assms(1) stays_keeps readyD(1)[OF assms(2)])

lemma stays_keeps_after: "stays E a F s s1 \<Longrightarrow> keeps s1 s2 \<Longrightarrow> stays E a F s s2"
  by (blast intro: stays_trans stays_keeps stays_good)

lemma ftp_MKD_good [handler_good]:
  assumes "laws E" "ready E a F x s"
  shows "returns (ftp_MKD E a x s) (\<lambda>r s'. stays E a F s s')"
proof -
  note g = readyD(1)[OF assms(2)]
  have chdir: "returns (vrt_chdir E (cwd c) x s1) (\<lambda>(r, new) s2. stays E a F s s2 \<and> length new < MAXPATHLEN E)"
    if "client_ok E v c" "keeps s s1" for c s1 v
  proof -
    have "length (cwd c) < MAXPATHLEN E" using that(1) by (simp add: client_ok_def)
    then show ?thesis
      by (intro returns_mono[OF vrt_chdir_returns[OF laws_fresh[OF assms(1)]
            good_wf[OF stays_good[OF stays_keeps[OF g that(2)]]] laws_names[OF assms(1)]]])
        (auto simp: chdir_result_def intro: stays_keeps_after[OF stays_keeps[OF g that(2)]])
  qed
  show ?thesis
    unfolding ftp_MKD_def sprintf_def
    by (auto split: prod.splits intro!: returns_mono[OF deref_good[OF g]] returns_mono[OF chdir] reply_first reply_after
        returns_mono[OF vrt_mkdir_keeps[OF laws_fresh[OF assms(1)] good_wf[OF g]]] assms(1) g stays_keeps)
qed

lemma ftp_RNFR_good [handler_good]:
  assumes "laws E" "ready E a F x s"
  shows "returns (ftp_RNFR E a x s) (\<lambda>r s'. stays E a F s s')"
proof -
  have "\<not> length x + 1 > MAXPATHLEN E"
    using readyD(4)[OF assms(2)] assms(1) by (simp add: laws_def)
  then show ?thesis
    unfolding ftp_RNFR_def
    by (auto intro!: returns_mono[OF modify_good[OF readyD(1)[OF assms(2)]]] reply_after assms(1))
qed

lemma ftp_RNTO_good [handler_good]:
  assumes "laws E" "ready E a F x s"
  shows "returns (ftp_RNTO E a x s) (\<lambda>r s'. stays E a F s s')"
  unfolding ftp_RNTO_def
  by (auto intro!: returns_mono[OF deref_good[OF readyD(1)[OF assms(2)]]]
      returns_mono[OF vrt_rename_keeps[OF laws_fresh[OF assms(1)] good_wf[OF readyD(1)[OF assms(2)]]]]
      reply_first returns_mono[OF reply_after(1)] returns_mono[OF reply_after(2)] modify_after
      assms(1) readyD(1)[OF assms(2)] dest!: stays_keeps[OF readyD(1)[OF assms(2)]])

text \<open>
  \<open>SIZE\<close> prints into twelve characters: the law says that no file has \<open>10 ^ 11\<close> bytes.
\<close>

definition files_small :: "env \<Rightarrow> bool" where
  "files_small E \<longleftrightarrow> (\<forall>h q r. answers E h (CFile (Stat q)) r \<longrightarrow> ret r = 0 \<longrightarrow> unat (st_size (stat_out r)) < 10 ^ 11)"

lemma vrt_stat_size:
  assumes "fresh E" "fs_wf s" "files_small E"
  shows "returns (vrt_stat E d p st s) (\<lambda>(r, st') s'. r = 0 \<longrightarrow> unat (st_size st') < 10 ^ 11)"
proof -
  have again: "returns (with_virtual_path E d Stat p (-1) s2) (\<lambda>r s'. ret r = 0 \<longrightarrow> unat (st_size (stat_out r)) < 10 ^ 11)"
    if "fs_wf s2" for s2 :: "'a fs_st_scheme"
    using assms(3)
    by (intro returns_mono[OF with_virtual_path_returns[OF assms(1) _ that]])
       (auto simp: path_result_def files_small_def)
  show ?thesis
    unfolding vrt_stat_def
    apply (simp only: returns_bind prod.case)
    apply (rule returns_mono[OF to_real_path_returns[OF assms(1,2)]], elim conjE)
    subgoal for v s1
    proof (cases v)
      case (Heap a q)
      assume fr: "frame mem_only s s1" and res: "real_path_result E d p s v (held (trace s1))"
      then have q: "q \<noteq> []" using Heap by (auto simp: real_path_result_def)
      show ?thesis
        unfolding Heap cstr.case
        apply (simp only: q if_False returns_bind prod.case returns_simps)
        apply (rule returns_mono[OF drop_real_path[OF fr res[unfolded Heap]]], elim conjE)
        apply (rule returns_mono[OF again], erule fs_wf_more[OF assms(2) frame_more])
        apply simp
        done
    qed (auto simp: real_path_result_def)
    done
qed

lemma ftp_SIZE_good [handler_good]:
  assumes "laws E" "files_small E" "ready E a F x s"
  shows "returns (ftp_SIZE E a x s) (\<lambda>r s'. stays E a F s s')"
proof -
  note g = readyD(1)[OF assms(3)]
  note st = returns_conj[OF vrt_stat_keeps[OF laws_fresh[OF assms(1)] good_wf[OF g]]
      returns_upon[OF vrt_stat_size[OF laws_fresh[OF assms(1)] good_wf[OF g] assms(2)]]]
  have fits: "\<not> length (dec n) + 1 > 12" if "n < 10 ^ 11" for n
    using dec_length[OF that] by simp
  show ?thesis
    unfolding ftp_SIZE_def sprintf_def
    apply (simp only: returns_bind prod.case)
    apply (rule returns_mono[OF deref_good[OF g]], elim conjE, hypsubst)
    apply (rule returns_mono[OF st])
    subgoal for c s0 x s1
      apply (cases x, hypsubst, simp only: prod.case returns_bind, elim conjE)
      apply (intro returns_ifI)
      using fits apply (auto intro!: reply_after assms(1) stays_keeps[OF g])
      done
    done
qed

section \<open>Ports\<close>

lemma dec_length_mono: "n < m \<Longrightarrow> m \<le> 10 ^ k \<Longrightarrow> 0 < k \<Longrightarrow> length (dec n) \<le> k"
  by (rule dec_length) simp_all

lemma dec_byte_length: "length (dec (unat (x AND 0xff :: u32))) \<le> 3" "length (dec (unat (y AND 0xff :: u16))) \<le> 3"
proof -
  have "x AND 0xff \<le> 0xff" "y AND 0xff \<le> 0xff" by (rule word_and_le1)+
  then have "unat (x AND 0xff) < 256" "unat (y AND 0xff) < 256" by (simp_all add: word_le_nat_alt)
  then show "length (dec (unat (x AND 0xff :: u32))) \<le> 3" "length (dec (unat (y AND 0xff :: u16))) \<le> 3"
    by (auto intro: dec_length_mono[where m = 256])
qed

lemma passive_reply_length: "length (passive_reply ip port) \<le> 48"
  using dec_byte_length(1)[of "drop_bit 24 ip"] dec_byte_length(1)[of "drop_bit 16 ip"]
    dec_byte_length(1)[of "drop_bit 8 ip"] dec_byte_length(1)[of ip]
    dec_byte_length(2)[of "drop_bit 8 port"] dec_byte_length(2)[of port]
  by (simp add: passive_reply_def)

lemma dotted_length: "length (dotted vs) \<le> 43"
proof -
  have "length (dec (unat x)) \<le> 10" for x :: u32
    using unsigned_less[of x] by (intro dec_length_mono[where m = "2 ^ 32"]) auto
  from this[of "vs ! 0"] this[of "vs ! 1"] this[of "vs ! 2"] this[of "vs ! 3"]
  show ?thesis by (simp add: dotted_def)
qed

lemma stays_base_after:
  "stays E a F s s1 \<Longrightarrow> frame C s1 s2 \<Longrightarrow> held (trace s2) = held (trace s1) \<Longrightarrow>
   stays E a F s s2 \<and> upper s2 = upper s1"
  using stays_base[OF stays_good, of E a F s s1 s2] stays_trans base_more_upper frame_more frame_extends by metis

lemma stays_ext:
  "stays E a F s s1 \<Longrightarrow> neutral c \<Longrightarrow> returns (ext E c s1) (\<lambda>r s'. stays E a F s s' \<and> upper s' = upper s1)"
  by (rule returns_mono[OF ext_neutral[where C = "\<lambda>_. True"]], assumption, rule TrueI, elim conjE)
     (rule stays_base_after)

lemma neutral_net [simp]:
  "neutral (CNet (Net_bind k ad))" "neutral (CNet (Net_listen k n))" "neutral (CNet Net_gethostip)"
  "neutral (CNet (Net_fcntl k x n))" "neutral (CNet (Net_connect k ad))"
  by (simp_all add: neutral_def)

lemma stays_set_blocking:
  "stays E a F s s1 \<Longrightarrow> returns (set_blocking E k b s1) (\<lambda>r s'. stays E a F s s' \<and> upper s' = upper s1)"
  by (rule returns_mono[OF set_blocking_returns], elim conjE)
     (erule (1) stays_base_after, rule frame_held, erule frame_mono, rule sock_io_neutral)

lemma stays_passive_port: "stays E a F s s1 \<Longrightarrow> stays E a F s (s1\<lparr>passive_port := n\<rparr>)"
  by (frule stays_good, erule stays_trans, erule stays_upper) (simp_all add: upper_def logs_def)

lemma idle_upper: "idle a s \<Longrightarrow> upper s' = upper s \<Longrightarrow> idle a s'"
  by (simp add: idle_def upper_def)

text \<open>A new passive socket, when there is none.\<close>

lemma open_passive_good:
  assumes "fresh E" "good E a F s" "idle a s" "\<And>c. heap s a = Some c \<Longrightarrow> passive_socket c < 0"
  shows "returns (ext E (CNet Net_socket) s) (\<lambda>r s1.
    returns (modify a (\<lambda>c. c\<lparr>passive_socket := ret r\<rparr>) s1) (\<lambda>_ s2. stays E a F s s2 \<and> idle a s2))"
proof -
  obtain c where c: "heap s a = Some c" "client_ok E (viters s) c" using good_client[OF assms(2)] by blast
  have d: "data_socket c = -1" "data_res c = []" "passive_socket c < 0"
    using idle_data[OF assms(3) c] assms(4)[OF c(1)] by simp_all
  have step: "returns (modify a (\<lambda>c. c\<lparr>passive_socket := ret r\<rparr>) s1) (\<lambda>_ s2. stays E a F s s2 \<and> idle a s2)"
    if "base.more s1 = base.more s" "trace s1 = trace s @ [(CNet Net_socket, r)]" "answers E (trace s) (CNet Net_socket) r"
    for r s1
  proof -
    have f: "heap s1 = heap s" "viters s1 = viters s" "clients s1 = clients s" "num_clients s1 = num_clients s"
      "password s1 = password s" "VIRTUAL_PARTITIONS s1 = VIRTUAL_PARTITIONS s"
      using base_more_upper[OF that(1)] by (auto simp: upper_def)
    let ?c = "c\<lparr>passive_socket := ret r\<rparr>"
    let ?s = "s1\<lparr>heap := (heap s)(a := Some ?c)\<rparr>"
    have new: "0 \<le> ret r \<Longrightarrow> Sock (ret r) \<notin> held (trace s)"
      using freshD[OF assms(1) that(3)] by simp
    have own: "set (owned a ?c ?s) = set (owned a c s) \<union> acquires (CNet Net_socket) r"
      "distinct (owned a ?c ?s) = distinct (owned a c s)"
      using new assms(2) c(1) d f(5)
      by (auto simp: good_def owned_def socks_def data_res_def pw_res_def split: option.splits)
    then have "good E a F ?s"
      using assms(2) c f new that(2) by (auto simp: good_def fs_wf_def split: if_splits)
    then show ?thesis
      using c f assms(3) snoc_extends[OF that(2)] by (auto simp: modify_def stays_def idle_def)
  qed
  show ?thesis by (rule returns_mono[OF ext_law], elim conjE) (rule step)
qed

text \<open>The steps of \<open>PASV\<close> and \<open>PORT\<close>, with a client that stays without a data connection.\<close>

definition rests :: "env \<Rightarrow> int \<Rightarrow> resource set \<Rightarrow> 'z ftp_st_scheme \<Rightarrow> 'z ftp_st_scheme \<Rightarrow> bool" where
  "rests E a F s s' \<longleftrightarrow> stays E a F s s' \<and> idle a s'"

lemma restsD: "rests E a F s s1 \<Longrightarrow> stays E a F s s1"
  by (simp add: rests_def)

lemma rests_ready: "ready E a F x s \<Longrightarrow> rests E a F s s"
  by (simp add: rests_def ready_def stays_refl)

lemma rests_ext:
  "rests E a F s s1 \<Longrightarrow> neutral c \<Longrightarrow> returns (ext E c s1) (\<lambda>r s'. rests E a F s s' \<and> upper s' = upper s1)"
  unfolding rests_def by (elim conjE, rule returns_mono[OF stays_ext]) (blast intro: idle_upper)+

lemma rests_set_blocking:
  "rests E a F s s1 \<Longrightarrow> returns (set_blocking E k b s1) (\<lambda>r s'. rests E a F s s')"
  unfolding rests_def by (elim conjE, rule returns_mono[OF stays_set_blocking]) (blast intro: idle_upper)+

lemma rests_passive_port: "rests E a F s s1 \<Longrightarrow> rests E a F s (s1\<lparr>passive_port := n\<rparr>)"
  by (simp add: rests_def stays_passive_port idle_def)

lemma rests_close_passive:
  assumes "rests E a F s s1"
  shows "returns (close_passive_socket E a s1) (\<lambda>_ s'. rests E a F s s' \<and>
    (\<forall>c. heap s' a = Some c \<longrightarrow> passive_socket c < 0))"
proof -
  have "stays E a F s s1" "idle a s1" using assms by (simp_all add: rests_def)
  then show ?thesis
    unfolding rests_def
    by (intro returns_mono[OF close_passive_good[OF stays_good]]) (auto intro: stays_trans)
qed

lemma rests_open_passive:
  assumes "fresh E" "rests E a F s s1 \<and> (\<forall>c. heap s1 a = Some c \<longrightarrow> passive_socket c < 0)"
  shows "returns (ext E (CNet Net_socket) s1) (\<lambda>r s2.
    returns (modify a (\<lambda>c. c\<lparr>passive_socket := ret r\<rparr>) s2) (\<lambda>_ s3. rests E a F s s3))"
proof -
  have 1: "stays E a F s s1" "idle a s1" using assms(2) by (simp_all add: rests_def)
  have 2: "\<And>c. heap s1 a = Some c \<Longrightarrow> passive_socket c < 0" using assms(2) by blast
  show ?thesis
    by (rule returns_mono[OF open_passive_good[OF assms(1) stays_good[OF 1(1)] 1(2) 2]], assumption)
       (erule returns_mono, unfold rests_def, blast intro: stays_trans 1(1))
qed

lemma ftp_PASV_good [handler_good]:
  assumes "laws E" "ready E a F x s"
  shows "returns (ftp_PASV E a x s) (\<lambda>r s'. stays E a F s s')"
  unfolding ftp_PASV_def Let_def
  apply (simp only: returns_bind prod.case)
  apply (rule returns_mono[OF rests_close_passive[OF rests_ready[OF assms(2)]]])
  apply (rule returns_mono[OF rests_open_passive[OF laws_fresh[OF assms(1)]]], assumption, erule returns_mono)
  apply (rule returns_ifI, rule reply_after[OF assms(1) restsD], assumption, simp)
  apply (simp only: returns_bind prod.case)
  apply (rule returns_mono[OF rests_set_blocking], assumption)
  apply (rule returns_mono[OF rests_ext[OF rests_passive_port]], assumption, simp)
  apply (rule returns_ifI)
   apply (simp only: returns_bind prod.case)
   apply (rule returns_mono[OF rests_close_passive], erule conjunct1, rule reply_after[OF assms(1) restsD], erule conjunct1, simp)
  apply (simp only: returns_bind prod.case)
  apply (rule returns_mono[OF rests_ext], erule conjunct1, simp)
  apply (rule returns_ifI)
   apply (simp only: returns_bind prod.case)
   apply (rule returns_mono[OF rests_close_passive], erule conjunct1, rule reply_after[OF assms(1) restsD], erule conjunct1, simp)
  apply (simp only: returns_bind prod.case)
  apply (rule returns_mono[OF rests_ext], erule conjunct1, simp)
  using passive_reply_length
  apply (auto simp: sprintf_def not_less Suc_le_eq intro!: reply_after assms(1) restsD)
  done

lemma ftp_PORT_good [handler_good]:
  assumes "laws E" "ready E a F x s"
  shows "returns (ftp_PORT E a x s) (\<lambda>r s'. stays E a F s s')"
proof -
  have fit: "\<not> 43 < length (dotted vs)" for vs using dotted_length[of vs] by simp
  note start = rests_ready[OF assms(2)]
  have go: "returns (ext E (CSys (Inet_aton t)) s) (\<lambda>r s1. returns (if ret r = 0
        then write_reply E a 501 ''Syntax error in parameters.'' s1
        else do {
           (_, s) \<leftarrow> close_passive_socket E a s1;
           (_, s) \<leftarrow> modify a (\<lambda>c. c\<lparr>address := \<lparr>sin_addr = out r, sin_port = n\<rparr>\<rparr>) s;
           write_reply E a 200 ''PORT command successful.'' s
         }) (\<lambda>r s'. stays E a F s s'))" for t n
    apply (rule returns_mono[OF rests_ext[OF start]], simp, erule conjE)
    apply (rule returns_ifI, rule reply_after[OF assms(1) restsD], assumption, simp)
    apply (simp only: returns_bind prod.case)
    apply (rule returns_mono[OF rests_close_passive], assumption)
    apply (rule returns_mono[OF modify_after[OF restsD]], erule conjunct1, simp)
    apply (auto intro!: reply_after assms(1))
    done
  show ?thesis
    unfolding ftp_PORT_def
    using go by (auto simp: sprintf_def fit split: option.splits intro!: reply_first assms(1) readyD(1)[OF assms(2)])
qed

lemma scan_lli_range: "scan_lli str = Some v \<Longrightarrow> v < 2 ^ 63"
proof -
  assume v: "scan_lli str = Some v"
  obtain neg body where s: "split_sign (dropWhile isspace str) = (neg, body)" by fastforce
  have "\<exists>b x. scan_lli str = (if b then None else Some (max (- (2 ^ 63)) (min (2 ^ 63 - 1) x)))"
    unfolding scan_lli_def s Let_def prod.case by blast
  with v show ?thesis by (auto split: if_splits)
qed

lemma ftp_REST_good [handler_good]:
  assumes "laws E" "ready E a F x s"
  shows "returns (ftp_REST E a x s) (\<lambda>r s'. stays E a F s s')"
proof -
  have fit: "\<not> FTP_BUFFER_SIZE < Suc (length (''Restart position accepted ('' @ dec_int v @ '').''))"
    if "scan_lli x = Some v" "\<not> v < 0" for v
  proof -
    have "nat v < 2 ^ 63" using scan_lli_range[OF that(1)] that(2) by simp
    then have "length (dec (nat v)) \<le> 19" by (rule dec_length_mono) simp_all
    then show ?thesis using that(2) by (simp add: dec_int_def FTP_BUFFER_SIZE_def)
  qed
  show ?thesis
    unfolding ftp_REST_def
    using fit by (auto simp: sprintf_def client_ok_marker split: option.splits
        intro!: reply_first returns_mono[OF modify_good[OF readyD(1)[OF assms(2)]]] reply_after
          stays_refl assms(1) readyD(1)[OF assms(2)])
qed

section \<open>Opening a data connection\<close>

lemma net_frame_upper:
  "net_frame (sock_io k) s s' \<Longrightarrow> upper s' = upper s" "net_frame (sock_io k) s s' \<Longrightarrow> VIRTUAL_PARTITIONS s' = VIRTUAL_PARTITIONS s"
  "net_frame (sock_io k) s s' \<Longrightarrow> held (trace s') = held (trace s)"
  unfolding net_frame_def using net_more_upper logs_neutral_held logs_mono sock_io_neutral by blast+

lemma write_reply_upper:
  assumes "laws E" "good E a F s" "is_code n"
  shows "returns (write_reply E a n msg s) (\<lambda>r s'. stays E a F s s' \<and> upper s' = upper s \<and>
    VIRTUAL_PARTITIONS s' = VIRTUAL_PARTITIONS s \<and> held (trace s') = held (trace s))"
  unfolding write_reply_def
  by (auto simp only: Let_def reply_length[OF assms(3)] net_frame_upper returns_bind prod.case simp_thms if_False
      intro!: returns_mono[OF deref_good[OF assms(2)]] returns_mono[OF send_exact_returns[OF laws_write[OF assms(1)]]]
        stays_net_frame[OF assms(2)] sock_io_neutral)

text \<open>The state between the choice of the socket and the attachment of the callback.\<close>

definition prepared :: "int \<Rightarrow> 'z ftp_st_scheme \<Rightarrow> 'z ftp_st_scheme \<Rightarrow> bool" where
  "prepared a s s' \<longleftrightarrow> extends s s' \<and> (\<exists>c k. heap s a = Some c \<and> 0 \<le> k \<and> (k = passive_socket c \<or> Sock k \<notin> held (trace s)) \<and>
     held (trace s') = held (trace s) \<union> (if k = passive_socket c then {} else {Sock k}) \<and>
     upper s' = upper (s\<lparr>heap := (heap s)(a := Some (c\<lparr>data_socket := k\<rparr>))\<rparr>) \<and>
     VIRTUAL_PARTITIONS s' = VIRTUAL_PARTITIONS s)"

lemma prepare_active_returns:
  assumes "laws E" "good E a F s" "idle a s" "\<And>c. heap s a = Some c \<Longrightarrow> passive_socket c < 0"
  shows "returns (prepare_data_connection_active E a s) (\<lambda>r s'.
    if r < 0 then stays E a F s s' else prepared a s s')"
proof -
  obtain c where c: "heap s a = Some c" "client_ok E (viters s) c" using good_client[OF assms(2)] by blast
  have body: "returns (if k < 0 then Some (k, s1) else do {
       (_, s) \<leftarrow> set_blocking E k False s1;
       (r, s) \<leftarrow> ext E (CNet (Net_bind k ad)) s;
       if ret r < 0 then do { (_, s) \<leftarrow> net_close E k s; Some (ret r, s) }
       else do {
         (_, s) \<leftarrow> modify a (\<lambda>c. c\<lparr>data_socket := k\<rparr>) s;
         Some (0, s)
       }
     }) (\<lambda>r s'. if r < 0 then stays E a F s s' else prepared a s s')"
    if s1: "base.more s1 = base.more s" "extends s s1"
        "held (trace s1) = held (trace s) \<union> (if k < 0 then {} else {Sock k})"
      and k: "0 \<le> k \<Longrightarrow> Sock k \<notin> held (trace s)" for k s1 ad
  proof (cases "k < 0")
    case True
    then show ?thesis using s1 stays_base[OF assms(2) s1(2,1)] by simp
  next
    case False
    let ?opened = "\<lambda>s2. base.more s2 = base.more s \<and> extends s s2 \<and> held (trace s2) = insert (Sock k) (held (trace s))"
    have same: "?opened s2" if "frame (sock_io k) s1 s2" for s2
      using s1 False frame_more[OF that] frame_held[OF frame_mono[OF that sock_io_neutral]]
        logs_trans[OF s1(2) frame_extends[OF that]] by simp
    have close: "stays E a F s s4"
      if "?opened s3" "base.more s4 = base.more s3" "trace s4 = trace s3 @ [(CNet (Net_close k), r)]" for s3 s4 r
      using that k False stays_base[OF assms(2), of s4] logs_trans[of _ s s3 s4] snoc_extends[OF that(3)] by simp
    have set: "prepared a s s4"
      if "?opened s3" "heap s3 a = Some c'" "s4 = s3\<lparr>heap := (heap s3)(a := Some (c'\<lparr>data_socket := k\<rparr>))\<rparr>" for s3 s4 c'
    proof -
      have "k \<noteq> passive_socket c" using assms(4)[OF c(1)] False by auto
      then show ?thesis
        using that base_more_upper[of s3 s] c(1) k False
        unfolding prepared_def by (intro conjI exI[of _ c] exI[of _ k]) (simp_all add: upper_def)
    qed
    have bind: "returns (ext E (CNet (Net_bind k ad)) s2) (\<lambda>r s3. ?opened s3)" if "?opened s2" for s2
      by (rule returns_mono[OF ext_neutral[where C = "\<lambda>_. True"]], simp, rule TrueI)
         (use that logs_trans in \<open>simp add: frame_def, blast\<close>)
    have heap: "heap s3 a = Some c" if "base.more s3 = base.more s" for s3
      using base_more_upper[OF that] c(1) by (simp add: upper_def)
    show ?thesis
      apply (simp only: False if_False returns_bind prod.case)
      apply (rule returns_mono[OF set_blocking_returns], elim conjE)
      apply (rule returns_mono[OF bind], erule same)
      apply (rule returns_ifI)
      subgoal for _ _ r s3
        unfolding net_close_def
        by (simp only: returns_bind prod.case returns_simps, rule returns_mono[OF ext_step])
           (auto simp: less_imp_not_less intro: close[of s3])
      subgoal for _ _ r s3
        using set[of s3 c] heap[of s3] by (simp add: modify_def)
      done
  qed
  have start: "base.more s1 = base.more s \<and> extends s s1 \<and>
      held (trace s1) = held (trace s) \<union> (if ret r < 0 then {} else {Sock (ret r)}) \<and>
      (0 \<le> ret r \<longrightarrow> Sock (ret r) \<notin> held (trace s))"
    if "base.more s1 = base.more s" "trace s1 = trace s @ [(CNet Net_socket, r)]"
      "answers E (trace s) (CNet Net_socket) r" for s1 r
    using that freshD[OF laws_fresh[OF assms(1)] that(3)] snoc_extends[OF that(2)] by simp
  show ?thesis
    unfolding prepare_data_connection_active_def Let_def
    by (simp only: returns_bind prod.case, rule returns_mono[OF ext_law], elim conjE, drule (2) start)
       (elim conjE, rule body, simp_all)
qed

lemma prepare_passive_returns:
  assumes "good E a F s" "\<And>c. heap s a = Some c \<Longrightarrow> 0 \<le> passive_socket c"
  shows "returns (prepare_data_connection_passive E a s) (\<lambda>r s'. r = 0 \<and> prepared a s s')"
proof -
  obtain c where c: "heap s a = Some c" using good_client[OF assms(1)] by blast
  then show ?thesis
    using assms(2)[OF c] by (auto simp: prepare_data_connection_passive_def modify_def prepared_def intro!: exI[of _ c])
qed

text \<open>A callback, its argument and its clean-up that belong together.\<close>

fun matching :: "(int \<Rightarrow> nat option) \<Rightarrow> data_callback \<Rightarrow> data_arg \<Rightarrow> data_cleanup \<Rightarrow> bool" where
  "matching v cb (Arg_dir d) cl \<longleftrightarrow> (cb = Send_nlst \<or> cb = Send_list) \<and> cl = Cleanup_dirclose \<and> iter_ok v d"
| "matching v cb (Arg_file f) cl \<longleftrightarrow> (cb = Send_from_file \<or> cb = Recv_to_file) \<and> cl = Cleanup_fclose"

definition attached :: "data_callback \<Rightarrow> data_arg \<Rightarrow> data_cleanup \<Rightarrow> u64 \<Rightarrow> client \<Rightarrow> client" where
  "attached cb x cl t c = c\<lparr>data_connection_connected := False, data_callback := Some cb,
     data_connection_callback_arg := Some x, data_connection_cleanup := Some cl, data_connection_timer := t\<rparr>"

lemma attached_simps [simp]:
  "data_callback (attached cb x cl t c) = Some cb" "data_connection_callback_arg (attached cb x cl t c) = Some x"
  "data_connection_cleanup (attached cb x cl t c) = Some cl" "socket (attached cb x cl t c) = socket c"
  "passive_socket (attached cb x cl t c) = passive_socket c" "data_socket (attached cb x cl t c) = data_socket c"
  "cwd (attached cb x cl t c) = cwd c" "restart_marker (attached cb x cl t c) = restart_marker c"
  "buf (attached cb x cl t c) = buf c"
  by (simp_all add: attached_def)

lemma attach_good:
  assumes "good E a (insert (arg_res x) F) s" "idle a s" "arg_res x \<notin> F" "matching (viters s) cb x cl"
    and "prepared a s s1" "frame C s1 s2" "held (trace s2) = held (trace s1)"
  shows "returns (modify a (attached cb x cl t) s2) (\<lambda>_ s'. stays E a F s s')"
proof -
  obtain c k where c: "heap s a = Some c" "0 \<le> k" "k = passive_socket c \<or> Sock k \<notin> held (trace s)"
    "held (trace s1) = held (trace s) \<union> (if k = passive_socket c then {} else {Sock k})"
    "upper s1 = upper (s\<lparr>heap := (heap s)(a := Some (c\<lparr>data_socket := k\<rparr>))\<rparr>)"
    "VIRTUAL_PARTITIONS s1 = VIRTUAL_PARTITIONS s"
    using assms(5) by (auto simp: prepared_def)
  let ?c = "attached cb x cl t (c\<lparr>data_socket := k\<rparr>)"
  let ?s = "s2\<lparr>heap := (heap s)(a := Some ?c)\<rparr>"
  have f: "heap s2 = (heap s)(a := Some (c\<lparr>data_socket := k\<rparr>))" "viters s2 = viters s" "clients s2 = clients s"
    "num_clients s2 = num_clients s" "password s2 = password s" "VIRTUAL_PARTITIONS s2 = VIRTUAL_PARTITIONS s"
    using base_more_upper[OF frame_more[OF assms(6)]] c(5,6) by (auto simp: upper_def)
  have "extends s s1" using assms(5) by (simp add: prepared_def)
  then have "extends s s2" by (rule logs_trans[OF _ frame_extends[OF assms(6)]])
  have run: "modify a (attached cb x cl t) s2 = Some ((), ?s)"
    by (simp add: modify_def f(1))
  obtain d: "client_ok E (viters s) c" "distinct (owned a c s)" "set (owned a c s) \<inter> insert (arg_res x) F = {}"
    "set (owned a c s) \<union> insert (arg_res x) F \<subseteq> held (trace s)" "fs_wf s" "a \<noteq> 0"
    "\<forall>p q. password s = Some (p, q) \<longrightarrow> p \<noteq> 0"
    using assms(1) c(1) by (auto simp: good_def)
  have i: "data_socket c = -1" "data_res c = []" using idle_data[OF assms(2) c(1) d(1)] by simp_all
  have pw: "pw_res ?s = pw_res s" by (simp add: pw_res_def f)
  have own: "owned a ?c ?s = Mem a # pw_res s @ (Sock (socket c) # (if passive_socket c \<ge> 0 then [Sock (passive_socket c)] else []) @
      (if k \<noteq> passive_socket c then [Sock k] else [])) @ [arg_res x]"
    using c(2) by (simp add: owned_def pw socks_def data_res_def)
  have own0: "owned a c s = Mem a # pw_res s @ (Sock (socket c) # (if passive_socket c \<ge> 0 then [Sock (passive_socket c)] else []))"
    using i by (simp add: owned_def socks_def)
  have arg: "arg_res x \<noteq> Sock k" for k
  proof (cases x)
    case (Arg_dir d)
    then show ?thesis by (cases d) simp_all
  qed simp
  have "distinct (owned a ?c ?s)" "set (owned a ?c ?s) \<inter> F = {}" "set (owned a ?c ?s) \<union> F \<subseteq> held (trace ?s)"
    using d(2-4) c(3,4) assms(3,7) arg arg[symmetric] unfolding own own0 by (auto split: if_splits)
  moreover have "client_ok E (viters ?s) ?c"
    using d(1) assms(4) f by (cases x) (auto simp: client_ok_def data_ok_def)
  ultimately have "good E a F ?s" using d f by (auto simp: good_def fs_wf_def)
  then show ?thesis using f c(1) \<open>extends s s2\<close> unfolding run by (auto simp: stays_def)
qed

lemma prepare_good:
  assumes "laws E" "good E a (insert (arg_res x) F) s" "idle a s" "arg_res x \<notin> F" "matching (viters s) cb x cl"
  shows "returns (prepare_data_connection E a cb x cl s) (\<lambda>r s'. stays E a F s s' \<and>
    (r < 0 \<longrightarrow> stays E a (insert (arg_res x) F) s s'))"
proof -
  have weak: "stays E a F s s'" if "stays E a (insert (arg_res x) F) s s'" for s'
    using that by (rule stays_weaken) blast
  have attach: "returns (gettime E s2) (\<lambda>now s3. returns (modify a (attached cb x cl (now + w)) s3) (\<lambda>_ s'. stays E a F s s'))"
    if "stays E a (insert (arg_res x) F) s s1" "upper s1 = upper s" "prepared a s1 s2" for s1 s2 w
  proof -
    have "returns (modify a (attached cb x cl (now + w)) s3) (\<lambda>_ s'. stays E a F s s')"
      if "frame (\<lambda>_. True) s2 s3" "held (trace s3) = held (trace s2)" for s3 now
    proof (rule returns_mono[OF attach_good[OF stays_good[OF \<open>stays E a (insert (arg_res x) F) s s1\<close>] _ assms(4) _
            \<open>prepared a s1 s2\<close> that]])
      show "idle a s1" by (rule idle_upper[OF assms(3) \<open>upper s1 = upper s\<close>])
      show "matching (viters s1) cb x cl" using assms(5) \<open>upper s1 = upper s\<close> by (simp add: upper_def)
    qed (blast intro: stays_trans[OF weak[OF \<open>stays E a (insert (arg_res x) F) s s1\<close>]])
    then show ?thesis
      unfolding gettime_def
      by (simp only: returns_bind prod.case returns_simps, intro returns_mono[OF ext_neutral[where C = "\<lambda>_. True"]])
         auto
  qed
  have rest: "returns (if passive_socket c \<ge> 0 then prepare_data_connection_passive E a s1
        else prepare_data_connection_active E a s1)
      (\<lambda>r s2. if r < 0 then stays E a (insert (arg_res x) F) s s2 else prepared a s1 s2)"
    if "stays E a (insert (arg_res x) F) s s1" "upper s1 = upper s" "heap s1 a = Some c" for s1 c
    using that assms(1,3) stays_good[OF that(1)]
    by (auto intro!: returns_mono[OF prepare_passive_returns] returns_mono[OF prepare_active_returns]
        intro: idle_upper stays_trans split: if_splits)
  show ?thesis
    unfolding prepare_data_connection_def attached_def[symmetric]
    apply (simp only: returns_bind prod.case)
    apply (rule returns_mono[OF write_reply_upper[OF assms(1,2)]], simp, elim conjE)
    apply (rule returns_ifI, simp add: weak)
    apply (simp only: returns_bind prod.case)
    apply (rule returns_mono[OF deref_good], erule stays_good, elim conjE, hypsubst)
    apply (rule returns_mono[OF rest], assumption, assumption, assumption)
    apply (rule returns_ifI)
     apply (simp only: if_True)
     apply (rule returns_mono[OF reply_after(1)[OF assms(1)]], assumption, simp, simp add: weak)
    apply (simp only: if_False returns_bind prod.case)
    apply (rule returns_mono[OF attach], assumption, assumption, assumption)
    apply (erule returns_mono, simp)
    done
qed

end
