(* ===== verification/Transfers.thy ===== *)
theory Transfers
  imports Handlers
begin

text \<open>
  The commands that open a data connection hand the file or the directory they opened over to the
  client or close it, and the release of a data connection gives back what it held.
\<close>

section \<open>Resources in hand\<close>

lemma vframe_fields:
  "vframe s s' \<Longrightarrow> heap s' = heap s \<and> clients s' = clients s \<and> num_clients s' = num_clients s \<and>
     password s' = password s \<and> VIRTUAL_PARTITIONS s' = VIRTUAL_PARTITIONS s \<and> extends s s'"
  by (cases s; cases s') (auto simp: vframe_def intro: logs_extends)

lemma acquire_good:
  assumes "good E a F s" "frame C s s1" "R \<notin> held (trace s)" "held (trace s1) = insert R (held (trace s))"
  shows "good E a (insert R F) s1 \<and> stays E a F s s1 \<and> R \<notin> F \<and> upper s1 = upper s"
proof -
  have u: "upper s1 = upper s" "VIRTUAL_PARTITIONS s1 = VIRTUAL_PARTITIONS s"
    using base_more_upper[OF frame_more[OF assms(2)]] by auto
  have F: "F \<subseteq> held (trace s)" using assms(1) by (auto simp: good_def)
  have "good E a (insert R F) s1"
    using assms(1,3,4) owned_upper[OF u(1), of a] u by (auto simp: good_def fs_wf_def upper_def)
  then have "good E a F s1" by (rule good_weaken) blast
  then have "stays E a F s s1"
    using good_client[OF assms(1)] u frame_extends[OF assms(2)] by (auto simp: stays_def upper_def)
  then show ?thesis using \<open>good E a (insert R F) s1\<close> u F assms(3) by blast
qed

lemma same_owned_password:
  "heap s' = heap s \<Longrightarrow> password s' = password s \<Longrightarrow> owned b c s' = owned b c s"
  by (simp add: owned_def pw_res_def)

lemma data_ok_viters:
  assumes "data_ok v c" "\<And>b. data_connection_callback_arg c = Some (Arg_dir (Fake b)) \<Longrightarrow> w b = v b"
  shows "data_ok w c"
  using assms unfolding data_ok_def
  by (auto split: option.splits data_arg.splits elim!: iter_ok.elims)

lemma data_res_fake: "data_connection_callback_arg c = Some (Arg_dir (Fake b)) \<Longrightarrow> Mem b \<in> set (owned a c s)"
  by (simp add: owned_def data_res_def)

lemma diropen_good:
  assumes "good E a F s" "idle a s" "diropen_result s r s1"
  shows "case r of None \<Rightarrow> stays E a F s s1
     | Some d \<Rightarrow> stays E a F s s1 \<and> good E a (insert (iter_res d) F) s1 \<and> idle a s1 \<and> iter_res d \<notin> F \<and> iter_ok (viters s1) d"
proof -
  note f = vframe_fields[of s s1]
  have vf: "vframe s s1" using assms(3) by (simp add: diropen_result_def)
  obtain c where c: "heap s a = Some c" "client_ok E (viters s) c" using good_client[OF assms(1)] by blast
  have arg: "data_connection_callback_arg c = None" using idle_data[OF assms(2) c] by simp
  have ok: "client_ok E v c" for v
    using c(2) data_ok_viters[of "viters s" c v] arg by (simp add: client_ok_def)
  have F: "F \<subseteq> held (trace s)" using assms(1) by (auto simp: good_def)
  show ?thesis
  proof (cases r)
    case None
    then show ?thesis
      using assms(1,3) vf f[OF vf] c ok same_owned_password[of s1 s]
      by (auto simp: diropen_result_def stays_def good_def fs_wf_def)
  next
    case (Some d)
    then have r: "iter_res d \<notin> held (trace s)" "held (trace s1) = insert (iter_res d) (held (trace s))"
      "iter_ok (viters s1) d" "viters s1 = (case d of Real _ \<Rightarrow> viters s | Fake b \<Rightarrow> (viters s)(b \<mapsto> 0))"
      using assms(3) by (auto simp: diropen_result_def)
    have g: "good E a (insert (iter_res d) F) s1"
      using assms(1) f[OF vf] c ok r(1,2) same_owned_password[of s1 s]
      by (auto simp: good_def fs_wf_def)
    moreover have "good E a F s1" by (rule good_weaken[OF g]) blast
    moreover have "Mem x \<in> F \<Longrightarrow> viters s1 x = viters s x" for x
      using r F by (cases d) auto
    ultimately show ?thesis
      using Some f[OF vf] c assms(2) r F by (auto simp: stays_def idle_def)
  qed
qed

lemma good_holds: "good E a (insert x F) s \<Longrightarrow> x \<in> held (trace s)"
  by (auto simp: good_def)

lemma dirclose_good:
  assumes "good E a (insert (iter_res d) F) s" "iter_res d \<notin> F" "iter_ok (viters s) d"
  shows "returns (vrt_dirclose E d s) (\<lambda>_ s'. stays E a F s s')"
proof (rule returns_mono[OF vrt_dirclose_returns[OF assms(3) good_holds[OF assms(1)]]], elim conjE)
  fix s'
  assume vf: "vframe s s'" and h: "held (trace s') = held (trace s) - {iter_res d}"
    and v: "viters s' = (case d of Real _ \<Rightarrow> viters s | Fake b \<Rightarrow> (viters s)(b := None))"
  note f = vframe_fields[OF vf]
  obtain c where c: "heap s a = Some c" "client_ok E (viters s) c" "set (owned a c s) \<inter> insert (iter_res d) F = {}"
    using assms(1) by (auto simp: good_def)
  have "viters s' b = viters s b" if "data_connection_callback_arg c = Some (Arg_dir (Fake b))" for b
    using data_res_fake[OF that, of a s] c(3) v by (cases d) auto
  then have "client_ok E (viters s') c"
    using c(2) data_ok_viters[of "viters s" c "viters s'"] by (auto simp: client_ok_def)
  moreover have "Mem x \<in> F \<Longrightarrow> viters s' x = viters s x" for x
    using v assms(2) by (cases d) auto
  ultimately show "stays E a F s s'"
    using assms(1,2) f h c same_owned_password[of s' s]
    by (auto simp: stays_def good_def fs_wf_def)
qed

lemma fclose_good:
  assumes "good E a (insert (File f) F) s" "File f \<notin> F"
  shows "returns (fclose E f s) (\<lambda>_ s'. stays E a F s s')"
proof -
  have "stays E a F s s'" if "base.more s' = base.more s" "trace s' = trace s @ [(CFile (Fclose f), r)]" for s' r
    using assms that(2) base_more_upper[OF that(1)] owned_upper[of s' s a] snoc_extends[OF that(2)]
    by (auto simp: stays_def good_def fs_wf_def upper_def)
  then show ?thesis
    unfolding fclose_def ext_on_held[OF good_holds[OF assms(1)]]
    by (simp only: returns_bind prod.case returns_simps, intro returns_mono[OF ext_step]) blast
qed

section \<open>The commands\<close>

lemma open_listing_good:
  assumes "laws E" "good E a F s" "idle a s" "cb = Send_nlst \<or> cb = Send_list"
  shows "returns (open_listing E a p cb s) (\<lambda>r s'. stays E a F s s')"
proof -
  have go: "returns (prepare_data_connection E a cb (Arg_dir d) Cleanup_dirclose s1) (\<lambda>r s2.
      returns (if r < 0 then do { (_, s) \<leftarrow> vrt_dirclose E d s2; Some (r, s) } else Some (r, s2)) (\<lambda>_ s'. stays E a F s s'))"
    if d: "stays E a F s s1" "good E a (insert (iter_res d) F) s1" "idle a s1" "iter_res d \<notin> F" "iter_ok (viters s1) d" for d s1
  proof -
    have "returns (prepare_data_connection E a cb (Arg_dir d) Cleanup_dirclose s1) (\<lambda>r s'. stays E a F s1 s' \<and>
        (r < 0 \<longrightarrow> stays E a (insert (iter_res d) F) s1 s'))"
      using prepare_good[OF assms(1), of a "Arg_dir d" F s1 cb Cleanup_dirclose] d assms(4) by simp
    moreover have "returns (vrt_dirclose E d s2) (\<lambda>_ s'. stays E a F s s')"
      if "stays E a (insert (iter_res d) F) s1 s2" for s2
    proof -
      have "iter_ok (viters s2) d"
        using that d(5) unfolding stays_def by (cases d) auto
      moreover have "stays E a F s s2" using d(1) stays_weaken[OF that, of F] stays_trans by blast
      ultimately show ?thesis
        by (intro returns_mono[OF dirclose_good[OF stays_good[OF that] d(4)]]) (blast intro: stays_trans)+
    qed
    ultimately show ?thesis
      by (elim returns_mono) (auto intro: stays_trans[OF d(1)])
  qed
  show ?thesis
    unfolding open_listing_def
    apply (simp only: returns_bind prod.case)
    apply (rule returns_mono[OF deref_good[OF assms(2)]], elim conjE, hypsubst)
    apply (rule returns_mono[OF vrt_diropen_returns[OF laws_fresh[OF assms(1)] good_wf[OF assms(2)]]])
    apply (drule diropen_good[OF assms(2,3)])
    subgoal for c s0 r s1
      apply (cases r)
       apply (simp add: reply_after assms(1))
      apply (simp only: option.case returns_bind prod.case, elim conjE)
      apply (rule go, assumption+)
      done
    done
qed

lemma ftp_NLST_good [handler_good]:
  "laws E \<Longrightarrow> ready E a F x s \<Longrightarrow> returns (ftp_NLST E a x s) (\<lambda>r s'. stays E a F s s')"
  unfolding ftp_NLST_def by (rule open_listing_good) (auto dest: readyD)

lemma ftp_LIST_good [handler_good]:
  assumes "laws E" "ready E a F x s"
  shows "returns (ftp_LIST E a x s) (\<lambda>r s'. stays E a F s s')"
proof -
  obtain n w v where "split2 x = Some (n, w, v)" using split2_words[OF readyD(4)[OF assms(2)]] by blast
  then show ?thesis
    unfolding ftp_LIST_def
    by (auto intro!: open_listing_good assms(1) readyD(1,2)[OF assms(2)])
qed

text \<open>A client that has an open file in hand, and the steps that end with it handed over or closed.\<close>

definition file_in_hand :: "env \<Rightarrow> int \<Rightarrow> resource set \<Rightarrow> int \<Rightarrow> 'z ftp_st_scheme \<Rightarrow> bool" where
  "file_in_hand E a F f s \<longleftrightarrow> good E a (insert (File f) F) s \<and> idle a s \<and> File f \<notin> F"

lemma file_in_hand_stays:
  "file_in_hand E a F f s \<Longrightarrow> stays E a (insert (File f) F) s s' \<Longrightarrow> idle a s' \<Longrightarrow> file_in_hand E a F f s' \<and> stays E a F s s'"
  unfolding file_in_hand_def using stays_good stays_weaken[of E a "insert (File f) F" s s' F] by blast

lemma fclose_in_hand: "file_in_hand E a F f s \<Longrightarrow> returns (fclose E f s) (\<lambda>_ s'. stays E a F s s')"
  unfolding file_in_hand_def by (blast intro: fclose_good)

lemma seek_fails_good:
  assumes "file_in_hand E a F f s"
  shows "returns (seek_fails E f m s) (\<lambda>_ s'. file_in_hand E a F f s' \<and> stays E a F s s')"
proof -
  have g: "good E a (insert (File f) F) s" "idle a s" using assms by (simp_all add: file_in_hand_def)
  have st: "file_in_hand E a F f s' \<and> stays E a F s s'"
    if "stays E a (insert (File f) F) s s' \<and> upper s' = upper s" for s'
    using file_in_hand_stays[OF assms] that idle_upper[OF g(2)] by blast
  show ?thesis
    unfolding seek_fails_def ext_on_held[OF good_holds[OF g(1)]]
    apply (rule returns_ifI)
     apply (simp add: st stays_refl g)
    apply (simp only: returns_bind prod.case returns_simps)
    apply (rule returns_mono[OF stays_ext[OF stays_refl[OF g(1)]]], simp)
    apply (erule st)
    done
qed

lemma marker_reset:
  assumes "file_in_hand E a F f s"
  shows "returns (modify a (\<lambda>c. c\<lparr>restart_marker := 0\<rparr>) s) (\<lambda>_ s'. file_in_hand E a F f s' \<and> stays E a F s s')"
proof -
  have g: "good E a (insert (File f) F) s" "idle a s" using assms by (simp_all add: file_in_hand_def)
  show ?thesis
    by (rule returns_mono[OF modify_good[OF g(1)]])
       (use g(2) file_in_hand_stays[OF assms] in \<open>auto simp: client_ok_marker idle_def\<close>)
qed

lemma transfer_file_good:
  assumes "laws E" "file_in_hand E a F f s" "cb = Send_from_file \<or> cb = Recv_to_file"
  shows "returns (transfer_file E a cb f s) (\<lambda>_ s'. stays E a F s s')"
proof -
  have g: "good E a (insert (File f) F) s" "idle a s" "File f \<notin> F" using assms by (simp_all add: file_in_hand_def)
  have "returns (prepare_data_connection E a cb (Arg_file f) Cleanup_fclose s) (\<lambda>r s'. stays E a F s s' \<and>
      (r < 0 \<longrightarrow> stays E a (insert (File f) F) s s'))"
    using prepare_good[OF assms(1), of a "Arg_file f" F s cb Cleanup_fclose] g assms(3) by simp
  moreover have "returns (fclose E f s1) (\<lambda>_ s'. stays E a F s s')"
    if "stays E a (insert (File f) F) s s1" "stays E a F s s1" for s1
    by (rule returns_mono[OF fclose_good[OF stays_good[OF that(1)] g(3)]]) (blast intro: stays_trans that(2))
  ultimately show ?thesis
    unfolding transfer_file_def
    by (simp only: returns_bind prod.case) (elim returns_mono, auto)
qed

lemma seek_error_good:
  assumes "laws E" "file_in_hand E a F f s"
  shows "returns (seek_error E a f s) (\<lambda>_ s'. stays E a F s s')"
  unfolding seek_error_def Let_def
  by (auto simp: client_ok_marker intro!: returns_mono[OF fclose_in_hand[OF assms(2)]] returns_mono[OF modify_after] reply_after assms(1))

lemma fopen_good:
  assumes "laws E" "good E a F s" "idle a s"
  shows "returns (vrt_fopen E d p m s) (\<lambda>f s'. stays E a F s s' \<and> (f \<noteq> 0 \<longrightarrow> file_in_hand E a F f s'))"
  apply (rule returns_mono[OF vrt_fopen_returns[OF laws_fresh[OF assms(1)] good_wf[OF assms(2)]]], elim conjE)
  subgoal for f s'
    using acquire_good[OF assms(2), of _ s' "File f"] idle_upper[OF assms(3), of s'] stays_base[OF assms(2), of s']
    by (auto dest: frame_more frame_extends simp: file_in_hand_def split: if_splits)
  done

lemma in_hand_steps:
  assumes "laws E" "file_in_hand E a F f s1" "stays E a F s s1"
  shows "returns (seek_fails E f m s1) (\<lambda>_ s'. file_in_hand E a F f s' \<and> stays E a F s s')"
    and "returns (modify a (\<lambda>c. c\<lparr>restart_marker := 0\<rparr>) s1) (\<lambda>_ s'. file_in_hand E a F f s' \<and> stays E a F s s')"
    and "returns (seek_error E a f s1) (\<lambda>_ s'. stays E a F s s')"
    and "cb = Send_from_file \<or> cb = Recv_to_file \<Longrightarrow> returns (transfer_file E a cb f s1) (\<lambda>_ s'. stays E a F s s')"
  using assms
  by (auto intro: returns_mono[OF seek_fails_good] returns_mono[OF marker_reset] returns_mono[OF seek_error_good]
      returns_mono[OF transfer_file_good] stays_trans)

lemma ftp_RETR_good [handler_good]:
  assumes "laws E" "ready E a F x s"
  shows "returns (ftp_RETR E a x s) (\<lambda>r s'. stays E a F s s')"
  unfolding ftp_RETR_def
  apply (simp only: returns_bind prod.case)
  apply (rule returns_mono[OF deref_good[OF readyD(1)[OF assms(2)]]], elim conjE, hypsubst)
  apply (rule returns_mono[OF fopen_good[OF assms(1) readyD(1,2)[OF assms(2)]]], elim conjE)
  apply (rule returns_ifI, simp add: reply_after assms(1), drule (1) mp)
  apply (simp only: returns_bind prod.case)
  apply (rule returns_mono[OF in_hand_steps(1)[OF assms(1)]], assumption+, elim conjE)
  apply (rule returns_ifI, rule in_hand_steps(3)[OF assms(1)], assumption+)
  apply (simp only: returns_bind prod.case)
  apply (rule returns_mono[OF in_hand_steps(2)[OF assms(1)]], assumption+, elim conjE)
  apply (rule in_hand_steps(4)[OF assms(1)], assumption+, simp)
  done

lemma stor_or_append_good:
  assumes "laws E" "stays E a F s s1" "f \<noteq> 0 \<longrightarrow> file_in_hand E a F f s1"
  shows "returns (stor_or_append E a f s1) (\<lambda>r s'. stays E a F s s')"
  unfolding stor_or_append_def using assms by (auto intro!: reply_after in_hand_steps(4))

lemma ftp_APPE_good [handler_good]:
  assumes "laws E" "ready E a F x s"
  shows "returns (ftp_APPE E a x s) (\<lambda>r s'. stays E a F s s')"
  unfolding ftp_APPE_def
  by (auto intro!: returns_mono[OF deref_good[OF readyD(1)[OF assms(2)]]]
      returns_mono[OF fopen_good[OF assms(1) readyD(1,2)[OF assms(2)]]] stor_or_append_good assms(1))

lemma ftp_STOR_good [handler_good]:
  assumes "laws E" "ready E a F x s"
  shows "returns (ftp_STOR E a x s) (\<lambda>r s'. stays E a F s s')"
proof -
  have seek: "returns (if f = 0 then Some (False, s1) else seek_fails E f m s1)
      (\<lambda>bad s'. stays E a F s s' \<and> (bad \<longrightarrow> f \<noteq> 0) \<and> (f \<noteq> 0 \<longrightarrow> file_in_hand E a F f s'))"
    if "stays E a F s s1" "f \<noteq> 0 \<longrightarrow> file_in_hand E a F f s1" for f m s1
    using that by (auto intro!: returns_mono[OF in_hand_steps(1)[OF assms(1)]])
  have marker: "returns (modify a (\<lambda>c. c\<lparr>restart_marker := 0\<rparr>) s1)
      (\<lambda>_ s'. stays E a F s s' \<and> (f \<noteq> 0 \<longrightarrow> file_in_hand E a F f s'))"
    if "stays E a F s s1" "f \<noteq> 0 \<longrightarrow> file_in_hand E a F f s1" for f s1
  proof (cases "f = 0")
    case True
    show ?thesis by (rule returns_mono[OF modify_after[OF that(1)]]) (simp_all add: client_ok_marker True)
  next
    case False
    show ?thesis by (rule returns_mono[OF in_hand_steps(2)[OF assms(1)]]) (use that False in auto)
  qed
  show ?thesis
    unfolding ftp_STOR_def
    apply (simp only: returns_bind prod.case)
    apply (rule returns_mono[OF deref_good[OF readyD(1)[OF assms(2)]]], elim conjE, hypsubst)
    apply (rule returns_mono[OF fopen_good[OF assms(1) readyD(1,2)[OF assms(2)]]], elim conjE)
    apply (rule returns_mono[OF seek], assumption+, elim conjE)
    apply (rule returns_ifI, rule in_hand_steps(3)[OF assms(1)], simp, assumption)
    apply (simp only: returns_bind prod.case)
    apply (rule returns_mono[OF marker], assumption+, elim conjE)
    apply (rule stor_or_append_good[OF assms(1)], assumption+)
    done
qed

section \<open>Releasing a data connection\<close>

definition cleared :: "client \<Rightarrow> client" where
  "cleared c = c\<lparr>data_socket := -1, data_connection_connected := False, data_callback := None,
     data_connection_callback_arg := None, data_connection_cleanup := None, data_connection_timer := 0\<rparr>"

text \<open>What a data connection holds: the argument's resource and its own socket.\<close>

definition data_sock :: "client \<Rightarrow> resource list" where
  "data_sock c = (if data_socket c \<ge> 0 \<and> data_socket c \<noteq> passive_socket c then [Sock (data_socket c)] else [])"

definition viters_without :: "data_arg option \<Rightarrow> (int \<Rightarrow> nat option) \<Rightarrow> int \<Rightarrow> nat option" where
  "viters_without x v = (case x of Some (Arg_dir (Fake b)) \<Rightarrow> v(b := None) | _ \<Rightarrow> v)"

lemma viters_without_simps [simp]:
  "viters_without None v = v" "viters_without (Some (Arg_file f)) v = v"
  "viters_without (Some (Arg_dir (Real d))) v = v" "viters_without (Some (Arg_dir (Fake b))) v = v(b := None)"
  by (simp_all add: viters_without_def)

text \<open>Everything but the heap and the iterators.\<close>

definition lower :: "'z ftp_st_scheme \<Rightarrow> int list \<times> u8 \<times> (int \<times> string) option \<times> virtual_partition list" where
  "lower s = (clients s, num_clients s, password s, VIRTUAL_PARTITIONS s)"

lemma base_more_lower: "base.more s' = base.more s \<Longrightarrow> lower s' = lower s \<and> heap s' = heap s \<and> viters s' = viters s"
  using base_more_upper[of s' s] by (auto simp: lower_def upper_def)

definition data_released :: "int \<Rightarrow> client \<Rightarrow> 'z ftp_st_scheme \<Rightarrow> 'z ftp_st_scheme \<Rightarrow> bool" where
  "data_released a c s s' \<longleftrightarrow> extends s s' \<and> heap s' = (heap s)(a \<mapsto> cleared c) \<and> lower s' = lower s \<and>
     held (trace s') = held (trace s) - set (data_sock c @ data_res c) \<and>
     viters s' = viters_without (data_connection_callback_arg c) (viters s)"

lemma run_cleanup_returns:
  assumes "data_ok (viters s) c" "data_connection_cleanup c = Some f" "set (data_res c) \<subseteq> held (trace s)"
  shows "returns (run_cleanup E f (data_connection_callback_arg c) s) (\<lambda>_ s'. extends s s' \<and> heap s' = heap s \<and> lower s' = lower s \<and>
    held (trace s') = held (trace s) - set (data_res c) \<and> viters s' = viters_without (data_connection_callback_arg c) (viters s))"
proof -
  consider d where "data_connection_callback_arg c = Some (Arg_dir d)" "f = Cleanup_dirclose" "iter_ok (viters s) d"
    | k where "data_connection_callback_arg c = Some (Arg_file k)" "f = Cleanup_fclose"
    using assms by (auto simp: data_ok_def split: option.splits data_arg.splits)
  then show ?thesis
  proof cases
    case (1 d)
    then have "iter_res d \<in> held (trace s)" using assms(3) by (simp add: data_res_def)
    show ?thesis
      unfolding 1 run_cleanup.simps data_res_def option.case
      by (rule returns_mono[OF vrt_dirclose_returns[OF 1(3) \<open>iter_res d \<in> held (trace s)\<close>]], elim conjE, drule vframe_fields)
         (cases d, simp_all add: lower_def)
  next
    case (2 k)
    then have "File k \<in> held (trace s)" using assms(3) by (simp add: data_res_def)
    show ?thesis
      unfolding 2 run_cleanup.simps data_res_def option.case fclose_def ext_on_held[OF \<open>File k \<in> held (trace s)\<close>]
      by (simp only: returns_bind prod.case returns_simps, intro returns_mono[OF ext_step], elim conjE, drule base_more_lower)
         (simp add: snoc_extends)
  qed
qed

lemma data_res_disjoint: "x \<in> set (data_res c) \<Longrightarrow> x \<notin> set (data_sock c)"
proof -
  have "arg_res a \<noteq> Sock k" for a k
    by (cases a rule: arg_res.cases; simp) (rename_tac d, case_tac d, simp_all)
  then show "x \<in> set (data_res c) \<Longrightarrow> x \<notin> set (data_sock c)"
    by (auto simp: data_res_def data_sock_def split: option.splits if_splits)
qed

lemma cleanup_data_returns:
  assumes "heap s a = Some c" "data_ok (viters s) c" "set (data_res c) \<subseteq> held (trace s)"
  shows "returns (cleanup_data_resources E a s) (\<lambda>_ s'. data_released a c s s')"
proof -
  let ?c = "c\<lparr>data_socket := -1, data_connection_connected := False, data_callback := None\<rparr>"
  have close: "returns (if data_socket c \<ge> 0 \<and> data_socket c \<noteq> passive_socket c
       then do { (_, s) \<leftarrow> net_close_blocking E (data_socket c) s; Some ((), s) } else Some ((), s))
     (\<lambda>_ s1. extends s s1 \<and> heap s1 = heap s \<and> lower s1 = lower s \<and> viters s1 = viters s \<and>
        held (trace s1) = held (trace s) - set (data_sock c))"
    by (rule returns_ifI, simp only: returns_bind prod.case returns_simps, rule returns_mono[OF net_close_blocking_returns])
       (auto simp: data_sock_def dest: base_more_lower)
  have clean: "returns (case data_connection_cleanup c of
         Some f \<Rightarrow> do { (_, s) \<leftarrow> run_cleanup E f (data_connection_callback_arg c) s2; Some ((), s) }
       | None \<Rightarrow> Some ((), s2)) (\<lambda>_ s3. extends s2 s3 \<and> heap s3 = heap s2 \<and> lower s3 = lower s2 \<and>
     held (trace s3) = held (trace s2) - set (data_res c) \<and> viters s3 = viters_without (data_connection_callback_arg c) (viters s2))"
    if "viters s2 = viters s" "held (trace s2) = held (trace s) - set (data_sock c)" for s2
  proof (cases "data_connection_cleanup c")
    case None
    then have "data_connection_callback_arg c = None"
      using assms(2) by (auto simp: data_ok_def split: option.splits data_arg.splits)
    then show ?thesis by (simp add: None data_res_def)
  next
    case (Some f)
    show ?thesis
      unfolding Some option.case
      using assms(3) data_res_disjoint
      by (simp only: returns_bind prod.case returns_simps)
         (rule run_cleanup_returns; auto simp: that assms(2) Some)
  qed
  show ?thesis
    unfolding cleanup_data_resources_def deref_def assms(1) option.case
    apply (simp only: returns_bind prod.case returns_simps)
    apply (rule returns_mono[OF close], elim conjE)
    subgoal for _ s1
      apply (simp only: modify_def assms(1) option.case returns_simps)
      apply (rule returns_mono[OF clean], simp, simp, elim conjE)
      apply (auto simp: data_released_def cleared_def lower_def intro: logs_trans)
      done
    done
qed

lemma cleared_simps [simp]:
  "socket (cleared c) = socket c" "buf (cleared c) = buf c" "cwd (cleared c) = cwd c" "passive_socket (cleared c) = passive_socket c"
  "restart_marker (cleared c) = restart_marker c" "data_connection_callback_arg (cleared c) = None"
  "data_callback (cleared c) = None" "data_connection_cleanup (cleared c) = None" "data_socket (cleared c) = -1"
  by (simp_all add: cleared_def)

lemma cleared_ok: "client_ok E v c \<Longrightarrow> client_ok E w (cleared c)"
  by (simp add: client_ok_def data_ok_def)

lemma released_good:
  assumes "good E a F s" "heap s a = Some c" "data_released a c s s'"
  shows "stays E a F s s' \<and> idle a s'"
proof -
  have c: "client_ok E (viters s) c" "distinct (owned a c s)" "set (owned a c s) \<inter> F = {}"
    "set (owned a c s) \<union> F \<subseteq> held (trace s)"
    using assms(1,2) by (auto simp: good_def)
  have r0: "extends s s'" using assms(3) by (simp add: data_released_def)
  have r: "heap s' = (heap s)(a \<mapsto> cleared c)" "lower s' = lower s" "held (trace s') = held (trace s) - set (data_sock c @ data_res c)"
    "viters s' = viters_without (data_connection_callback_arg c) (viters s)"
    using assms(3) by (simp_all add: data_released_def)
  have own: "owned a c s = (Mem a # pw_res s @ socks (cleared c)) @ (data_sock c @ data_res c)"
    by (simp add: owned_def socks_def data_sock_def)
  have own': "owned a (cleared c) s' = Mem a # pw_res s @ socks (cleared c)"
    using r(2) by (simp add: owned_def pw_res_def data_res_def lower_def)
  have "distinct (owned a (cleared c) s')" "set (owned a (cleared c) s') \<inter> F = {}"
    "set (owned a (cleared c) s') \<union> F \<subseteq> held (trace s')"
    using c(2,3,4) unfolding r(3) own own' by auto
  moreover have "Mem x \<in> F \<Longrightarrow> viters s' x = viters s x" for x
    using c(3) r(4) by (auto simp: viters_without_def owned_def data_res_def split: option.splits data_arg.splits dir_iter.splits)
  ultimately show ?thesis
    using assms(1,2) r0 r(1,2) cleared_ok[OF c(1), of "viters s'"]
    by (auto simp: stays_def good_def fs_wf_def lower_def idle_def)
qed

lemma cleanup_data_good:
  assumes "good E a F s"
  shows "returns (cleanup_data_resources E a s) (\<lambda>_ s'. stays E a F s s' \<and> idle a s')"
proof -
  obtain c where c: "heap s a = Some c" "data_ok (viters s) c" "set (data_res c) \<subseteq> held (trace s)"
    using assms by (auto simp: good_def client_ok_def owned_def)
  show ?thesis
    by (rule returns_mono[OF cleanup_data_returns[OF c]]) (rule released_good[OF assms c(1)])
qed

end
