(* ===== verification/Loader.thy ===== *)
theory Loader
  imports Net
begin

text \<open>
  \<open>source/loader.c\<close> and \<open>source/dol.c\<close>: reading an executable into memory, copying its sections to
  their addresses with its argument block, and entering it. Memory is a map from addresses to
  bytes; words in it are big endian, as on the console's processor.

  The jump to the entry point is the call \<open>Run\<close> of the environment: an answer 0 means that the
  executable has taken the machine over, so that control does not come back.
\<close>

type_synonym memory = "u32 \<Rightarrow> u8"

definition ARGV_MAGIC :: u32 where "ARGV_MAGIC = 0x5f617267"
definition DOL_ADDRESS :: u32 where "DOL_ADDRESS = 0x92000000"
definition READ_SIZE :: nat where "READ_SIZE = 0x8000"
definition sizeof_argv :: nat where "sizeof_argv = 24"

section \<open>Memory\<close>

definition read_u32 :: "memory \<Rightarrow> u32 \<Rightarrow> u32" where
  "read_u32 m a = push_bit 24 (ucast (m a)) OR push_bit 16 (ucast (m (a + 1))) OR
     push_bit 8 (ucast (m (a + 2))) OR ucast (m (a + 3))"

definition in_range :: "u32 \<Rightarrow> u32 \<Rightarrow> nat \<Rightarrow> bool" where
  "in_range x a n \<longleftrightarrow> unat (x - a) < n"

definition memmove :: "memory \<Rightarrow> u32 \<Rightarrow> u32 \<Rightarrow> nat \<Rightarrow> memory" where
  "memmove m dst src n = (\<lambda>x. if in_range x dst n then m (src + (x - dst)) else m x)"

definition store_bytes :: "memory \<Rightarrow> u32 \<Rightarrow> u8 list \<Rightarrow> memory" where
  "store_bytes m dst bs = (\<lambda>x. if in_range x dst (length bs) then bs ! unat (x - dst) else m x)"

section \<open>The header of an executable\<close>

text \<open>The addresses of the fields of the header at \<open>d\<close>, four bytes each in the struct's order.\<close>

definition text_pos :: "memory \<Rightarrow> u32 \<Rightarrow> nat \<Rightarrow> u32" where
  "text_pos m d i = read_u32 m (d + 4 * of_nat i)"
definition data_pos :: "memory \<Rightarrow> u32 \<Rightarrow> nat \<Rightarrow> u32" where
  "data_pos m d i = read_u32 m (d + 4 * of_nat (7 + i))"
definition text_start :: "memory \<Rightarrow> u32 \<Rightarrow> nat \<Rightarrow> u32" where
  "text_start m d i = read_u32 m (d + 4 * of_nat (18 + i))"
definition data_start :: "memory \<Rightarrow> u32 \<Rightarrow> nat \<Rightarrow> u32" where
  "data_start m d i = read_u32 m (d + 4 * of_nat (25 + i))"
definition text_size :: "memory \<Rightarrow> u32 \<Rightarrow> nat \<Rightarrow> u32" where
  "text_size m d i = read_u32 m (d + 4 * of_nat (36 + i))"
definition data_size :: "memory \<Rightarrow> u32 \<Rightarrow> nat \<Rightarrow> u32" where
  "data_size m d i = read_u32 m (d + 4 * of_nat (43 + i))"
definition entry_point :: "memory \<Rightarrow> u32 \<Rightarrow> u32" where
  "entry_point m d = read_u32 m (d + 4 * 56)"

section \<open>Copying the sections\<close>

definition copy_section :: "u32 \<Rightarrow> u32 \<Rightarrow> u32 \<Rightarrow> u32 \<Rightarrow> memory \<Rightarrow> memory" where
  "copy_section d pos start len m =
     (if len = 0 \<or> start < 0x100 then m else memmove m start (d + pos) (unat len))"

text \<open>The header is read again in every turn, from the memory that the turns before have written.\<close>

definition load_text :: "u32 \<Rightarrow> nat \<Rightarrow> memory \<Rightarrow> memory" where
  "load_text d i m = copy_section d (text_pos m d i) (text_start m d i) (text_size m d i) m"

definition load_data :: "u32 \<Rightarrow> nat \<Rightarrow> memory \<Rightarrow> memory" where
  "load_data d i m = copy_section d (data_pos m d i) (data_start m d i) (data_size m d i) m"

text \<open>\<open>argv\<close> is the argument block, whose first word is \<open>argvMagic\<close>; \<open>None\<close> is NULL.\<close>

definition load_dol_image :: "u32 \<Rightarrow> (u32 \<times> u8 list) option \<Rightarrow> memory \<Rightarrow> u32 \<times> memory" where
  "load_dol_image d argv m =
     (let m = fold (load_text d) [0..<7] m;
          m = fold (load_data d) [0..<11] m;
          m = (case argv of
                 Some (magic, block) \<Rightarrow> if magic = ARGV_MAGIC then store_bytes m (entry_point m d + 8) block else m
               | None \<Rightarrow> m)
      in (entry_point m d, m))"

definition run_dol :: "env \<Rightarrow> u32 \<Rightarrow> (u32 \<times> u8 list) option \<Rightarrow> memory \<Rightarrow> 'z base_scheme \<Rightarrow> (unit \<times> 'z base_scheme) option" where
  "run_dol E d argv m s = (case load_dol_image d argv m of (ep, _) \<Rightarrow> do {
     (_, s) \<leftarrow> ext E (CSys IOS_ShutdownSubsystems) s;
     (r, s) \<leftarrow> ext E (CSys (Run ep)) s;
     if ret r = 0 then None else Some ((), s)
   })"

section \<open>Reading the file\<close>

definition to_bytes :: "string \<Rightarrow> u8 list" where
  "to_bytes s = map (\<lambda>c. of_nat (of_char c)) s"

partial_function (option) read_from_file ::
  "env \<Rightarrow> int \<Rightarrow> string \<Rightarrow> 'z base_scheme \<Rightarrow> ((bool \<times> string) \<times> 'z base_scheme) option" where
  "read_from_file E f got s = do {
     (b, s) \<leftarrow> fread E f READ_SIZE s;
     if length b < READ_SIZE then do {
       (r, s) \<leftarrow> ext_on (File f) E (CFile (Feof f)) s;
       Some ((ret r \<noteq> 0, got @ b), s)
     } else read_from_file E f (got @ b) s
   }"

declare read_from_file.simps [code]

definition bytes_of_u32 :: "u32 \<Rightarrow> u8 list" where
  "bytes_of_u32 w = [ucast (drop_bit 24 w), ucast (drop_bit 16 w), ucast (drop_bit 8 w), ucast w]"

text \<open>
  The block that \<open>load_from_file\<close> fills: the magic number, the address and the length of the command
  line, the count 1, and two addresses of its own stack frame, which the environment's \<open>ram\<close> stands
  in for: they are the only part of the block the code does not determine.
\<close>

definition argv_block :: "env \<Rightarrow> int \<Rightarrow> nat \<Rightarrow> u8 list" where
  "argv_block E p n = bytes_of_u32 ARGV_MAGIC @ bytes_of_u32 (word_of_int p) @ bytes_of_u32 (of_nat n) @
     bytes_of_u32 1 @ map (\<lambda>i. ram E (of_nat i)) [0..<8]"

definition load_from_file :: "env \<Rightarrow> int \<Rightarrow> string \<Rightarrow> 'z base_scheme \<Rightarrow> (unit \<times> 'z base_scheme) option" where
  "load_from_file E f arg s = do {
     let n = length arg + 2;
     (p, s) \<leftarrow> malloc E n s;
     if p = 0 then Some ((), s) else do {
       (r, s) \<leftarrow> ext_on (File f) E (CFile (Fstat f)) s;
       if ret r \<noteq> 0 then Some ((), s) else do {
         ((complete, image), s) \<leftarrow> read_from_file E f [] s;
         if \<not> complete then Some ((), s) else do {
           (_, s) \<leftarrow> run_dol E DOL_ADDRESS (Some (ARGV_MAGIC, argv_block E p n))
             (store_bytes (ram E) DOL_ADDRESS (to_bytes image)) s;
           free E p s
         }
       }
     }
   }"

section \<open>What is where after loading\<close>

lemma memmove_inside:
  "unat (x - dst) < n \<Longrightarrow> memmove m dst src n x = m (src + (x - dst))"
  by (simp add: memmove_def in_range_def)

lemma memmove_outside: "\<not> in_range x dst n \<Longrightarrow> memmove m dst src n x = m x"
  by (simp add: memmove_def)

lemma copy_section_outside:
  "\<not> in_range x start (unat len) \<Longrightarrow> copy_section d pos start len m x = m x"
  by (simp add: copy_section_def memmove_outside)

text \<open>
  A table of sections \<open>(start, pos, len)\<close> that a loop copies, when no section to copy overlaps the
  executable's image or an earlier section: every section has its bytes, and all else is as before.
\<close>

type_synonym dol_section = "u32 \<times> u32 \<times> u32"

definition copied :: "dol_section \<Rightarrow> bool" where
  "copied t = (case t of (start, pos, len) \<Rightarrow> len \<noteq> 0 \<and> 0x100 \<le> start)"

definition covers :: "dol_section \<Rightarrow> u32 \<Rightarrow> bool" where
  "covers t x = (case t of (start, pos, len) \<Rightarrow> copied t \<and> in_range x start (unat len))"

definition source_of :: "u32 \<Rightarrow> dol_section \<Rightarrow> u32 \<Rightarrow> u32" where
  "source_of d t x = (case t of (start, pos, len) \<Rightarrow> d + pos + (x - start))"

fun copy_sections :: "u32 \<Rightarrow> dol_section list \<Rightarrow> memory \<Rightarrow> memory" where
  "copy_sections d [] m = m"
| "copy_sections d ((start, pos, len) # ts) m = copy_sections d ts (copy_section d pos start len m)"

lemma copy_section_covers:
  "copy_section d pos start len m x =
     (if covers (start, pos, len) x then m (source_of d (start, pos, len) x) else m x)"
  by (auto simp: copy_section_def covers_def copied_def source_of_def memmove_def not_less)

text \<open>\<open>image d n\<close> are the addresses of an image of \<open>n\<close> bytes at \<open>d\<close>.\<close>

definition apart :: "u32 \<Rightarrow> nat \<Rightarrow> dol_section list \<Rightarrow> bool" where
  "apart d n ts \<longleftrightarrow> (\<forall>t \<in> set ts. \<forall>x. covers t x \<longrightarrow> \<not> in_range x d n \<and> in_range (source_of d t x) d n)"

lemma copy_sections_outside:
  "\<forall>t \<in> set ts. \<not> covers t x \<Longrightarrow> copy_sections d ts m x = m x"
  by (induction d ts m rule: copy_sections.induct) (simp_all add: copy_section_covers)

lemma apart_Cons: "apart d n (t # ts) \<Longrightarrow> apart d n ts"
  by (simp add: apart_def)

lemma copy_sections_image:
  assumes "apart d n ts" "in_range x d n"
  shows "copy_sections d ts m x = m x"
  by (rule copy_sections_outside) (use assms in \<open>unfold apart_def, blast\<close>)

lemma copy_sections_inside:
  assumes "apart d n ts" "t \<in> set ts" "covers t x" "\<forall>u \<in> set ts. covers u x \<longrightarrow> u = t"
  shows "copy_sections d ts m x = m (source_of d t x)"
  using assms
proof (induction d ts m rule: copy_sections.induct)
  case (2 d start pos len ts m)
  let ?u = "(start, pos, len)" and ?m = "copy_section d pos start len m"
  have img: "in_range (source_of d t x) d n" using 2(2-4) unfolding apart_def by blast
  have same: "?m y = m y" if "in_range y d n" for y
  proof -
    have "\<not> covers ?u y" using 2(2) that unfolding apart_def by force
    then show ?thesis by (simp only: copy_section_covers if_False)
  qed
  show ?case
  proof (cases "t \<in> set ts")
    case True
    have "copy_sections d ts ?m x = ?m (source_of d t x)"
      by (rule "2.IH"[OF apart_Cons[OF "2.prems"(1)] True "2.prems"(3)]) (use "2.prems"(4) in simp)
    then show ?thesis by (simp only: copy_sections.simps same[OF img])
  next
    case False
    then have t: "t = ?u" using "2.prems"(2) by simp
    have "\<forall>u \<in> set ts. \<not> covers u x" using "2.prems"(4) False by (metis list.set_intros(2))
    then have "copy_sections d ts ?m x = ?m x" by (rule copy_sections_outside)
    then show ?thesis using "2.prems"(3) t by (simp only: copy_sections.simps copy_section_covers if_True)
  qed
qed simp

text \<open>The tables of the header.\<close>

definition text_section :: "u32 \<Rightarrow> memory \<Rightarrow> nat \<Rightarrow> dol_section" where
  "text_section d m i = (text_start m d i, text_pos m d i, text_size m d i)"

definition data_section :: "u32 \<Rightarrow> memory \<Rightarrow> nat \<Rightarrow> dol_section" where
  "data_section d m i = (data_start m d i, data_pos m d i, data_size m d i)"

definition same_image :: "u32 \<Rightarrow> nat \<Rightarrow> memory \<Rightarrow> memory \<Rightarrow> bool" where
  "same_image d n m m' \<longleftrightarrow> (\<forall>x. in_range x d n \<longrightarrow> m' x = m x)"

lemma in_range_offset: "k < n \<Longrightarrow> k < 2 ^ 32 \<Longrightarrow> in_range (d + of_nat k) d n"
  by (simp add: in_range_def unat_of_nat take_bit_nat_eq_self)

lemma read_same:
  assumes "same_image d n m m'" "k + 3 < n" "k + 3 < 2 ^ 32"
  shows "read_u32 m' (d + of_nat k) = read_u32 m (d + of_nat k)"
proof -
  have "m' (d + of_nat (k + j)) = m (d + of_nat (k + j))" if "j \<le> 3" for j
    using assms that in_range_offset[of "k + j" n d] by (auto simp: same_image_def)
  from this[of 0] this[of 1] this[of 2] this[of 3] show ?thesis
    by (simp add: read_u32_def ac_simps)
qed

lemma header_same:
  assumes "same_image d n m m'" "256 \<le> n" "j < 64"
  shows "read_u32 m' (d + 4 * of_nat j) = read_u32 m (d + 4 * of_nat j)"
  using read_same[OF assms(1), of "4 * j"] assms(2,3) by simp

lemma section_same:
  assumes "same_image d n m m'" "256 \<le> n"
  shows "i < 7 \<Longrightarrow> text_section d m' i = text_section d m i"
    and "i < 11 \<Longrightarrow> data_section d m' i = data_section d m i"
  unfolding text_section_def data_section_def text_start_def text_pos_def text_size_def
    data_start_def data_pos_def data_size_def
  using header_same[OF assms, of i] header_same[OF assms, of "7 + i"] header_same[OF assms, of "18 + i"]
    header_same[OF assms, of "25 + i"] header_same[OF assms, of "36 + i"] header_same[OF assms, of "43 + i"]
  by simp_all

lemma load_step:
  "load_text d i m = copy_sections d [text_section d m i] m"
  "load_data d i m = copy_sections d [data_section d m i] m"
  by (simp_all add: load_text_def load_data_def text_section_def data_section_def)

text \<open>A loop that reads its table as it goes copies the table of the memory it starts from.\<close>

lemma fold_sections:
  assumes step: "\<And>i m'. i \<in> set is \<Longrightarrow> load i m' = copy_sections d [sec m' i] m'"
    and same: "\<And>i m'. i \<in> set is \<Longrightarrow> same_image d n m m' \<Longrightarrow> sec m' i = sec m i"
    and "apart d n (map (sec m) is)"
  shows "fold load is m = copy_sections d (map (sec m) is) m"
proof -
  have "fold load is m' = copy_sections d (map (sec m) is) m'" if "same_image d n m m'" for m'
    using that step same assms(3)
  proof (induction "is" arbitrary: m')
    case (Cons i "is")
    obtain start pos len where s: "sec m i = (start, pos, len)" by (cases "sec m i")
    let ?m = "copy_sections d [sec m i] m'"
    have ap: "apart d n [sec m i]" using Cons.prems(4) by (simp add: apart_def)
    then have "same_image d n m ?m"
      using Cons.prems(1) copy_sections_image[OF ap] unfolding same_image_def by metis
    moreover have "load i m' = ?m" using Cons.prems(1,2,3) by simp
    moreover have "apart d n (map (sec m) is)"
      using Cons.prems(4) by (simp add: apart_Cons)
    ultimately have "fold load is ?m = copy_sections d (map (sec m) is) ?m"
      using Cons.prems(2,3) by (intro Cons.IH) simp_all
    then show ?case using \<open>load i m' = ?m\<close> by (simp add: s)
  qed simp
  then show ?thesis by (simp add: same_image_def)
qed

definition sections :: "u32 \<Rightarrow> memory \<Rightarrow> dol_section list" where
  "sections d m = map (text_section d m) [0..<7] @ map (data_section d m) [0..<11]"

lemma copy_sections_append: "copy_sections d (ts @ us) m = copy_sections d us (copy_sections d ts m)"
  by (induction d ts m rule: copy_sections.induct) simp_all

lemma apart_append: "apart d n (ts @ us) \<longleftrightarrow> apart d n ts \<and> apart d n us"
  by (auto simp: apart_def)

lemma load_all:
  assumes "apart d n (sections d m)" "256 \<le> n"
  shows "fold (load_data d) [0..<11] (fold (load_text d) [0..<7] m) = copy_sections d (sections d m) m"
proof -
  let ?m = "copy_sections d (map (text_section d m) [0..<7]) m"
  have ap: "apart d n (map (text_section d m) [0..<7])" "apart d n (map (data_section d m) [0..<11])"
    using assms(1) by (simp_all only: sections_def apart_append)
  have t: "fold (load_text d) [0..<7] m = ?m"
    by (rule fold_sections[where sec = "text_section d", OF _ _ ap(1)]) (use section_same(1)[OF _ assms(2)] in \<open>simp_all add: load_step(1)\<close>)
  have img: "same_image d n m ?m" using copy_sections_image[OF ap(1)] by (simp only: same_image_def) blast
  have eq: "map (data_section d ?m) [0..<11] = map (data_section d m) [0..<11]"
    by (rule map_cong) (use section_same(2)[OF img assms(2)] in simp_all)
  have "fold (load_data d) [0..<11] ?m = copy_sections d (map (data_section d ?m) [0..<11]) ?m"
  proof (rule fold_sections[where n = n and sec = "data_section d"])
    show "apart d n (map (data_section d ?m) [0..<11])" using ap(2) by (simp only: eq)
  qed (use section_same(2)[OF _ assms(2)] in \<open>simp_all add: load_step(2)\<close>)
  then show ?thesis unfolding t sections_def copy_sections_append eq .
qed

end
