(* ===== verification/Commands.thy ===== *)
theory Commands
  imports Transfers Loader
begin

text \<open>
  The \<open>SITE\<close> commands of \<open>source/ftp.c\<close>, the tables of commands, and the dispatch of a command line
  (lines 519 to 655).
\<close>

section \<open>SITE\<close>

definition ftp_SITE_LOADER :: "env \<Rightarrow> int \<Rightarrow> string \<Rightarrow> (int, 'z) ftp" where
  "ftp_SITE_LOADER E a rest s = do {
     (result, s) \<leftarrow> write_reply E a 200 ''Exiting to loader.'' s;
     Some (result, set_reset_flag s)
   }"

definition ftp_SITE_CLEAR :: "env \<Rightarrow> int \<Rightarrow> string \<Rightarrow> (int, 'z) ftp" where
  "ftp_SITE_CLEAR E a rest s = write_reply E a 200 ''Cleared.'' s"

definition ftp_SITE_CHMOD :: "env \<Rightarrow> int \<Rightarrow> string \<Rightarrow> (int, 'z) ftp" where
  "ftp_SITE_CHMOD E a rest s = write_reply E a 250 ''SITE CHMOD command ok.'' s"

definition ftp_SITE_PASSWD :: "env \<Rightarrow> int \<Rightarrow> string \<Rightarrow> (int, 'z) ftp" where
  "ftp_SITE_PASSWD E a new_password s = do {
     (_, s) \<leftarrow> set_ftp_password E (Some new_password) s;
     write_reply E a 200 ''Password changed.'' s
   }"

definition ftp_SITE_NOPASSWD :: "env \<Rightarrow> int \<Rightarrow> string \<Rightarrow> (int, 'z) ftp" where
  "ftp_SITE_NOPASSWD E a rest s = do {
     (_, s) \<leftarrow> set_ftp_password E None s;
     write_reply E a 200 ''Authentication disabled.'' s
   }"

definition ftp_SITE_EJECT :: "env \<Rightarrow> int \<Rightarrow> string \<Rightarrow> (int, 'z) ftp" where
  "ftp_SITE_EJECT E a rest s = do {
     (r, s) \<leftarrow> dvd_eject E s;
     if r \<noteq> 0 then write_reply E a 550 ''Unable to eject DVD.'' s
     else write_reply E a 200 ''DVD ejected.'' s
   }"

definition ftp_SITE_MOUNT :: "env \<Rightarrow> int \<Rightarrow> string \<Rightarrow> (int, 'z) ftp" where
  "ftp_SITE_MOUNT E a path s = do {
     (b, s) \<leftarrow> mount_virtual E path s;
     if \<not> b then write_reply E a 550 ''Unable to mount.'' s else write_reply E a 250 ''Mounted.'' s
   }"

definition ftp_SITE_UNMOUNT :: "env \<Rightarrow> int \<Rightarrow> string \<Rightarrow> (int, 'z) ftp" where
  "ftp_SITE_UNMOUNT E a path s = do {
     (b, s) \<leftarrow> unmount_virtual E path s;
     if \<not> b then write_reply E a 550 ''Unable to unmount.'' s else write_reply E a 250 ''Unmounted.'' s
   }"

definition ftp_SITE_UNKNOWN :: "env \<Rightarrow> int \<Rightarrow> string \<Rightarrow> (int, 'z) ftp" where
  "ftp_SITE_UNKNOWN E a rest s = write_reply E a 501 ''Unknown SITE command.'' s"

text \<open>A path to the virtual root is the literal \<open>""\<close>, which must not be freed; its file cannot be open.\<close>

definition ftp_SITE_LOAD :: "env \<Rightarrow> int \<Rightarrow> string \<Rightarrow> (int, 'z) ftp" where
  "ftp_SITE_LOAD E a path s = do {
     (c, s) \<leftarrow> deref a s;
     (f, s) \<leftarrow> vrt_fopen E (cwd c) path ''rb'' s;
     if f = 0 then write_error E a 550 (errno s) s
     else do {
       (real_path, s) \<leftarrow> to_real_path E (cwd c) path s;
       (_, s) \<leftarrow> (case real_path of
           Null \<Rightarrow> Some ((), s)
         | Static q \<Rightarrow> do { (_, s) \<leftarrow> load_from_file E f q s; free_str E real_path s }
         | Heap p q \<Rightarrow> do { (_, s) \<leftarrow> load_from_file E f q s; free_str E real_path s });
       (_, s) \<leftarrow> fclose E f s;
       write_reply E a 500 ''Unable to load.'' s
     }
   }"

section \<open>Dispatch\<close>

text \<open>
  The loop over the names: the index of the first that matches, or of the terminating NULL, where
  the handler for all other commands stands.
\<close>

fun command_index :: "string list \<Rightarrow> string \<Rightarrow> nat" where
  "command_index [] cmd = 0"
| "command_index (n # ns) cmd = (if strcaseeq n cmd then 0 else Suc (command_index ns cmd))"

definition dispatch_to_handler ::
  "int \<Rightarrow> string \<Rightarrow> string list \<Rightarrow> (int \<Rightarrow> string \<Rightarrow> (int, 'z) ftp) list \<Rightarrow> (int, 'z) ftp" where
  "dispatch_to_handler a cmd_line commands handlers s = do {
     (_, cmd, rest) \<leftarrow> split2 cmd_line;
     (handlers ! command_index commands cmd) a rest s
   }"

definition site_commands :: "string list" where
  "site_commands = [''LOADER'', ''CLEAR'', ''CHMOD'', ''PASSWD'', ''NOPASSWD'', ''EJECT'', ''MOUNT'',
     ''UNMOUNT'', ''LOAD'']"

definition site_handlers :: "env \<Rightarrow> (int \<Rightarrow> string \<Rightarrow> (int, 'z) ftp) list" where
  "site_handlers E = [ftp_SITE_LOADER E, ftp_SITE_CLEAR E, ftp_SITE_CHMOD E, ftp_SITE_PASSWD E,
     ftp_SITE_NOPASSWD E, ftp_SITE_EJECT E, ftp_SITE_MOUNT E, ftp_SITE_UNMOUNT E, ftp_SITE_LOAD E,
     ftp_SITE_UNKNOWN E]"

definition ftp_SITE :: "env \<Rightarrow> int \<Rightarrow> string \<Rightarrow> (int, 'z) ftp" where
  "ftp_SITE E a cmd_line s = dispatch_to_handler a cmd_line site_commands (site_handlers E) s"

definition ftp_NOOP :: "env \<Rightarrow> int \<Rightarrow> string \<Rightarrow> (int, 'z) ftp" where
  "ftp_NOOP E a rest s = write_reply E a 200 ''NOOP command successful.'' s"

definition ftp_SUPERFLUOUS :: "env \<Rightarrow> int \<Rightarrow> string \<Rightarrow> (int, 'z) ftp" where
  "ftp_SUPERFLUOUS E a rest s =
     write_reply E a 202 ''Command not implemented, superfluous at this site.'' s"

definition ftp_NEEDAUTH :: "env \<Rightarrow> int \<Rightarrow> string \<Rightarrow> (int, 'z) ftp" where
  "ftp_NEEDAUTH E a rest s = write_reply E a 530 ''Please login with USER and PASS.'' s"

definition ftp_UNKNOWN :: "env \<Rightarrow> int \<Rightarrow> string \<Rightarrow> (int, 'z) ftp" where
  "ftp_UNKNOWN E a rest s = write_reply E a 502 ''Command not implemented.'' s"

definition unauthenticated_commands :: "string list" where
  "unauthenticated_commands = [''USER'', ''PASS'', ''QUIT'', ''REIN'', ''NOOP'']"

definition unauthenticated_handlers :: "env \<Rightarrow> (int \<Rightarrow> string \<Rightarrow> (int, 'z) ftp) list" where
  "unauthenticated_handlers E = [ftp_USER E, ftp_PASS E, ftp_QUIT E, ftp_REIN E, ftp_NOOP E, ftp_NEEDAUTH E]"

definition authenticated_commands :: "string list" where
  "authenticated_commands = [
     ''USER'', ''PASS'', ''LIST'', ''PWD'', ''CWD'', ''CDUP'',
     ''SIZE'', ''PASV'', ''PORT'', ''TYPE'', ''SYST'', ''MODE'',
     ''RETR'', ''STOR'', ''APPE'', ''REST'', ''DELE'', ''MKD'',
     ''RMD'', ''RNFR'', ''RNTO'', ''NLST'', ''QUIT'', ''REIN'',
     ''SITE'', ''NOOP'', ''ALLO'']"

definition authenticated_handlers :: "env \<Rightarrow> (int \<Rightarrow> string \<Rightarrow> (int, 'z) ftp) list" where
  "authenticated_handlers E = [
     ftp_USER E, ftp_PASS E, ftp_LIST E, ftp_PWD E, ftp_CWD E, ftp_CDUP E,
     ftp_SIZE E, ftp_PASV E, ftp_PORT E, ftp_TYPE E, ftp_SYST E, ftp_MODE E,
     ftp_RETR E, ftp_STOR E, ftp_APPE E, ftp_REST E, ftp_DELE E, ftp_MKD E,
     ftp_DELE E, ftp_RNFR E, ftp_RNTO E, ftp_NLST E, ftp_QUIT E, ftp_REIN E,
     ftp_SITE E, ftp_NOOP E, ftp_SUPERFLUOUS E, ftp_UNKNOWN E]"

definition process_command :: "env \<Rightarrow> int \<Rightarrow> string \<Rightarrow> (int, 'z) ftp" where
  "process_command E a cmd_line s =
     (if cmd_line = [] then Some (0, s) else do {
        (c, s) \<leftarrow> deref a s;
        if authenticated c then dispatch_to_handler a cmd_line authenticated_commands (authenticated_handlers E) s
        else dispatch_to_handler a cmd_line unauthenticated_commands (unauthenticated_handlers E) s
      })"

end
