(* ===== verification/Server.thy ===== *)
theory Server
  imports Commands
begin

text \<open>
  The server loop of \<open>source/ftp.c\<close> (lines 672 to 872): accepting and releasing clients, the events of
  their data and control connections.
\<close>

section \<open>Releasing a client\<close>

fun clear_slot :: "int list \<Rightarrow> int \<Rightarrow> int list" where
  "clear_slot [] a = []"
| "clear_slot (p # ps) a = (if p = a then 0 # ps else p # clear_slot ps a)"

definition release_client :: "env \<Rightarrow> int \<Rightarrow> (unit, 'z) ftp" where
  "release_client E a s = (case heap s a of None \<Rightarrow> None | Some _ \<Rightarrow> do {
     (_, s) \<leftarrow> free E a s;
     Some ((), s\<lparr>heap := (heap s)(a := None)\<rparr>)
   })"

definition cleanup_client :: "env \<Rightarrow> int \<Rightarrow> (unit, 'z) ftp" where
  "cleanup_client E a s = do {
     (c, s) \<leftarrow> deref a s;
     (_, s) \<leftarrow> net_close_blocking E (socket c) s;
     (_, s) \<leftarrow> cleanup_data_resources E a s;
     (_, s) \<leftarrow> close_passive_socket E a s;
     let s = s\<lparr>clients := clear_slot (clients s) a\<rparr>;
     (_, s) \<leftarrow> release_client E a s;
     Some ((), s\<lparr>num_clients := num_clients s - 1\<rparr>)
   }"

fun cleanup_slots :: "env \<Rightarrow> nat list \<Rightarrow> (unit, 'z) ftp" where
  "cleanup_slots E [] s = Some ((), s)"
| "cleanup_slots E (i # is) s = do {
     let a = clients s ! i;
     (_, s) \<leftarrow> (if a \<noteq> 0 then do {
         (_, s) \<leftarrow> write_reply E a 421 ''Service not available, closing control connection.'' s;
         cleanup_client E a s
       } else Some ((), s));
     cleanup_slots E is s
   }"

definition cleanup_ftp :: "env \<Rightarrow> (unit, 'z) ftp" where
  "cleanup_ftp E s = cleanup_slots E [0..<MAX_CLIENTS] s"

section \<open>Accepting clients\<close>

definition new_client :: "int \<Rightarrow> sockaddr_in \<Rightarrow> client" where
  "new_client k addr = \<lparr>socket = k, representation_type = CHR ''A'', passive_socket = -1,
     data_socket = -1, cwd = ''/'', pending_rename = [], restart_marker = 0, address = addr,
     authenticated = False, buf = [], data_connection_connected = False, data_callback = None,
     data_connection_callback_arg = None, data_connection_cleanup = None, data_connection_timer = 0\<rparr>"

fun fill_slot :: "int list \<Rightarrow> int \<Rightarrow> int list" where
  "fill_slot [] a = []"
| "fill_slot (p # ps) a = (if p = 0 then a # ps else p # fill_slot ps a)"

definition greet_client :: "env \<Rightarrow> int \<Rightarrow> int \<Rightarrow> sockaddr_in \<Rightarrow> (unit, 'z) ftp" where
  "greet_client E a k addr s = do {
     let s = s\<lparr>heap := (heap s)(a := Some (new_client k addr))\<rparr>;
     (result, s) \<leftarrow> write_reply E a 220 ''ftpii'' s;
     if result < 0 then do {
       (_, s) \<leftarrow> net_close_blocking E k s;
       release_client E a s
     } else Some ((), s\<lparr>clients := fill_slot (clients s) a, num_clients := num_clients s + 1\<rparr>)
   }"

text \<open>\<open>False\<close>: the network is down.\<close>

partial_function (option) process_accept_events :: "env \<Rightarrow> int \<Rightarrow> 'z ftp_st_scheme \<Rightarrow> (bool \<times> 'z ftp_st_scheme) option" where
  "process_accept_events E server s = do {
     (r, s) \<leftarrow> ext E (CNet (Net_accept server)) s;
     if ret r = - EAGAIN then Some (True, s)
     else if ret r < 0 then Some (False, s)
     else if num_clients s = of_nat MAX_CLIENTS then do {
       (_, s) \<leftarrow> net_close E (ret r) s; Some (True, s)
     } else do {
       (a, s) \<leftarrow> malloc E (sizeof_client E) s;
       if a = 0 then do { (_, s) \<leftarrow> net_close E (ret r) s; Some (True, s) }
       else do {
         (_, s) \<leftarrow> greet_client E a (ret r) (peer r) s;
         process_accept_events E server s
       }
     }
   }"

declare process_accept_events.simps [code]

section \<open>Data connections\<close>

text \<open>\<open>connect_data\<close> is the branch for a connection that is not yet there; its result is \<open>result\<close>.\<close>

definition try_connect :: "env \<Rightarrow> int \<Rightarrow> (int, 'z) ftp" where
  "try_connect E a s = do {
     (c, s) \<leftarrow> deref a s;
     if passive_socket c \<ge> 0 then do {
       (r, s) \<leftarrow> ext E (CNet (Net_accept (passive_socket c))) s;
       if ret r \<ge> 0 then do {
         (_, s) \<leftarrow> modify a (\<lambda>c. c\<lparr>data_socket := ret r, data_connection_connected := True\<rparr>) s;
         Some (ret r, s)
       } else Some (ret r, s)
     } else do {
       (r, s) \<leftarrow> ext E (CNet (Net_connect (data_socket c) (address c))) s;
       let result = (if ret r = - EINPROGRESS \<or> ret r = - EALREADY then - EAGAIN else ret r);
       if result \<ge> 0 \<or> result = - EISCONN then do {
         (_, s) \<leftarrow> modify a (\<lambda>c. c\<lparr>data_connection_connected := True\<rparr>) s;
         Some (result, s)
       } else Some (result, s)
     }
   }"

definition connect_data :: "env \<Rightarrow> int \<Rightarrow> (int, 'z) ftp" where
  "connect_data E a s = do {
     (result, s) \<leftarrow> try_connect E a s;
     (c, s) \<leftarrow> deref a s;
     if data_connection_connected c then Some (1, s)
     else do {
       (now, s) \<leftarrow> gettime E s;
       Some (if now > data_connection_timer c then -1 else result, s)
     }
   }"

definition process_data_events :: "env \<Rightarrow> int \<Rightarrow> (unit, 'z) ftp" where
  "process_data_events E a s = do {
     (c, s) \<leftarrow> deref a s;
     (result, s) \<leftarrow> (if \<not> data_connection_connected c then connect_data E a s
       else (case data_callback c of
           None \<Rightarrow> None
         | Some f \<Rightarrow> run_callback E f (data_socket c) (data_connection_callback_arg c) s));
     if result \<le> 0 \<and> result \<noteq> - EAGAIN then do {
       (_, s) \<leftarrow> cleanup_data_resources E a s;
       (result, s) \<leftarrow> (if result < 0
         then write_reply E a 520 ''Closing data connection, error occurred during transfer.'' s
         else write_reply E a 226 ''Closing data connection, transfer successful.'' s);
       if result < 0 then cleanup_client E a s else Some ((), s)
     } else Some ((), s)
   }"

section \<open>Control connections\<close>

text \<open>
  The loop over the complete lines in the buffer; \<open>next\<close> is the rest of the buffer from the C
  pointer \<open>next\<close> on. The result is the rest where the loop stops, or \<open>None\<close> for the jump to
  \<open>recv_loop_end\<close>.
\<close>

partial_function (option) process_lines ::
  "env \<Rightarrow> int \<Rightarrow> string \<Rightarrow> 'z ftp_st_scheme \<Rightarrow> (string option \<times> 'z ftp_st_scheme) option" where
  "process_lines E a nxt s = do {
     (c, s) \<leftarrow> deref a s;
     (case strstr nxt CRLF of
        None \<Rightarrow> Some (Some nxt, s)
      | Some i \<Rightarrow>
          if data_callback c \<noteq> None then Some (Some nxt, s)
          else if LF \<in> set (take i nxt) then Some (None, s)
          else do {
            (result, s) \<leftarrow> (if take i nxt \<noteq> [] then process_command E a (take i nxt) s else Some (0, s));
            if result < 0 then Some (None, s) else process_lines E a (drop (i + 2) nxt) s
          })
   }"

declare process_lines.simps [code]

partial_function (option) process_control_events ::
  "env \<Rightarrow> int \<Rightarrow> 'z ftp_st_scheme \<Rightarrow> (unit \<times> 'z ftp_st_scheme) option" where
  "process_control_events E a s = do {
     (c, s) \<leftarrow> deref a s;
     if \<not> length (buf c) < FTP_BUFFER_SIZE - 1 then cleanup_client E a s
     else if data_callback c \<noteq> None then Some ((), s)
     else do {
       ((bytes_read, got), s) \<leftarrow> net_read E (socket c) (FTP_BUFFER_SIZE - 1 - length (buf c)) s;
       if bytes_read < 0 then (if bytes_read \<noteq> - EAGAIN then cleanup_client E a s else Some ((), s))
       else if bytes_read = 0 then cleanup_client E a s
       else do {
         (_, s) \<leftarrow> modify a (\<lambda>c. c\<lparr>buf := buf c @ got\<rparr>) s;
         if NUL \<in> set got then cleanup_client E a s
         else do {
           (nxt, s) \<leftarrow> process_lines E a (buf c @ got) s;
           (case nxt of
              None \<Rightarrow> cleanup_client E a s
            | Some rest \<Rightarrow> do {
                (_, s) \<leftarrow> modify a (\<lambda>c. c\<lparr>buf := rest\<rparr>) s;
                process_control_events E a s
              })
         }
       }
     }
   }"

declare process_control_events.simps [code]

section \<open>All events\<close>

definition process_client :: "env \<Rightarrow> int \<Rightarrow> (unit, 'z) ftp" where
  "process_client E a s =
     (if a = 0 then Some ((), s) else do {
        (c, s) \<leftarrow> deref a s;
        if data_callback c \<noteq> None then process_data_events E a s else process_control_events E a s
      })"

fun process_slots :: "env \<Rightarrow> nat list \<Rightarrow> (unit, 'z) ftp" where
  "process_slots E [] s = Some ((), s)"
| "process_slots E (i # is) s = do {
     (_, s) \<leftarrow> process_client E (clients s ! i) s;
     process_slots E is s
   }"

definition process_ftp_events :: "env \<Rightarrow> int \<Rightarrow> (bool, 'z) ftp" where
  "process_ftp_events E server s = do {
     (up, s) \<leftarrow> process_accept_events E server s;
     (_, s) \<leftarrow> process_slots E [0..<MAX_CLIENTS] s;
     Some (\<not> up, s)
   }"

end
