(* ===== verification/Ftpii.thy ===== *)
theory Ftpii
  imports Server
begin

text \<open>
  \<open>source/ftpii.c\<close>: start-up, the events of the pads and of the timers, the main loop, and the
  clean-up at the end.
\<close>

definition PORT :: u16 where "PORT = 21"
definition APP_DIR_PREFIX :: string where "APP_DIR_PREFIX = ''ftpii_''"

text \<open>The state at the start of the program, from the initial values of the static variables.\<close>

definition initial_state :: ftp_st where
  "initial_state = \<lparr>trace = [], errno = 0, reset_flag = False, power_flag = False,
     NET_BUFFER_SIZE = MAX_NET_BUFFER_SIZE, dvd_mountWait = False, dvd_last_stopped = 0,
     VIRTUAL_PARTITIONS = initial_partitions, mountstate = MOUNTSTATE_START, mount_partition = None,
     mount_timer = 0, device_check_timer = 0, viters = Map.empty, heap = Map.empty,
     clients = replicate MAX_CLIENTS 0, num_clients = 0, passive_port = 1024, password = None\<rparr>"

text \<open>
  \<open>initialise_video\<close> is a sequence of calls; the mode that it reads is the one the pointer it gets
  points to. Its fields are unsigned 16-bit numbers that C promotes to \<open>int\<close> before it subtracts.
\<close>

definition wait_interlaced :: "env \<Rightarrow> int \<Rightarrow> (unit, 'z) ftp" where
  "wait_interlaced E rmode s = do {
     (_, s) \<leftarrow> ext E (CSys VIDEO_WaitVSync) s;
     if viTVMode (video_mode E rmode) AND VI_NON_INTERLACE E \<noteq> 0 then do {
       (_, s) \<leftarrow> ext E (CSys VIDEO_WaitVSync) s;
       Some ((), s)
     } else Some ((), s)
   }"

definition initialise_video :: "env \<Rightarrow> (unit, 'z) ftp" where
  "initialise_video E s = do {
     (_, s) \<leftarrow> ext E (CSys VIDEO_Init) s;
     (r, s) \<leftarrow> ext E (CSys VIDEO_GetPreferredMode) s;
     let rmode = ret r;
     (_, s) \<leftarrow> ext E (CSys (VIDEO_Configure rmode)) s;
     (r, s) \<leftarrow> ext E (CSys (SYS_AllocateFramebuffer rmode)) s;
     let xfb = MEM_K0_TO_K1 E (ret r);
     (_, s) \<leftarrow> ext E (CSys (VIDEO_SetNextFramebuffer xfb)) s;
     (_, s) \<leftarrow> ext E (CSys (VIDEO_ClearFrameBuffer rmode xfb (COLOR_BLACK E))) s;
     (_, s) \<leftarrow> ext E (CSys VIDEO_Flush) s;
     (_, s) \<leftarrow> wait_interlaced E rmode s;
     (_, s) \<leftarrow> ext E (CSys (CON_InitEx rmode 20 30
       (uint (fbWidth (video_mode E rmode)) - 40) (uint (xfbHeight (video_mode E rmode)) - 60))) s;
     (_, s) \<leftarrow> ext E (CSys (CON_EnableGecko 1 0)) s;
     (_, s) \<leftarrow> ext E (CSys (VIDEO_SetBlack False)) s;
     (_, s) \<leftarrow> ext E (CSys VIDEO_Flush) s;
     wait_interlaced E rmode s
   }"

definition initialise_ftpii :: "env \<Rightarrow> (unit, 'z) ftp" where
  "initialise_ftpii E s = do {
     (_, s) \<leftarrow> initialise_video E s;
     (_, s) \<leftarrow> ext E (CDev DI_Init) s;
     (_, s) \<leftarrow> initialise_video E s;
     (_, s) \<leftarrow> ext E (CSys PAD_Init) s;
     (_, s) \<leftarrow> ext E (CSys WPAD_Init) s;
     (_, s) \<leftarrow> ext E (CSys Set_callbacks) s;
     (_, s) \<leftarrow> initialise_network E s;
     initialise_fs E s
   }"

definition set_password_from_executable :: "env \<Rightarrow> string \<Rightarrow> (unit, 'z) ftp" where
  "set_password_from_executable E executable s =
     (let dir = basename (dirname E executable) in
      if strncaseeq APP_DIR_PREFIX dir (length APP_DIR_PREFIX)
      then set_ftp_password E (Some (drop (length APP_DIR_PREFIX) dir)) s
      else Some ((), s))"

section \<open>Pads\<close>

definition device_buttons :: "button list" where
  "device_buttons = [Button_Left, Button_Right, Button_Up, Button_Down, Button_1X]"

definition mask_of :: "(button \<Rightarrow> u32) \<Rightarrow> button list \<Rightarrow> u32" where
  "mask_of f bs = fold (\<lambda>b m. m OR f b) bs 0"

definition process_wiimote_events :: "env \<Rightarrow> (unit, 'z) ftp" where
  "process_wiimote_events E s = do {
     (pressed, s) \<leftarrow> check_wiimote E (mask_of (wpad_mask E) (Button_A # Button_B # device_buttons)) s;
     if pressed AND wpad_mask E Button_A \<noteq> 0 then Some ((), set_reset_flag s)
     else if pressed AND wpad_mask E Button_B \<noteq> 0 then process_remount_event E s
     else if pressed AND mask_of (wpad_mask E) device_buttons \<noteq> 0 then process_device_select_event E pressed s
     else Some ((), s)
   }"

text \<open>The buttons of a Wii remote for those of a GameCube pad.\<close>

definition wpad_pressed :: "env \<Rightarrow> u32 \<Rightarrow> u32" where
  "wpad_pressed E pressed =
     fold (\<lambda>b m. if pressed AND pad_mask E b \<noteq> 0 then m OR wpad_mask E b else m) device_buttons 0"

definition process_gamecube_events :: "env \<Rightarrow> (unit, 'z) ftp" where
  "process_gamecube_events E s = do {
     (pressed, s) \<leftarrow> check_gamecube E (mask_of (pad_mask E) (Button_A # Button_B # device_buttons)) s;
     if pressed AND pad_mask E Button_A \<noteq> 0 then Some ((), set_reset_flag s)
     else if pressed AND pad_mask E Button_B \<noteq> 0 then process_remount_event E s
     else if pressed AND mask_of (pad_mask E) device_buttons \<noteq> 0
     then process_device_select_event E (wpad_pressed E pressed) s
     else Some ((), s)
   }"

section \<open>The main loop\<close>

definition process_timer_events :: "env \<Rightarrow> (unit, 'z) ftp" where
  "process_timer_events E s = do {
     (now, s) \<leftarrow> gettime E s;
     (_, s) \<leftarrow> check_dvd_motor_timeout E now s;
     (_, s) \<leftarrow> check_mount_timer E now s;
     check_removable_devices E now s
   }"

text \<open>One turn with a server socket: the result is \<open>network_down\<close>.\<close>

definition process_events :: "env \<Rightarrow> int \<Rightarrow> (bool, 'z) ftp" where
  "process_events E server s = do {
     (_, s) \<leftarrow> check_dvd_mount E s;
     (network_down, s) \<leftarrow> process_ftp_events E server s;
     (_, s) \<leftarrow> process_wiimote_events E s;
     (_, s) \<leftarrow> process_gamecube_events E s;
     (_, s) \<leftarrow> process_timer_events E s;
     Some (network_down, s)
   }"

text \<open>
  A turn of the loop: \<open>Inl server\<close> when a reset ends the loop, \<open>Inr (network_down, server)\<close> when it
  goes on; the latter is also the C code's \<open>continue\<close> after a failed \<open>create_server\<close>.
\<close>

definition main_turn :: "env \<Rightarrow> bool \<Rightarrow> int \<Rightarrow> (int + bool \<times> int, 'z) ftp" where
  "main_turn E network_down server s = do {
     (flag, s) \<leftarrow> reset E s;
     if flag then Some (Inl server, s)
     else if network_down then do {
       (_, s) \<leftarrow> net_close E server s;
       (_, s) \<leftarrow> initialise_network E s;
       (server, s) \<leftarrow> create_server E PORT s;
       if server < 0 then Some (Inr (True, server), s)
       else do {
         (down, s) \<leftarrow> process_events E server s;
         Some (Inr (down, server), s)
       }
     } else do {
       (down, s) \<leftarrow> process_events E server s;
       Some (Inr (down, server), s)
     }
   }"

partial_function (option) main_loop ::
  "env \<Rightarrow> bool \<Rightarrow> int \<Rightarrow> 'z ftp_st_scheme \<Rightarrow> (int \<times> 'z ftp_st_scheme) option" where
  "main_loop E network_down server s = do {
     (r, s) \<leftarrow> main_turn E network_down server s;
     (case r of Inl server \<Rightarrow> Some (server, s) | Inr (down, server) \<Rightarrow> main_loop E down server s)
   }"

declare main_loop.simps [code]

fun unmount_all :: "env \<Rightarrow> nat list \<Rightarrow> (unit, 'z) ftp" where
  "unmount_all E [] s = Some ((), s)"
| "unmount_all E (i # is) s = do { (_, s) \<leftarrow> unmount E (Some i) s; unmount_all E is s }"

definition shutdown :: "env \<Rightarrow> int \<Rightarrow> (unit, 'z) ftp" where
  "shutdown E server s = do {
     (_, s) \<leftarrow> cleanup_ftp E s;
     (_, s) \<leftarrow> net_close E server s;
     (_, s) \<leftarrow> unmount_all E [0..<MAX_VIRTUAL_PARTITIONS] s;
     (_, s) \<leftarrow> dvd_stop E s;
     (_, s) \<leftarrow> ext E (CDev DI_Close) s;
     (_, s) \<leftarrow> ext E (CDev ISFS_Deinitialize) s;
     maybe_poweroff E s
   }"

definition start_up :: "env \<Rightarrow> string list \<Rightarrow> (unit, 'z) ftp" where
  "start_up E argv s = do {
     (_, s) \<leftarrow> initialise_ftpii E s;
     if length argv > 1 then set_ftp_password E (Some (argv ! 1)) s
     else if length argv = 1 then set_password_from_executable E (argv ! 0) s
     else Some ((), s)
   }"

definition main :: "env \<Rightarrow> string list \<Rightarrow> (int, 'z) ftp" where
  "main E argv s = do {
     (_, s) \<leftarrow> start_up E argv s;
     (server, s) \<leftarrow> main_loop E True (-1) s;
     (_, s) \<leftarrow> shutdown E server s;
     Some (0, s)
   }"

text \<open>
  The states at the head of the loop, with the values of \<open>network_down\<close> and \<open>server\<close>, in a run of the
  program. A run that goes on for ever has them too, though \<open>main_loop\<close> then has no result.
\<close>

inductive main_reach :: "env \<Rightarrow> string list \<Rightarrow> bool \<Rightarrow> int \<Rightarrow> ftp_st \<Rightarrow> bool" for E argv where
  enter: "start_up E argv initial_state = Some ((), s) \<Longrightarrow> main_reach E argv True (-1) s"
| turn: "main_reach E argv down server s \<Longrightarrow> main_turn E down server s = Some (Inr (down', server'), s') \<Longrightarrow>
    main_reach E argv down' server' s'"

end
