(* ===== verification/Contract.thy ===== *)
theory Contract
  imports Commands
begin

text \<open>
  The contract of the command tables: a locale for a table of names with its handlers, whose
  operation is the dispatch, interpreted on the three tables of the server for the ownership
  invariant; and the laws of a lasting world, in which every handler returns.
\<close>

section \<open>Tables\<close>

lemma command_index_le: "command_index ns cmd \<le> length ns"
  by (induction ns) simp_all

lemma command_index_known: "command_index ns cmd < length ns \<longleftrightarrow> (\<exists>n \<in> set ns. strcaseeq n cmd)"
  by (induction ns) auto

text \<open>
  \<open>P\<close> is what every handler promises of a call with the client \<open>a\<close> and an argument; an argument is a
  string of the control buffer.
\<close>

locale command_table =
  fixes commands :: "string list"
    and handlers :: "(int \<Rightarrow> string \<Rightarrow> (int, 'z) ftp) list"
    and P :: "(int \<Rightarrow> string \<Rightarrow> (int, 'z) ftp) \<Rightarrow> bool"
  assumes one_more: "length handlers = Suc (length commands)"
    and handlers_keep: "h \<in> set handlers \<Longrightarrow> P h"
begin

lemma index_in_range: "command_index commands cmd < length handlers"
  using command_index_le[of commands cmd] one_more by simp

lemma selected: "handlers ! command_index commands cmd \<in> set handlers"
  using index_in_range by (rule nth_mem)

lemma unknown_last:
  "\<not> (\<exists>n \<in> set commands. strcaseeq n cmd) \<Longrightarrow> handlers ! command_index commands cmd = last handlers"
proof -
  assume "\<not> (\<exists>n \<in> set commands. strcaseeq n cmd)"
  then have "command_index commands cmd = length handlers - 1"
    using command_index_known[of commands cmd] command_index_le[of commands cmd] one_more by simp
  moreover have "handlers \<noteq> []" using one_more by auto
  ultimately show ?thesis by (simp add: last_conv_nth)
qed

text \<open>A line of the control buffer is dispatched to one handler, which keeps its promise.\<close>

lemma dispatched:
  assumes "length line < FTP_BUFFER_SIZE"
  shows "\<exists>h cmd rest. h \<in> set handlers \<and> P h \<and> dispatch_to_handler a line commands handlers s = h a rest s \<and>
    h = handlers ! command_index commands cmd \<and> length rest \<le> length line \<and> set rest \<subseteq> set line \<and>
    snd (padded 1 (split_ref (CHR '' '') 1 line)) = [cmd, rest]"
proof -
  obtain n w v where "split2 line = Some (n, w, v)" "length v \<le> length line" "set v \<subseteq> set line"
    "padded 1 (split_ref (CHR '' '') 1 line) = (n, [w, v])"
    using split2_words[OF assms] by blast
  then show ?thesis
    using selected[of w] handlers_keep[OF selected[of w]]
    by (intro exI[of _ "handlers ! command_index commands w"] exI[of _ w] exI[of _ v])
       (simp add: dispatch_to_handler_def)
qed

end

section \<open>The promise\<close>

text \<open>
  \<open>keeps_inv b\<close>: when the handler returns, the invariant of the client holds and nobody else is
  touched; if \<open>b\<close>, it does return. \<open>handles\<close>: it always returns.
\<close>

definition keeps_inv :: "bool \<Rightarrow> env \<Rightarrow> (int \<Rightarrow> string \<Rightarrow> (int, 'z) ftp) \<Rightarrow> bool" where
  "keeps_inv b E h \<longleftrightarrow> (\<forall>a F x s. ready E a F x s \<longrightarrow> triple b (h a x s) (\<lambda>r s'. stays E a F s s'))"

definition handles :: "env \<Rightarrow> (int \<Rightarrow> string \<Rightarrow> (int, 'z) ftp) \<Rightarrow> bool" where
  "handles E h \<longleftrightarrow> (\<forall>a F x s. ready E a F x s \<longrightarrow> returns (h a x s) (\<lambda>r s'. stays E a F s s'))"

definition server_laws :: "env \<Rightarrow> bool" where
  "server_laws E \<longleftrightarrow> laws E \<and> files_small E"

lemma handlesI: "(\<And>a F x s. ready E a F x s \<Longrightarrow> returns (h a x s) (\<lambda>r s'. stays E a F s s')) \<Longrightarrow> handles E h"
  by (simp add: handles_def)

lemma keeps_invI:
  "(\<And>a F x s. ready E a F x s \<Longrightarrow> triple b (h a x s) (\<lambda>r s'. stays E a F s s')) \<Longrightarrow> keeps_inv b E h"
  by (simp add: keeps_inv_def)

lemma handles_keeps: "handles E h \<Longrightarrow> keeps_inv b E h"
  by (simp add: handles_def keeps_inv_def triple_returns)

lemma handlesD: "handles E h \<Longrightarrow> ready E a F x s \<Longrightarrow> returns (h a x s) (\<lambda>r s'. stays E a F s s')"
  by (simp add: handles_def)

lemma keeps_invD: "keeps_inv b E h \<Longrightarrow> ready E a F x s \<Longrightarrow> triple b (h a x s) (\<lambda>r s'. stays E a F s s')"
  by (simp add: keeps_inv_def)

text \<open>
  Not every operation of the server returns whatever happens: the process ends when memory for a
  password runs out or an executable takes over, a transfer or a listing lasts as long as there is
  more of it, and a line of a listing must fit its array. In a lasting world none of this happens.
\<close>

definition process_lasts :: "env \<Rightarrow> bool" where
  "process_lasts E \<longleftrightarrow> (\<forall>h n. n \<le> FTP_BUFFER_SIZE \<longrightarrow> ret (answer E h (CMem (Malloc n))) \<noteq> 0) \<and>
     (\<forall>h ep. ret (answer E h (CSys (Run ep))) \<noteq> 0)"

definition entries_fit :: "env \<Rightarrow> bool" where
  "entries_fit E \<longleftrightarrow> (\<forall>h t. length (data (answer E h (CSys (Strftime t)))) \<le> 12) \<and>
     (\<forall>h d. ret (answer E h (CFile (Dirnext d))) = 0 \<longrightarrow>
       length (data (answer E h (CFile (Dirnext d)))) < MAXPATHLEN E \<and>
       unat (st_size (stat_out (answer E h (CFile (Dirnext d))))) < 10 ^ 12)"

definition lasting :: "env \<Rightarrow> nat \<Rightarrow> bool" where
  "lasting E N \<longleftrightarrow> finite_world E N \<and> process_lasts E \<and> entries_fit E"

lemma lastingD: "lasting E N \<Longrightarrow> finite_world E N" "lasting E N \<Longrightarrow> process_lasts E" "lasting E N \<Longrightarrow> entries_fit E"
  by (simp_all add: lasting_def)

named_theorems handles_rules \<open>the handlers that always return\<close>

text \<open>The handlers of the components below.\<close>

lemma session_handles [handles_rules]:
  assumes "server_laws E"
  shows "handles E (ftp_USER E)" "handles E (ftp_PASS E)" "handles E (ftp_REIN E)" "handles E (ftp_QUIT E)"
    "handles E (ftp_SYST E)" "handles E (ftp_TYPE E)" "handles E (ftp_MODE E)" "handles E (ftp_PWD E)"
    "handles E (ftp_CWD E)" "handles E (ftp_CDUP E)" "handles E (ftp_DELE E)" "handles E (ftp_MKD E)"
    "handles E (ftp_RNFR E)" "handles E (ftp_RNTO E)" "handles E (ftp_SIZE E)" "handles E (ftp_PASV E)"
    "handles E (ftp_PORT E)" "handles E (ftp_REST E)" "handles E (ftp_NLST E)" "handles E (ftp_LIST E)"
    "handles E (ftp_RETR E)" "handles E (ftp_STOR E)" "handles E (ftp_APPE E)"
  using assms by (auto simp: server_laws_def intro: handlesI handler_good)

lemma reply_handles:
  assumes "server_laws E" "is_code n"
  shows "handles E (\<lambda>a x. write_reply E a n msg)"
  using assms by (auto simp: server_laws_def intro!: handlesI reply_first dest: readyD)

lemma constant_handles [handles_rules]:
  assumes "server_laws E"
  shows "handles E (ftp_NOOP E)" "handles E (ftp_SUPERFLUOUS E)" "handles E (ftp_NEEDAUTH E)" "handles E (ftp_UNKNOWN E)"
    "handles E (ftp_SITE_CLEAR E)" "handles E (ftp_SITE_CHMOD E)" "handles E (ftp_SITE_UNKNOWN E)"
  unfolding ftp_NOOP_def[abs_def] ftp_SUPERFLUOUS_def[abs_def] ftp_NEEDAUTH_def[abs_def] ftp_UNKNOWN_def[abs_def]
    ftp_SITE_CLEAR_def[abs_def] ftp_SITE_CHMOD_def[abs_def] ftp_SITE_UNKNOWN_def[abs_def]
  by (rule reply_handles[OF assms]; simp)+

lemma stays_flag: "stays E a F s s1 \<Longrightarrow> stays E a F s (set_reset_flag s1)"
  by (frule stays_good, erule stays_trans, erule stays_upper) (simp_all add: upper_def set_reset_flag_def)

lemma stays_drive: "ready E a F x s \<Longrightarrow> drive_frame s s' \<Longrightarrow> stays E a F s s'"
  by (blast intro: stays_fs_frame drive_fs_frame readyD)

lemma site_handles [handles_rules]:
  assumes "server_laws E"
  shows "handles E (ftp_SITE_LOADER E)" "handles E (ftp_SITE_EJECT E)" "handles E (ftp_SITE_MOUNT E)"
    "handles E (ftp_SITE_UNMOUNT E)"
proof -
  have L: "laws E" "devices_ok E" "fresh E" using assms by (auto simp: server_laws_def laws_def laws_fresh)
  note wf = good_wf[OF readyD(1)]
  show "handles E (ftp_SITE_LOADER E)"
    unfolding ftp_SITE_LOADER_def
    by (auto intro!: handlesI returns_mono[OF reply_first(1)] stays_flag L dest: readyD)
  show "handles E (ftp_SITE_EJECT E)"
    unfolding ftp_SITE_EJECT_def
    by (auto intro!: handlesI returns_mono[OF dvd_eject_returns] reply_after L intro: stays_drive readyD(1))
  show "handles E (ftp_SITE_MOUNT E)"
    unfolding ftp_SITE_MOUNT_def mount_virtual_def
    by (auto intro!: handlesI returns_mono[OF mount_returns[OF L(2) wf]] reply_after L intro: stays_drive readyD(1))
  show "handles E (ftp_SITE_UNMOUNT E)"
    unfolding ftp_SITE_UNMOUNT_def unmount_virtual_def
    by (auto intro!: handlesI returns_mono[OF unmount_returns] reply_after L intro: stays_drive readyD(1))
qed

section \<open>Passwords and executables\<close>

text \<open>\<open>SITE PASSWD\<close> and \<open>SITE NOPASSWD\<close>: the process ends when memory runs out.\<close>

lemma malloc_lasts: "process_lasts E \<Longrightarrow> n \<le> FTP_BUFFER_SIZE \<Longrightarrow> upon (malloc E n s) (\<lambda>x _. x \<noteq> 0)"
  by (simp add: malloc_def upon_ext Let_def process_lasts_def)

lemma set_password_good:
  assumes "laws E" "good E a F s" "b \<and> pw \<noteq> None \<longrightarrow> process_lasts E \<and> length (the pw) < FTP_BUFFER_SIZE"
  shows "triple b (set_ftp_password E pw s) (\<lambda>_ s'. stays E a F s s')"
proof -
  obtain c where c: "heap s a = Some c" "client_ok E (viters s) c" "distinct (owned a c s)"
    "set (owned a c s) \<inter> F = {}" "set (owned a c s) \<union> F \<subseteq> held (trace s)"
    using assms(2) by (auto simp: good_def)
  obtain old where old: "old = set (pw_res s)" by blast
  let ?rest = "Mem a # socks c @ data_res c"
  have split: "distinct ?rest" "set ?rest \<inter> F = {}" "set ?rest \<union> F \<subseteq> held (trace s) - old"
    using c(3-5) unfolding old by (auto simp: owned_def)
  have fin: "stays E a F s (s'\<lparr>password := new\<rparr>)"
    if s': "base.more s' = base.more s" "extends s s'" "set ?rest \<union> F \<subseteq> held (trace s')"
      and new: "case new of None \<Rightarrow> True | Some (p, _) \<Rightarrow> p \<noteq> 0 \<and> Mem p \<in> held (trace s') \<and> Mem p \<notin> held (trace s) - old"
    for s' new
  proof -
    have f: "heap s' = heap s" "viters s' = viters s" "clients s' = clients s" "num_clients s' = num_clients s"
      "VIRTUAL_PARTITIONS s' = VIRTUAL_PARTITIONS s"
      using base_more_upper[OF s'(1)] by (auto simp: upper_def)
    let ?s = "s'\<lparr>password := new\<rparr>"
    have "set (owned a c ?s) = set ?rest \<union> set (pw_res ?s)" by (auto simp: owned_def)
    moreover have "pw_res ?s = (case new of None \<Rightarrow> [] | Some (p, _) \<Rightarrow> [Mem p])" by (simp add: pw_res_def)
    moreover have "distinct (owned a c ?s)"
      using split new by (auto simp: owned_def pw_res_def split: option.splits)
    ultimately have "good E a F ?s"
      using assms(2) c(1,2) f split s'(3) new by (auto simp: good_def fs_wf_def split: option.splits)
    then show ?thesis using f c(1) s'(2) by (auto simp: stays_def)
  qed
  have new: "triple b (case pw of
        Some p \<Rightarrow> do {
          (x, s) \<leftarrow> malloc E (length p + 1) s1;
          if x = 0 then exit_after (die E s) else Some ((), s\<lparr>password := Some (x, p)\<rparr>)
        }
      | None \<Rightarrow> Some ((), s1\<lparr>password := None\<rparr>)) (\<lambda>_ s'. stays E a F s s')"
    if s1: "frame mem_only s s1" "held (trace s1) = held (trace s) - old" for s1
  proof (cases pw)
    case None
    then show ?thesis
      using fin[OF frame_more[OF s1(1)] frame_extends[OF s1(1)], of None] s1(2) split by simp
  next
    case (Some p)
    have "stays E a F s (s2\<lparr>password := Some (x, p)\<rparr>)"
      if m: "frame mem_only s1 s2 \<and> (if x = 0 then held (trace s2) = held (trace s1)
         else Mem x \<notin> held (trace s1) \<and> held (trace s2) = insert (Mem x) (held (trace s1)))" "x \<noteq> 0" for x s2
    proof (rule fin)
      have h: "held (trace s2) = insert (Mem x) (held (trace s) - old)" "Mem x \<notin> held (trace s) - old"
        using m s1(2) by auto
      have "frame mem_only s s2" using m frame_trans[OF s1(1)] by blast
      then show "base.more s2 = base.more s" "extends s s2" by (rule frame_more, rule frame_extends)
      show "set (Mem a # socks c @ data_res c) \<union> F \<subseteq> held (trace s2)" using split(3) h(1) by blast
      show "case Some (x, p) of None \<Rightarrow> True | Some (p, _) \<Rightarrow>
          p \<noteq> 0 \<and> Mem p \<in> held (trace s2) \<and> Mem p \<notin> held (trace s) - old"
        using h m by simp
    qed
    moreover have "upon (malloc E (length p + 1) s1) (\<lambda>x _. b \<longrightarrow> x \<noteq> 0)"
      using assms(3) Some malloc_lasts[of E "length p + 1" s1] by (cases b) auto
    ultimately show ?thesis
      unfolding Some option.case
      by (simp only: triple_bind prod.case)
         (rule triple_mono[OF triple_returns[OF returns_conj[OF malloc_returns[OF laws_fresh[OF assms(1)]]]]],
           assumption, auto simp: exit_after_def)
  qed
  show ?thesis
  proof (cases "password s")
    case None
    then show ?thesis using new[of s] by (simp add: set_ftp_password_def pw_res_def old)
  next
    case (Some pq)
    obtain p q where pq: "password s = Some (p, q)" "p \<noteq> 0" using Some assms(2) by (cases pq) (auto simp: good_def)
    then have "Mem p \<in> held (trace s)" using c(5) by (auto simp: owned_def pw_res_def)
    moreover have "held (trace s1) = held (trace s) - old"
      if "held (trace s1) = (if p = 0 then held (trace s) else held (trace s) - {Mem p})" for s1
      using that pq by (simp add: pw_res_def old)
    ultimately show ?thesis
      unfolding set_ftp_password_def pq option.case prod.case
      by (simp only: triple_bind prod.case)
         (rule triple_mono[OF triple_returns[OF free_returns]], simp, elim conjE, blast intro: new)
  qed
qed

lemma site_passwords_keep:
  assumes "server_laws E" "b \<longrightarrow> process_lasts E"
  shows "keeps_inv b E (ftp_SITE_PASSWD E)" "keeps_inv b E (ftp_SITE_NOPASSWD E)"
proof -
  have L: "laws E" using assms by (simp add: server_laws_def)
  have reply: "triple b (write_reply E a 200 msg s1) (\<lambda>r s'. stays E a F s s')" if "stays E a F s s1" for a F s s1 msg
    by (rule triple_returns[OF reply_after(1)[OF L that]]) simp
  have set: "triple b (set_ftp_password E pw s) (\<lambda>_ s'. stays E a F s s')"
    if "ready E a F x s" "pw = None \<or> pw = Some x" for a F x s pw
    by (rule set_password_good[OF L readyD(1)[OF that(1)]]) (use assms(2) that(2) readyD(4)[OF that(1)] in auto)
  show "keeps_inv b E (ftp_SITE_PASSWD E)" "keeps_inv b E (ftp_SITE_NOPASSWD E)"
    unfolding ftp_SITE_PASSWD_def ftp_SITE_NOPASSWD_def
    by (rule keeps_invI, simp only: triple_bind prod.case, rule triple_mono[OF set], assumption, simp, erule reply)+
qed

text \<open>
  \<open>SITE LOAD\<close>, when no executable takes over. \<open>grows\<close>: nothing is released but what was obtained
  on the way; a loader that gives up early may leave the block of the command line behind.
\<close>

definition grows :: "'z base_scheme \<Rightarrow> 'z base_scheme \<Rightarrow> bool" where
  "grows s s' \<longleftrightarrow> frame (\<lambda>_. True) s s' \<and> held (trace s) \<subseteq> held (trace s')"

lemma grows_trans: "grows s s' \<Longrightarrow> grows s' s'' \<Longrightarrow> grows s s''"
  by (auto simp: grows_def intro: frame_trans)

lemma grows_refl: "grows s s"
  by (simp add: grows_def)

lemma stays_grow:
  assumes "good E a F s" "grows s s'"
  shows "stays E a F s s'"
proof -
  have fr: "frame (\<lambda>_. True) s s'" and h: "held (trace s) \<subseteq> held (trace s')"
    using assms(2) by (simp_all add: grows_def)
  have "upper s' = upper s \<and> VIRTUAL_PARTITIONS s' = VIRTUAL_PARTITIONS s"
    using base_more_upper[OF frame_more[OF fr]] .
  then show ?thesis
    using assms(1) owned_upper[of s' s a] subset_trans[OF _ h] frame_extends[OF fr]
    by (simp add: stays_def good_def fs_wf_def upper_def) blast
qed

lemma grows_step:
  assumes "grows s s1" "base.more s2 = base.more s1" "trace s2 = trace s1 @ [(c, r)]" "releases c = {}"
  shows "grows s s2"
proof -
  have "grows s1 s2" using assms(2-4) by (auto simp: grows_def intro!: frame_call)
  then show ?thesis by (rule grows_trans[OF assms(1)])
qed

lemma ext_grows: "grows s s1 \<Longrightarrow> releases c = {} \<Longrightarrow> returns (ext E c s1) (\<lambda>r. grows s)"
  by (rule returns_mono[OF ext_step], elim conjE, rule grows_step)

lemma grows_held: "grows s s1 \<Longrightarrow> x \<in> held (trace s) \<Longrightarrow> x \<in> held (trace s1)"
  by (auto simp: grows_def)

lemma fread_grows:
  assumes "read_bounded E" "File f \<in> held (trace s)" "grows s s1"
  shows "returns (fread E f n s1) (\<lambda>x s2. grows s s2 \<and>
    (finite_world E N \<longrightarrow> x \<noteq> [] \<longrightarrow> remaining N s2 < remaining N s1))"
  unfolding fread_def ext_on_held[OF grows_held[OF assms(3,2)]]
  by (auto intro!: returns_mono[OF ext_law] grows_step[OF assms(3)] remaining_less dest: read_boundedD(2)[OF assms(1)])

text \<open>The file is read to its end: every turn but the last finds \<open>READ_SIZE\<close> more bytes.\<close>

lemma read_body_grows:
  assumes "read_bounded E" "b \<longrightarrow> finite_world E N" "File f \<in> held (trace s)" "grows s s1"
    and rec: "\<And>g s2. grows s s2 \<Longrightarrow> b \<longrightarrow> remaining N s2 < remaining N s1 \<Longrightarrow> triple b (rec E f g s2) (\<lambda>_. grows s)"
  shows "triple b (do {
      (x, s) \<leftarrow> fread E f READ_SIZE s1;
      if length x < READ_SIZE then do {
        (r, s) \<leftarrow> ext_on (File f) E (CFile (Feof f)) s;
        Some ((ret r \<noteq> 0, got @ x), s)
      } else rec E f (got @ x) s
    }) (\<lambda>_. grows s)"
  apply (simp only: triple_bind prod.case triple_simps)
  apply (rule triple_mono[OF triple_returns[OF fread_grows[OF assms(1,3,4), where N = N]]], elim conjE)
  apply (rule triple_ifI)
   apply (simp only: triple_bind prod.case triple_simps)
   apply (subst ext_on_held, erule grows_held[OF _ assms(3)])
   apply (rule triple_returns[OF ext_grows], assumption, simp)
  apply (rule rec, assumption)
  using assms(2) apply (auto simp: READ_SIZE_def)
  done

lemma read_from_file_grows:
  assumes "read_bounded E" "b \<longrightarrow> finite_world E N" "File f \<in> held (trace s)" "grows s s1"
  shows "triple b (read_from_file E f got s1) (\<lambda>_. grows s)"
proof (cases b)
  case True
  have "triple True (read_from_file E f got s1) (\<lambda>_. grows s)"
    using assms(4)
  proof (induction "remaining N s1" arbitrary: got s1 rule: less_induct)
    case less
    show ?case
      by (subst read_from_file.simps, rule read_body_grows[OF assms(1) _ assms(3) less.prems, where N = N])
         (use assms(2) True less.hyps in auto)
  qed
  then show ?thesis using True by simp
next
  case False
  have "\<forall>E f got s1. read_bounded E \<and> File f \<in> held (trace s) \<and> grows s s1 \<longrightarrow>
      upon (read_from_file E f got s1) (\<lambda>_. grows s)"
    by (rule read_from_file.fixp_induct, rule loop_admissible, simp)
       (intro allI impI, elim conjE, unfold triple_False[symmetric], rule read_body_grows; simp add: triple_False)
  then show ?thesis using assms False by (simp add: triple_False)
qed

lemma malloc_grows:
  assumes "fresh E"
  shows "returns (malloc E n s) (\<lambda>p s'. grows s s' \<and>
    (p \<noteq> 0 \<longrightarrow> Mem p \<notin> held (trace s) \<and> held (trace s') = insert (Mem p) (held (trace s))))"
  by (rule returns_mono[OF malloc_returns[OF assms]]) (auto simp: grows_def elim: frame_mono split: if_splits)

lemma free_grows:
  assumes "grows s s2" "p \<noteq> 0" "Mem p \<notin> held (trace s)" "grows s1 s2" "Mem p \<in> held (trace s1)"
  shows "returns (free E p s2) (\<lambda>_ s'. grows s s')"
proof (rule returns_mono[OF free_returns])
  show "p \<noteq> 0 \<longrightarrow> Mem p \<in> held (trace s2)" using grows_held[OF assms(4,5)] by simp
  show "grows s s'"
    if "frame mem_only s2 s' \<and> held (trace s') = (if p = 0 then held (trace s2) else held (trace s2) - {Mem p})" for s'
    using that assms(1-3) by (auto simp: grows_def intro: frame_trans elim: frame_mono)
qed

lemma load_from_file_grows:
  assumes "laws E" "b \<longrightarrow> finite_world E N \<and> process_lasts E" "File f \<in> held (trace s)"
  shows "triple b (load_from_file E f arg s) (\<lambda>_ s'. grows s s')"
proof -
  have L: "fresh E" "read_bounded E" using assms(1) by (simp_all add: laws_fresh laws_def)
  have run: "triple b (run_dol E d argv m s2) (\<lambda>_ s3. grows s s3 \<and> grows s1 s3)"
    if "grows s s2" "grows s1 s2" for d argv m s1 s2
  proof -
    have go: "triple b (if ret r = 0 then None else Some ((), s3)) (\<lambda>_ s3. grows s s3 \<and> grows s1 s3)"
      if "grows s s3" "grows s1 s3" "answers E h (CSys (Run ep)) r" for r s3 h ep
      using that assms(2) by (auto simp: process_lasts_def answers_def)
    have step: "returns (ext E (CSys y) s2) (\<lambda>r s3. answers E (trace s2) (CSys y) r \<and> grows s s3 \<and> grows s1 s3)"
      if "grows s s2" "grows s1 s2" for y s2
      by (rule returns_mono[OF ext_law], elim conjE) (simp add: grows_step[OF that(1)] grows_step[OF that(2)])
    show ?thesis
      unfolding run_dol_def
      apply (cases "load_dol_image d argv m", simp only: prod.case triple_bind)
      apply (rule triple_mono[OF triple_returns[OF step[OF that]]], elim conjE)
      apply (rule triple_mono[OF triple_returns[OF step]], assumption+, elim conjE)
      apply (rule go, assumption+)
      done
  qed
  have all: "triple b (free E p s3) (\<lambda>_ s'. grows s s')"
    if "grows s s3 \<and> grows s1 s3" "p \<noteq> 0" "Mem p \<notin> held (trace s)" "held (trace s1) = insert (Mem p) (held (trace s))" for p s1 s3
    by (rule triple_returns[OF free_grows[of s s3 p s1]]) (use that in auto)
  have read: "triple b (read_from_file E f got s2) (\<lambda>_ s3. grows s1 s3)" if "grows s s1" "grows s1 s2" for got s1 s2
    by (rule read_from_file_grows[OF L(2) _ grows_held[OF that(1) assms(3)] that(2), where N = N]) (use assms(2) in blast)
  show ?thesis
    unfolding load_from_file_def Let_def
    apply (simp only: triple_bind prod.case triple_simps)
    apply (rule triple_mono[OF triple_returns[OF malloc_grows[OF L(1)]]], elim conjE)
    apply (rule triple_ifI, simp, drule (1) mp, elim conjE)
    apply (simp only: triple_bind prod.case triple_simps)
    subgoal for p s1
      apply (subst ext_on_held, erule grows_held[OF _ assms(3)])
      apply (rule triple_mono[OF triple_returns[OF ext_grows[OF grows_refl]]], simp)
      apply (rule triple_ifI, simp, erule (1) grows_trans)
      apply (simp only: triple_bind prod.case triple_simps)
      apply (rule triple_mono[OF read], assumption, assumption)
      subgoal for _ s2 x s3
        apply (cases x, simp only: prod.case)
        apply (rule triple_ifI, simp, erule (1) grows_trans)
        apply (simp only: triple_bind prod.case triple_simps)
        apply (rule triple_mono[OF run], erule (1) grows_trans, assumption)
        apply (rule all, assumption+)
        done
      done
    done
qed

text \<open>The file that \<open>SITE LOAD\<close> has opened is not the virtual root.\<close>

lemma fopen_not_root:
  assumes "fresh E" "fs_wf s"
  shows "upon (vrt_fopen E d p m s) (\<lambda>f _. f \<noteq> 0 \<longrightarrow> abspath d p \<noteq> ''/'')"
  unfolding vrt_fopen_def
  by (auto intro!: upon_mono[OF returns_upon[OF with_virtual_path_returns[OF assms(1) _ assms(2)]]]
      simp: path_result_def real_call_def)

lemma site_load_keeps:
  assumes "server_laws E" "b \<longrightarrow> finite_world E N \<and> process_lasts E"
  shows "keeps_inv b E (ftp_SITE_LOAD E)"
proof (rule keeps_invI)
  fix a F x and s :: "'a ftp_st_scheme"
  assume r: "ready E a F x s"
  have L: "laws E" using assms by (simp add: server_laws_def)
  note g = readyD(1)[OF r]
  have load: "triple b (case v of
           Null \<Rightarrow> Some ((), s2)
         | Static q \<Rightarrow> do { (_, s) \<leftarrow> load_from_file E f q s2; free_str E v s }
         | Heap p q \<Rightarrow> do { (_, s) \<leftarrow> load_from_file E f q s2; free_str E v s }) (\<lambda>_ s'. grows s1 s')"
    if fr: "frame mem_only s1 s2" and res: "real_path_result E (cwd c) x s1 v (held (trace s2))"
      and f: "abspath (cwd c) x \<noteq> ''/''" "File f \<in> held (trace s1)" for f v s1 s2 c
  proof (cases v)
    case Null
    then show ?thesis using that by (auto simp: grows_def real_path_result_def elim: frame_mono)
  next
    case (Static q)
    then show ?thesis using res f by (simp add: real_path_result_def)
  next
    case (Heap p q)
    have h: "p \<noteq> 0" "Mem p \<notin> held (trace s1)" "held (trace s2) = insert (Mem p) (held (trace s1))"
      using res Heap by (auto simp: real_path_result_def)
    have gr: "grows s1 s2" using fr h(3) by (auto simp: grows_def elim: frame_mono)
    have "triple b (free E p s3) (\<lambda>_ s'. grows s1 s')" if "grows s2 s3" for s3
      by (rule triple_returns[OF free_grows[OF grows_trans[OF gr that] h(1,2) that]]) (simp add: h)
    then show ?thesis
      unfolding Heap cstr.case free_str_def
      by (simp only: triple_bind prod.case)
         (rule triple_mono[OF load_from_file_grows[OF L assms(2) grows_held[OF gr f(2)]]])
  qed
  have rest: "triple b (to_real_path E (cwd c) x s1) (\<lambda>v s2. triple b (do {
       (_, s) \<leftarrow> (case v of
           Null \<Rightarrow> Some ((), s2)
         | Static q \<Rightarrow> do { (_, s) \<leftarrow> load_from_file E f q s2; free_str E v s }
         | Heap p q \<Rightarrow> do { (_, s) \<leftarrow> load_from_file E f q s2; free_str E v s });
       (_, s) \<leftarrow> fclose E f s;
       write_reply E a 500 ''Unable to load.'' s
     }) (\<lambda>r s'. stays E a F s s'))"
    if "stays E a F s s1" "file_in_hand E a F f s1" "abspath (cwd c) x \<noteq> ''/''" for f s1 c
  proof -
    have h: "good E a (insert (File f) F) s1" "File f \<notin> F" using that(2) by (simp_all add: file_in_hand_def)
    have tail: "triple b (fclose E f s3) (\<lambda>_ s4. triple b (write_reply E a 500 ''Unable to load.'' s4) (\<lambda>r s'. stays E a F s s'))"
      if "grows s1 s3" for s3
    proof (rule triple_mono[OF triple_returns[OF fclose_good[OF stays_good[OF stays_grow[OF h(1) that]] h(2)]]])
      fix s4 assume "stays E a F s3 s4"
      then have "stays E a F s s4"
        using stays_grow[OF stays_good[OF \<open>stays E a F s s1\<close>] that] \<open>stays E a F s s1\<close> stays_trans by blast
      then show "triple b (write_reply E a 500 ''Unable to load.'' s4) (\<lambda>r s'. stays E a F s s')"
        by (intro triple_returns[OF reply_after(1)[OF L]]) simp_all
    qed
    show ?thesis
      apply (rule triple_mono[OF triple_returns[OF to_real_path_returns[OF laws_fresh[OF L] good_wf[OF h(1)]]]], elim conjE)
      apply (simp only: triple_bind prod.case)
      apply (rule triple_mono[OF load], assumption, assumption, rule that(3), rule good_holds[OF h(1)])
      apply (rule tail, assumption)
      done
  qed
  show "triple b (ftp_SITE_LOAD E a x s) (\<lambda>r s'. stays E a F s s')"
    unfolding ftp_SITE_LOAD_def
    apply (subst triple_bind)
    apply (rule triple_mono[OF triple_returns[OF deref_good[OF g]]], elim conjE, hypsubst)
    apply (subst prod.case, subst triple_bind)
    apply (rule triple_mono[OF triple_returns[OF returns_conj[OF fopen_good[OF L readyD(1,2)[OF r]]
            fopen_not_root[OF laws_fresh[OF L] good_wf[OF g]]]]], elim conjE)
    apply (subst prod.case, rule triple_ifI)
     apply (rule triple_returns[OF reply_after(2)[OF L]], assumption, simp)
    apply (subst triple_bind, subst prod.case)
    apply (rule rest, assumption, simp, simp)
    done
qed

section \<open>The tables of the server\<close>

text \<open>Where \<open>b\<close> asks the handlers to return, \<open>allows b E N\<close> asks for a lasting world.\<close>

definition allows :: "bool \<Rightarrow> env \<Rightarrow> nat \<Rightarrow> bool" where
  "allows b E N \<longleftrightarrow> server_laws E \<and> (b \<longrightarrow> lasting E N)"

lemma allowsD: "allows b E N \<Longrightarrow> server_laws E" "allows b E N \<Longrightarrow> b \<longrightarrow> finite_world E N"
  "allows b E N \<Longrightarrow> b \<longrightarrow> process_lasts E" "allows b E N \<Longrightarrow> b \<longrightarrow> entries_fit E"
  "allows b E N \<Longrightarrow> b \<longrightarrow> finite_world E N \<and> process_lasts E"
  by (simp_all add: allows_def lasting_def)

lemma allows_False: "server_laws E \<Longrightarrow> allows False E N"
  by (simp add: allows_def)

lemma allows_True: "server_laws E \<Longrightarrow> lasting E N \<Longrightarrow> allows True E N"
  by (simp add: allows_def)

interpretation site_table: command_table site_commands "site_handlers E" "\<lambda>h. allows b E N \<longrightarrow> keeps_inv b E h"
  by unfold_locales
    (auto simp: site_commands_def site_handlers_def
      intro: handles_keeps handles_rules site_passwords_keep site_load_keeps dest: allowsD)

lemma ftp_SITE_keeps:
  assumes "allows b E N"
  shows "keeps_inv b E (ftp_SITE E)"
proof (rule keeps_invI)
  fix a F x and s :: "'a ftp_st_scheme"
  assume r: "ready E a F x s"
  obtain h rest where h: "allows b E N \<longrightarrow> keeps_inv b E h"
    "dispatch_to_handler a x site_commands (site_handlers E) s = h a rest s" "length rest \<le> length x" "set rest \<subseteq> set x"
    using site_table.dispatched[OF readyD(4)[OF r], of E b N a s] by blast
  have "ready E a F rest s" using r h(3,4) by (auto simp: ready_def)
  then show "triple b (ftp_SITE E a x s) (\<lambda>r s'. stays E a F s s')"
    unfolding ftp_SITE_def h(2) using h(1) assms keeps_invD by blast
qed

interpretation authenticated_table: command_table authenticated_commands "authenticated_handlers E"
  "\<lambda>h. allows b E N \<longrightarrow> keeps_inv b E h"
  by unfold_locales
    (auto simp: authenticated_commands_def authenticated_handlers_def
      intro: handles_keeps handles_rules ftp_SITE_keeps dest: allowsD)

interpretation unauthenticated_table: command_table unauthenticated_commands "unauthenticated_handlers E"
  "\<lambda>h. server_laws E \<longrightarrow> handles E h"
  by unfold_locales
    (auto simp: unauthenticated_commands_def unauthenticated_handlers_def intro: handles_rules)

end
