(* ===== verification/Callbacks.thy ===== *)
theory Callbacks
  imports Contract
begin

text \<open>
  The callbacks of data connections keep the ownership invariant: listings, downloads, and uploads
  from any peer. In a lasting world they also return.
\<close>

section \<open>Listings\<close>

text \<open>What a callback leaves: everything but the place of the iterator \<open>it\<close> and the buffer size.\<close>

definition walks :: "dir_iter \<Rightarrow> 'z vrt_st_scheme \<Rightarrow> 'z vrt_st_scheme \<Rightarrow> bool" where
  "walks it s s' \<longleftrightarrow> extends s s' \<and> held (trace s') = held (trace s) \<and> VIRTUAL_PARTITIONS s' = VIRTUAL_PARTITIONS s \<and>
     vrt_st.more s' = vrt_st.more s \<and> dom (viters s') = dom (viters s) \<and>
     (\<forall>x. Mem x \<noteq> iter_res it \<longrightarrow> viters s' x = viters s x)"

lemma walks_refl [simp]: "walks it s s"
  by (simp add: walks_def)

lemma walks_trans: "walks it s s' \<Longrightarrow> walks it s' s'' \<Longrightarrow> walks it s s''"
  unfolding walks_def by (auto intro: logs_trans)

lemma base_more_walks:
  "base.more s' = base.more s \<Longrightarrow> VIRTUAL_PARTITIONS s' = VIRTUAL_PARTITIONS s \<and> vrt_st.more s' = vrt_st.more s \<and> viters s' = viters s"
  by (cases s; cases s') simp

lemma net_more_walks:
  "net_st.more s' = net_st.more s \<Longrightarrow> VIRTUAL_PARTITIONS s' = VIRTUAL_PARTITIONS s \<and> vrt_st.more s' = vrt_st.more s \<and> viters s' = viters s"
  by (cases s; cases s') simp

lemma frame_walks: "frame C s s' \<Longrightarrow> held (trace s') = held (trace s) \<Longrightarrow> walks it s s'"
  using base_more_walks[of s' s] frame_extends[of C s s'] by (auto simp: walks_def frame_def)

lemma net_frame_walks: "net_frame C s s' \<Longrightarrow> (\<And>c. C c \<Longrightarrow> neutral c) \<Longrightarrow> walks it s s' \<and> viters s' = viters s"
  using net_more_walks[of s' s]
  by (auto simp: walks_def net_frame_def intro!: logs_neutral_held elim: logs_mono)

text \<open>
  An entry fits the arrays of the loops; \<open>left_in N it s\<close> bounds the entries that are still to come.
\<close>

definition entry_fits :: "env \<Rightarrow> string \<Rightarrow> stat \<Rightarrow> bool" where
  "entry_fits E name st \<longleftrightarrow> length name < MAXPATHLEN E \<and> unat (st_size st) < 10 ^ 12"

definition left_in :: "nat \<Rightarrow> dir_iter \<Rightarrow> 'z vrt_st_scheme \<Rightarrow> nat" where
  "left_in N it s = (case it of Real _ \<Rightarrow> remaining N s
     | Fake a \<Rightarrow> (case viters s a of None \<Rightarrow> 0 | Some i \<Rightarrow> MAX_VIRTUAL_PARTITIONS - i))"

lemma entries_fitD:
  "entries_fit E \<Longrightarrow> answers E h (CFile (Dirnext d)) r \<Longrightarrow> ret r = 0 \<Longrightarrow> entry_fits E (data r) (stat_out r)"
  by (simp add: entries_fit_def entry_fits_def answers_def)

lemma stamp_fits: "entries_fit E \<Longrightarrow> answers E h (CSys (Strftime t)) r \<Longrightarrow> length (data r) \<le> 12"
  by (simp add: entries_fit_def answers_def)

lemma left_in_same: "extends s s' \<Longrightarrow> viters s' = viters s \<Longrightarrow> left_in N it s' \<le> left_in N it s"
  by (auto simp: left_in_def extends_remaining split: dir_iter.splits option.splits)

lemma length_initial: "length initial_partitions = MAX_VIRTUAL_PARTITIONS"
  by code_simp

lemma short_alias:
  assumes "fs_wf s" "k < MAX_VIRTUAL_PARTITIONS"
  shows "length (virtual_alias (partition k s)) \<le> 20"
proof -
  have len: "length (VIRTUAL_PARTITIONS s) = MAX_VIRTUAL_PARTITIONS"
    using arg_cong[OF assms(1)[unfolded fs_wf_def], of length] length_initial by simp
  have "virtual_alias (partition k s) = virtual_alias (map fixed_part (VIRTUAL_PARTITIONS s) ! k)"
    using assms(2) len by (simp add: partition_def)
  then have "virtual_alias (partition k s) = virtual_alias (initial_partitions ! k)"
    using assms(1) by (simp add: fs_wf_def)
  moreover have "list_all (\<lambda>v. length (virtual_alias v) \<le> 20) initial_partitions" by code_simp
  moreover have "k < length initial_partitions" using assms(2) by (simp add: length_initial)
  ultimately show ?thesis by (simp add: list_all_length)
qed

lemma vrt_dirnext_walks:
  assumes "laws E" "fs_wf s" "iter_ok (viters s) it" "iter_res it \<in> held (trace s)"
  shows "returns (vrt_dirnext E it fname st s) (\<lambda>(r, name, st') s'. walks it s s' \<and>
    (entries_fit E \<and> finite_world E N \<longrightarrow> r = 0 \<longrightarrow> entry_fits E name st' \<and> left_in N it s' < left_in N it s))"
proof (cases it)
  case (Real d)
  have step: "(case (if ret r = 0 then (0, data r, stat_out r) else (ret r, fname, st)) of (x, name, st') \<Rightarrow> \<lambda>s'. walks (Real d) s s' \<and>
      (entries_fit E \<and> finite_world E N \<longrightarrow> x = 0 \<longrightarrow> entry_fits E name st' \<and> left_in N (Real d) s' < left_in N (Real d) s)) s'"
    if "base.more s' = base.more s" "trace s' = trace s @ [(CFile (Dirnext d), r)]" "answers E (trace s) (CFile (Dirnext d)) r"
    for s' r
  proof -
    have "walks (Real d) s s'" using that by (intro frame_walks[of "\<lambda>_. True"] frame_call) simp_all
    then show ?thesis
      using entries_fitD[of E, OF _ that(3)] remaining_less[OF _ that(3,2)] by (auto simp: left_in_def)
  qed
  show ?thesis
    unfolding vrt_dirnext_def Real dir_iter.case ext_on_held[OF assms(4)[unfolded Real iter_res.simps]]
    by (simp only: returns_bind prod.case returns_simps) (rule returns_mono[OF ext_law], elim conjE, rule step)
next
  case (Fake a)
  then obtain i where i: "viters s a = Some i" using assms(3) by auto
  have walk: "walks (Fake a) s (s1\<lparr>viters := (viters s1)(a := Some j)\<rparr>)"
    if "frame dir_io s s1" "held (trace s1) = held (trace s)" for s1 j
    using frame_walks[OF that, of "Fake a"] i by (auto simp: walks_def)
  have "fs_wf s1" if "frame dir_io s s1" for s1
    using fs_wf_more[OF assms(2) frame_more[OF that]] .
  then have fits: "entry_fits E (drop 1 (virtual_alias (partition k (s1\<lparr>viters := v\<rparr>)))) (st\<lparr>st_mode := m, st_size := 0\<rparr>)"
    if "frame dir_io s s1" "k < MAX_VIRTUAL_PARTITIONS" for s1 k m v
    using short_alias[of s1 k] that assms(1)
    by (auto simp: entry_fits_def laws_def FTP_BUFFER_SIZE_def partition_def)
  show ?thesis
    unfolding vrt_dirnext_def Fake dir_iter.case i option.case Let_def
    apply (simp only: returns_bind prod.case)
    apply (rule returns_mono[OF next_mounted_returns[OF laws_fresh[OF assms(1)]]])
    apply (auto simp: left_in_def i walk split: option.splits)
     apply (rule fits[simplified], assumption, linarith)
    apply linarith
    done
qed

lemma send_walks:
  assumes "write_bounded E" "walks it s s1"
  shows "returns (send_exact E k text s1) (\<lambda>_ s2. walks it s s2 \<and> left_in N it s2 \<le> left_in N it s1)"
proof -
  have "walks it s s2 \<and> left_in N it s2 \<le> left_in N it s1" if "net_frame (sock_io k) s1 s2" for s2
  proof -
    have w: "walks it s1 s2" "viters s2 = viters s1"
      using net_frame_walks[OF that sock_io_neutral] by auto
    have "extends s1 s2" using w(1) by (simp add: walks_def)
    then show ?thesis using walks_trans[OF assms(2) w(1)] left_in_same[OF _ w(2)] by simp
  qed
  then show ?thesis by (intro returns_mono[OF send_exact_returns[OF assms(1)]]) blast
qed

lemma format_time_walks:
  assumes "walks it s s1" "b \<longrightarrow> entries_fit E"
  shows "triple b (format_time E t s1) (\<lambda>x s2. walks it s s2 \<and> left_in N it s2 \<le> left_in N it s1 \<and> length x \<le> 12)"
proof -
  have "walks it s s2 \<and> left_in N it s2 \<le> left_in N it s1"
    if "base.more s2 = base.more s1" "trace s2 = trace s1 @ [(CSys (Strftime t), r)]" for s2 r
    using walks_trans[OF assms(1) frame_walks[OF frame_call[OF that TrueI]]] that(2)
      left_in_same[OF snoc_extends[OF that(2)]] base_more_walks[OF that(1)] by simp
  then show ?thesis
    unfolding format_time_def
    using assms(2)
    by (auto intro!: triple_mono[OF triple_returns[OF ext_law]] dest: stamp_fits)
qed

lemma sprintf_bind: "triple b (sprintf n text \<bind> f) Q \<longleftrightarrow> (if length text < n then triple b (f text) Q else \<not> b)"
  by (auto simp: sprintf_def)

lemma entry_line_fits: "entry_fits E name st \<Longrightarrow> length timestamp \<le> 12 \<Longrightarrow> length (list_line st timestamp name) < MAXPATHLEN E + 59"
  by (simp add: entry_fits_def list_line_fits)

text \<open>
  The loops, from a state \<open>s\<close> in which the directory is open: one turn of each, which takes an entry and
  sends its line, and the loop by induction on the entries left, or on the iterations.
\<close>

definition open_dir :: "dir_iter \<Rightarrow> 'z vrt_st_scheme \<Rightarrow> bool" where
  "open_dir it s \<longleftrightarrow> fs_wf s \<and> iter_ok (viters s) it \<and> iter_res it \<in> held (trace s)"

lemma iter_ok_dom: "dom w = dom v \<Longrightarrow> iter_ok w d = iter_ok v d"
  by (cases d) (auto simp: domIff dom_def set_eq_iff)

lemma open_dir_walks: "open_dir it s \<Longrightarrow> walks it s s' \<Longrightarrow> open_dir it s'"
  using iter_ok_dom[of "viters s'" "viters s" it] by (simp add: open_dir_def walks_def fs_wf_def)

lemma next_entry:
  assumes "laws E" "b \<longrightarrow> finite_world E N \<and> entries_fit E" "open_dir it s" "walks it s s1"
  shows "triple b (vrt_dirnext E it fname st s1) (\<lambda>(r, name, st') s2. walks it s s2 \<and>
    (b \<and> r = 0 \<longrightarrow> entry_fits E name st' \<and> left_in N it s2 < left_in N it s1))"
proof -
  have "open_dir it s1" using open_dir_walks[OF assms(3,4)] .
  then have o: "fs_wf s1" "iter_ok (viters s1) it" "iter_res it \<in> held (trace s1)" by (simp_all add: open_dir_def)
  show ?thesis
    by (rule triple_mono[OF triple_returns[OF vrt_dirnext_walks[OF assms(1) o, where N = N]]])
       (use assms(2) walks_trans[OF assms(4)] in auto)
qed

lemma send_nlst_turn:
  assumes L: "laws E" "b \<longrightarrow> finite_world E N \<and> entries_fit E" and w: "open_dir it s" "walks it s s1"
    and rec: "\<And>fname st s2. walks it s s2 \<Longrightarrow> b \<longrightarrow> left_in N it s2 < left_in N it s1 \<Longrightarrow>
      triple b (rec E k it fname st s2) (\<lambda>_. walks it s)"
  shows "triple b (do {
     ((r, filename, st), s) \<leftarrow> vrt_dirnext E it fname st s1;
     if r \<noteq> 0 then Some (0, s) else do {
       line \<leftarrow> sprintf (MAXPATHLEN E + 2) (filename @ CRLF);
       (result, s) \<leftarrow> send_exact E k line s;
       if result < 0 then Some (result, s) else rec E k it line st s
     }
   }) (\<lambda>_. walks it s)"
proof -
  have send: "triple b (do {
       line \<leftarrow> sprintf (MAXPATHLEN E + 2) (name @ CRLF);
       (result, s) \<leftarrow> send_exact E k line s2;
       if result < 0 then Some (result, s) else rec E k it line st' s
     }) (\<lambda>_. walks it s)"
    if "walks it s s2" "b \<longrightarrow> entry_fits E name st' \<and> left_in N it s2 < left_in N it s1" for name st' s2
    using that L(1)
    by (auto simp: sprintf_bind entry_fits_def CRLF_def laws_write intro!: triple_mono[OF triple_returns[OF send_walks[where N = N]]] rec)
  show ?thesis
    apply (subst triple_bind, rule triple_mono[OF next_entry[OF L w]])
    subgoal for v s2
      by (cases v rule: prod_cases3, simp only: prod.case, elim conjE, rule triple_ifI, simp, rule send, assumption, blast)
    done
qed

lemma send_list_turn:
  assumes L: "laws E" "b \<longrightarrow> finite_world E N \<and> entries_fit E" and w: "open_dir it s" "walks it s s1"
    and rec: "\<And>fname st s2. walks it s s2 \<Longrightarrow> b \<longrightarrow> left_in N it s2 < left_in N it s1 \<Longrightarrow>
      triple b (rec E k it fname st s2) (\<lambda>_. walks it s)"
  shows "triple b (do {
     ((r, filename, st), s) \<leftarrow> vrt_dirnext E it fname st s1;
     if r \<noteq> 0 then Some (0, s) else do {
       filename \<leftarrow> sprintf (MAXPATHLEN E) filename;
       (timestamp, s) \<leftarrow> format_time E (st_mtime st) s;
       line \<leftarrow> sprintf (MAXPATHLEN E + 59) (list_line st timestamp filename);
       (result, s) \<leftarrow> send_exact E k line s;
       if result < 0 then Some (result, s) else rec E k it filename st s
     }
   }) (\<lambda>_. walks it s)"
proof -
  have send: "triple b (do {
       line \<leftarrow> sprintf (MAXPATHLEN E + 59) (list_line st' timestamp name);
       (result, s) \<leftarrow> send_exact E k line s2;
       if result < 0 then Some (result, s) else rec E k it name st' s
     }) (\<lambda>_. walks it s)"
    if "walks it s s2" "b \<longrightarrow> entry_fits E name st' \<and> left_in N it s2 < left_in N it s1" "length timestamp \<le> 12"
    for name st' s2 timestamp
    using that L(1)
    by (auto simp: sprintf_bind laws_write intro!: triple_mono[OF triple_returns[OF send_walks[where N = N]]] rec
        dest: entry_line_fits[OF _ that(3)])
  have line: "triple b (do {
       (timestamp, s) \<leftarrow> format_time E (st_mtime st') s2;
       line \<leftarrow> sprintf (MAXPATHLEN E + 59) (list_line st' timestamp name);
       (result, s) \<leftarrow> send_exact E k line s;
       if result < 0 then Some (result, s) else rec E k it name st' s
     }) (\<lambda>_. walks it s)"
    if "walks it s s2" "b \<longrightarrow> entry_fits E name st' \<and> left_in N it s2 < left_in N it s1" for name st' s2
    using that L(2)
    by (subst triple_bind, intro triple_mono[OF format_time_walks[where N = N]]) (auto intro!: send)
  have entry: "triple b (do {
       name \<leftarrow> sprintf (MAXPATHLEN E) name;
       (timestamp, s) \<leftarrow> format_time E (st_mtime st') s2;
       line \<leftarrow> sprintf (MAXPATHLEN E + 59) (list_line st' timestamp name);
       (result, s) \<leftarrow> send_exact E k line s;
       if result < 0 then Some (result, s) else rec E k it name st' s
     }) (\<lambda>_. walks it s)"
    if "walks it s s2" "b \<longrightarrow> entry_fits E name st' \<and> left_in N it s2 < left_in N it s1" for name st' s2
    using line[OF that] that(2) by (simp only: sprintf_bind) (auto simp: entry_fits_def)
  show ?thesis
    apply (subst triple_bind, rule triple_mono[OF next_entry[OF L w]])
    subgoal for v s2
      by (cases v rule: prod_cases3, simp only: prod.case, elim conjE, rule triple_ifI, simp, rule entry, assumption, blast)
    done
qed

lemma send_nlst_loop_walks:
  assumes "laws E" "b \<longrightarrow> finite_world E N \<and> entries_fit E" "open_dir it s" "walks it s s1"
  shows "triple b (send_nlst_loop E k it fname st s1) (\<lambda>_. walks it s)"
proof (cases b)
  case True
  have "triple True (send_nlst_loop E k it fname st s1) (\<lambda>_. walks it s)"
    using assms(4)
  proof (induction "left_in N it s1" arbitrary: fname st s1 rule: less_induct)
    case less
    show ?case
      by (subst send_nlst_loop.simps, rule send_nlst_turn[OF assms(1) _ assms(3) less.prems, where N = N])
         (use assms(2) True less.hyps in auto)
  qed
  then show ?thesis using True by simp
next
  case False
  have "\<forall>E k it fname st s1. laws E \<and> open_dir it s \<and> walks it s s1 \<longrightarrow>
      upon (send_nlst_loop E k it fname st s1) (\<lambda>_. walks it s)"
    by (rule send_nlst_loop.fixp_induct, rule loop_admissible, simp)
       (intro allI impI, elim conjE, unfold triple_False[symmetric], rule send_nlst_turn; simp add: triple_False)
  then show ?thesis using assms False by (simp add: triple_False)
qed

lemma send_list_loop_walks:
  assumes "laws E" "b \<longrightarrow> finite_world E N \<and> entries_fit E" "open_dir it s" "walks it s s1"
  shows "triple b (send_list_loop E k it fname st s1) (\<lambda>_. walks it s)"
proof (cases b)
  case True
  have "triple True (send_list_loop E k it fname st s1) (\<lambda>_. walks it s)"
    using assms(4)
  proof (induction "left_in N it s1" arbitrary: fname st s1 rule: less_induct)
    case less
    show ?case
      by (subst send_list_loop.simps, rule send_list_turn[OF assms(1) _ assms(3) less.prems, where N = N])
         (use assms(2) True less.hyps in auto)
  qed
  then show ?thesis using True by simp
next
  case False
  have "\<forall>E k it fname st s1. laws E \<and> open_dir it s \<and> walks it s s1 \<longrightarrow>
      upon (send_list_loop E k it fname st s1) (\<lambda>_. walks it s)"
    by (rule send_list_loop.fixp_induct, rule loop_admissible, simp)
       (intro allI impI, elim conjE, unfold triple_False[symmetric], rule send_list_turn; simp add: triple_False)
  then show ?thesis using assms False by (simp add: triple_False)
qed

text \<open>Uploads, without a law on the peer.\<close>

lemma ext_upon_frame: "upon (ext E c s) (\<lambda>_ s'. neutral c \<longrightarrow> frame neutral s s')"
  by (auto simp: upon_ext Let_def frame_def)

lemma quiet_step: "net_frame neutral s s1 \<Longrightarrow> upon (ext E c s1) (\<lambda>_ s'. neutral c \<longrightarrow> net_frame neutral s s')"
  by (rule upon_mono[OF ext_upon_frame]) (auto intro: net_frame_step)

lemma quiet_step_on:
  "net_frame neutral s s1 \<Longrightarrow> upon (ext_on x E c s1) (\<lambda>_ s'. neutral c \<longrightarrow> net_frame neutral s s')"
  by (rule upon_ext_on[OF quiet_step])

lemma net_read_quiet: "net_frame neutral s s1 \<Longrightarrow> upon (net_read E k n s1) (\<lambda>_ s'. net_frame neutral s s')"
  unfolding net_read_def by (auto simp: neutral_def intro!: upon_mono[OF quiet_step])

lemma recv_to_file_quiet:
  "\<forall>E k f s1. net_frame neutral s s1 \<longrightarrow> upon (recv_to_file E k f s1) (\<lambda>_. net_frame neutral s)"
  by (rule recv_to_file.fixp_induct, rule loop_admissible)
     (auto intro!: upon_mono[OF net_read_quiet] upon_mono[OF quiet_step_on] simp: net_frame_size)

section \<open>A transfer keeps the invariant\<close>

lemma walks_fields:
  "walks it s s' \<Longrightarrow> heap s' = heap s \<and> clients s' = clients s \<and> num_clients s' = num_clients s \<and> password s' = password s"
  by (cases s; cases s') (auto simp: walks_def)

lemma stays_walks:
  assumes "good E a F s" "walks it s s'" "iter_res it \<notin> F"
  shows "stays E a F s s'"
proof -
  have f: "held (trace s') = held (trace s)" "VIRTUAL_PARTITIONS s' = VIRTUAL_PARTITIONS s"
    "dom (viters s') = dom (viters s)" "\<And>x. Mem x \<noteq> iter_res it \<Longrightarrow> viters s' x = viters s x"
    using assms(2) by (auto simp: walks_def)
  have "client_ok E (viters s') c = client_ok E (viters s) c" for c
    using iter_ok_dom[OF f(3)] by (auto simp: client_ok_def data_ok_def split: option.splits data_arg.splits)
  moreover have "Mem x \<in> F \<Longrightarrow> viters s' x = viters s x" for x
    using f(4) assms(3) by metis
  moreover have "extends s s'" using assms(2) by (simp add: walks_def)
  ultimately show ?thesis
    using assms(1) walks_fields[OF assms(2)] f(1,2) same_owned_password[of s' s]
    by (auto simp: stays_def good_def fs_wf_def)
qed

text \<open>In a finite world every peer stops.\<close>

lemma finite_stream: "finite_world E N \<Longrightarrow> stream_ends E k N"
proof -
  have "ret r < 0 \<or> data r = []"
    if "finite_world E N" "answers E h (CNet (Net_read k n)) r" "N \<le> length (received k h)" for h n r
    using finite_worldD[OF that(1,2)] that(3) received_yield[of k h] by (auto split: if_splits)
  then show "finite_world E N \<Longrightarrow> stream_ends E k N" unfolding stream_ends_def by blast
qed

lemma recv_to_file_keeps:
  assumes "read_bounded E" "b \<longrightarrow> finite_world E N" "File f \<in> held (trace s)"
  shows "triple b (recv_to_file E k f s) (\<lambda>_ s'. net_frame neutral s s')"
proof (cases b)
  case True
  then have "stream_ends E k N" using assms(2) finite_stream by blast
  then show ?thesis
    by (intro triple_mono[OF triple_returns[OF recv_to_file_returns[OF assms(1) _ assms(3)]]])
       (auto elim: net_frame_mono intro: relay_io_neutral)
next
  case False
  then show ?thesis using recv_to_file_quiet[rule_format, OF net_frame_refl] by (simp add: triple_False)
qed

lemma run_callback_keeps:
  assumes "laws E" "b \<longrightarrow> finite_world E N \<and> entries_fit E" "good E a F s" "heap s a = Some c"
    "data_callback c = Some f"
  shows "triple b (run_callback E f k (data_connection_callback_arg c) s) (\<lambda>_ s'. stays E a F s s')"
proof -
  have L: "fresh E" "write_bounded E" "read_bounded E" using assms(1) by (auto simp: laws_def devices_ok_def)
  have ok: "data_ok (viters s) c" "set (owned a c s) \<inter> F = {}"
    using assms(3,4) by (auto simp: good_def client_ok_def)
  consider d where "data_connection_callback_arg c = Some (Arg_dir d)" "f = Send_nlst \<or> f = Send_list"
    | j where "data_connection_callback_arg c = Some (Arg_file j)" "f = Send_from_file \<or> f = Recv_to_file"
    using ok(1) assms(5) by (auto simp: data_ok_def split: option.splits data_arg.splits)
  then show ?thesis
  proof cases
    case (1 d)
    then have F: "iter_res d \<notin> F" using ok(2) by (auto simp: owned_def data_res_def)
    have o: "open_dir d s"
      using assms(3,4) ok(1) 1 good_wf[OF assms(3)]
      by (auto simp: open_dir_def good_def owned_def data_res_def data_ok_def)
    have "triple b (send_nlst E k d s) (\<lambda>_ s'. stays E a F s s')" "triple b (send_list E k d s) (\<lambda>_ s'. stays E a F s s')"
      unfolding send_nlst_def send_list_def
      by (rule triple_mono[OF send_nlst_loop_walks[OF assms(1,2) o walks_refl]]
               triple_mono[OF send_list_loop_walks[OF assms(1,2) o walks_refl]],
          erule stays_walks[OF assms(3) _ F])+
    then show ?thesis using 1 by auto
  next
    case (2 j)
    then have f: "File j \<in> held (trace s)"
      using assms(3,4) by (auto simp: good_def owned_def data_res_def)
    have "triple b (send_from_file E k j s) (\<lambda>_ s'. stays E a F s s')"
      by (rule triple_mono[OF triple_returns[OF send_from_file_returns[OF L(2,3) f]]])
         (auto intro: stays_net_frame[OF assms(3)] relay_io_neutral)
    moreover have "triple b (recv_to_file E k j s) (\<lambda>_ s'. stays E a F s s')"
      by (rule triple_mono[OF recv_to_file_keeps[OF L(3) _ f, where N = N]])
         (use assms(2) in \<open>auto intro: stays_net_frame[OF assms(3)]\<close>)
    ultimately show ?thesis using 2 by auto
  qed
qed

end
