(* ===== verification/Invariant.thy ===== *)
theory Invariant
  imports Callbacks Server
begin

text \<open>
  The invariant of the whole server: every slot of \<open>clients\<close> points to a client of its own, there are
  no others, \<open>num_clients\<close> counts them, and no two of them share a resource. Each operation on one
  client keeps it, by the ownership lemmas with the resources of all others as the frame.
\<close>

section \<open>A crowd of clients\<close>

definition belongs :: "int \<Rightarrow> client \<Rightarrow> resource list" where
  "belongs a c = Mem a # socks c @ data_res c"

definition others :: "int set \<Rightarrow> int \<Rightarrow> 'z ftp_st_scheme \<Rightarrow> resource set" where
  "others A a s = (\<Union>b \<in> A - {a}. case heap s b of None \<Rightarrow> {} | Some c \<Rightarrow> set (belongs b c))"

definition base_ok :: "resource set \<Rightarrow> 'z ftp_st_scheme \<Rightarrow> bool" where
  "base_ok S s \<longleftrightarrow> fs_wf s \<and> (\<forall>p q. password s = Some (p, q) \<longrightarrow> p \<noteq> 0) \<and>
     set (pw_res s) \<inter> S = {} \<and> set (pw_res s) \<union> S \<subseteq> held (trace s)"

text \<open>The buffer of a client has no NUL and leaves room for a terminator.\<close>

definition buf_ok :: "client \<Rightarrow> bool" where
  "buf_ok c \<longleftrightarrow> NUL \<notin> set (buf c) \<and> length (buf c) < FTP_BUFFER_SIZE"

definition member_ok :: "env \<Rightarrow> 'z ftp_st_scheme \<Rightarrow> int \<Rightarrow> client \<Rightarrow> bool" where
  "member_ok E s a c \<longleftrightarrow> a \<noteq> 0 \<and> client_ok E (viters s) c \<and> distinct (belongs a c) \<and>
     set (belongs a c) \<inter> set (pw_res s) = {} \<and> set (belongs a c) \<subseteq> held (trace s) \<and> buf_ok c"

definition crowd :: "env \<Rightarrow> resource set \<Rightarrow> int set \<Rightarrow> 'z ftp_st_scheme \<Rightarrow> bool" where
  "crowd E S A s \<longleftrightarrow> base_ok S s \<and> dom (heap s) = A \<and>
     (\<forall>a c. heap s a = Some c \<longrightarrow> member_ok E s a c \<and> set (belongs a c) \<inter> (S \<union> others A a s) = {})"

lemma owned_belongs: "set (owned a c s) = set (belongs a c) \<union> set (pw_res s)"
  "distinct (owned a c s) \<longleftrightarrow> distinct (belongs a c) \<and> set (belongs a c) \<inter> set (pw_res s) = {}"
  by (auto simp: owned_def belongs_def pw_res_def split: option.splits)

lemma crowd_member: "crowd E S A s \<Longrightarrow> heap s b = Some c \<Longrightarrow> member_ok E s b c"
  by (simp add: crowd_def)

lemma others_iff: "x \<in> others A a s \<longleftrightarrow> (\<exists>b c. b \<in> A \<and> b \<noteq> a \<and> heap s b = Some c \<and> x \<in> set (belongs b c))"
  by (force simp: others_def split: option.splits)

lemma others_held: "crowd E S A s \<Longrightarrow> others A a s \<subseteq> held (trace s)"
  using crowd_member unfolding others_iff subset_iff member_ok_def by blast

lemma others_pw: "crowd E S A s \<Longrightarrow> others A a s \<inter> set (pw_res s) = {}"
  using crowd_member unfolding set_eq_iff Int_iff others_iff member_ok_def by blast

text \<open>A member of a crowd is good beside the rest of it.\<close>

lemma crowd_good:
  assumes "crowd E S A s" "a \<in> A"
  shows "good E a (S \<union> others A a s) s"
proof -
  obtain c where c: "heap s a = Some c" using assms by (auto simp: crowd_def)
  have m: "member_ok E s a c" "set (belongs a c) \<inter> (S \<union> others A a s) = {}" "base_ok S s"
    using assms(1) c by (auto simp: crowd_def)
  have b: "fs_wf s" "\<forall>p q. password s = Some (p, q) \<longrightarrow> p \<noteq> 0" "set (pw_res s) \<inter> S = {}" "set (pw_res s) \<union> S \<subseteq> held (trace s)"
    using m(3) by (simp_all add: base_ok_def)
  have mm: "a \<noteq> 0" "client_ok E (viters s) c" "distinct (belongs a c)" "set (belongs a c) \<inter> set (pw_res s) = {}"
    "set (belongs a c) \<subseteq> held (trace s)"
    using m(1) by (simp_all add: member_ok_def)
  let ?F = "S \<union> others A a s"
  have F: "set (pw_res s) \<inter> ?F = {}" "?F \<subseteq> held (trace s)"
    using b(3,4) others_pw[OF assms(1), of a] others_held[OF assms(1), of a] by auto
  have "distinct (owned a c s)" using mm(3,4) by (simp add: owned_belongs)
  moreover have "set (owned a c s) \<inter> ?F = {}" using m(2) F(1) unfolding owned_belongs Int_Un_distrib2 by simp
  moreover have "set (owned a c s) \<union> ?F \<subseteq> held (trace s)" using mm(5) b(4) F(2) unfolding owned_belongs by simp
  ultimately show ?thesis
    unfolding good_def using b(1,2) mm(1,2) c by simp
qed

text \<open>\<open>lives\<close>: like \<open>stays\<close>, but the buffer may change to another good one.\<close>

definition lives :: "env \<Rightarrow> int \<Rightarrow> resource set \<Rightarrow> 'z ftp_st_scheme \<Rightarrow> 'z ftp_st_scheme \<Rightarrow> bool" where
  "lives E a F s s' \<longleftrightarrow> good E a F s' \<and> extends s s' \<and> (\<forall>b. b \<noteq> a \<longrightarrow> heap s' b = heap s b) \<and>
     clients s' = clients s \<and> num_clients s' = num_clients s \<and> (\<forall>x. Mem x \<in> F \<longrightarrow> viters s' x = viters s x) \<and>
     (\<forall>c c'. heap s a = Some c \<longrightarrow> heap s' a = Some c' \<longrightarrow> buf_ok c \<longrightarrow> buf_ok c')"

lemma stays_buf: "stays E a F s s' \<Longrightarrow> heap s a = Some c \<Longrightarrow> heap s' a = Some c' \<Longrightarrow> buf c' = buf c"
  unfolding stays_def by (metis option.inject)

lemma stays_lives:
  assumes "stays E a F s s'"
  shows "lives E a F s s'"
proof -
  have "\<forall>c c'. heap s a = Some c \<longrightarrow> heap s' a = Some c' \<longrightarrow> buf_ok c \<longrightarrow> buf_ok c'"
  proof (intro allI impI)
    fix c c'
    assume "heap s a = Some c" "heap s' a = Some c'" and b: "buf_ok c"
    then have "buf c' = buf c" by (intro stays_buf[OF assms])
    with b show "buf_ok c'" by (simp add: buf_ok_def)
  qed
  with assms show ?thesis
    unfolding stays_def lives_def by - (elim conjE, intro conjI, assumption+)
qed

lemma lives_good: "lives E a F s s' \<Longrightarrow> good E a F s'"
  by (simp add: lives_def)

lemma lives_extends: "lives E a F s s' \<Longrightarrow> extends s s'"
  by (simp add: lives_def)

lemma lives_trans: "lives E a F s s' \<Longrightarrow> lives E a F s' s'' \<Longrightarrow> lives E a F s s''"
  unfolding lives_def using good_client logs_trans by metis

lemma lives_refl: "good E a F s \<Longrightarrow> lives E a F s s"
  by (simp add: lives_def)

lemma others_lives: "\<forall>b. b \<noteq> a \<longrightarrow> heap s' b = heap s b \<Longrightarrow> others A a s' = others A a s"
  by (auto simp: others_def)

lemma belongs_in_others: "b \<in> A \<Longrightarrow> b \<noteq> a \<Longrightarrow> heap s b = Some c \<Longrightarrow> set (belongs b c) \<subseteq> others A a s"
  by (force simp: others_def)

lemma belongs_fake: "data_connection_callback_arg c = Some (Arg_dir (Fake x)) \<Longrightarrow> Mem x \<in> set (belongs b c)"
  by (simp add: belongs_def data_res_def)

lemma member_viters:
  "client_ok E (viters s) c \<Longrightarrow> (\<And>x. Mem x \<in> set (belongs b c) \<Longrightarrow> viters s' x = viters s x) \<Longrightarrow> client_ok E (viters s') c"
  using data_ok_viters[of "viters s" c "viters s'"] belongs_fake[of c _ b] by (auto simp: client_ok_def)

lemma crowd_lives:
  assumes "crowd E S A s" "a \<in> A" "lives E a (S \<union> others A a s) s s'"
  shows "crowd E S A s'"
proof -
  let ?F = "S \<union> others A a s"
  have l: "good E a ?F s'" "\<forall>b. b \<noteq> a \<longrightarrow> heap s' b = heap s b" "\<forall>x. Mem x \<in> ?F \<longrightarrow> viters s' x = viters s x"
    using assms(3) by (auto simp: lives_def)
  obtain c where c: "heap s' a = Some c" "client_ok E (viters s') c" "distinct (owned a c s')"
    "set (owned a c s') \<inter> ?F = {}" "set (owned a c s') \<union> ?F \<subseteq> held (trace s')"
    using l(1) by (auto simp: good_def)
  have dom: "dom (heap s') = A"
    using assms(1,2) l(2) c(1) by (auto simp: crowd_def dom_def)
  have base: "base_ok S s'"
    using l(1) c(4,5) unfolding owned_belongs base_ok_def good_def by blast
  have other: "member_ok E s' b d \<and> set (belongs b d) \<inter> (S \<union> others A b s') = {}"
    if "heap s' b = Some d" "b \<noteq> a" for b d
  proof -
    have b: "heap s b = Some d" "b \<in> A" using that l(2) dom by auto
    have m: "member_ok E s b d" "set (belongs b d) \<inter> (S \<union> others A b s) = {}"
      using assms(1) b(1) by (auto simp: crowd_def)
    have F: "set (belongs b d) \<subseteq> ?F" using belongs_in_others[OF b(2) that(2) b(1)] by blast
    have "others A b s' \<subseteq> others A b s \<union> set (belongs a c)"
      using l(2) c(1) by (force simp: others_def split: if_splits option.splits)
    then have "set (belongs b d) \<inter> (S \<union> others A b s') = {}"
      using m(2) F c(4) unfolding owned_belongs by blast
    moreover have "client_ok E (viters s') d"
      by (rule member_viters[of E s d b]) (use m(1) F l(3) in \<open>auto simp: member_ok_def\<close>)
    ultimately show ?thesis
      using m(1) F c(4,5) unfolding owned_belongs member_ok_def by blast
  qed
  have "buf_ok c"
    using assms(1-3) c(1) by (auto simp: lives_def crowd_def member_ok_def)
  then have me: "member_ok E s' a c \<and> set (belongs a c) \<inter> (S \<union> others A a s') = {}"
    using c l(1) unfolding others_lives[OF l(2)] owned_belongs member_ok_def good_def by blast
  show ?thesis
    unfolding crowd_def using base dom other me c(1) by (metis option.inject)
qed

text \<open>A change of one member's record, possibly with a resource that was just obtained.\<close>

lemma change_lives:
  assumes "good E a F s" "heap s a = Some c" "upper s' = upper (s\<lparr>heap := (heap s)(a \<mapsto> c')\<rparr>)"
    "VIRTUAL_PARTITIONS s' = VIRTUAL_PARTITIONS s" "client_ok E (viters s) c'" "distinct (belongs a c')"
    "set (belongs a c') \<subseteq> set (belongs a c) \<union> X" "X \<inter> held (trace s) = {}" "held (trace s) \<union> X \<subseteq> held (trace s')"
    "buf_ok c \<longrightarrow> buf_ok c'" "extends s s'"
  shows "lives E a F s s'"
proof -
  have f: "heap s' = (heap s)(a \<mapsto> c')" "viters s' = viters s" "clients s' = clients s" "num_clients s' = num_clients s"
    "password s' = password s" using assms(3) by (simp_all add: upper_def)
  have pw: "pw_res s' = pw_res s" by (simp add: pw_res_def f)
  have g: "set (belongs a c) \<inter> set (pw_res s) = {}" "(set (belongs a c) \<union> set (pw_res s)) \<inter> F = {}"
    "set (belongs a c) \<union> set (pw_res s) \<union> F \<subseteq> held (trace s)"
    using assms(1,2) unfolding good_def owned_belongs by auto
  have "distinct (owned a c' s')" "set (owned a c' s') \<inter> F = {}" "set (owned a c' s') \<union> F \<subseteq> held (trace s')"
    using g assms(6-9) unfolding owned_belongs pw by blast+
  then have "good E a F s'"
    using assms(1,4,5) f unfolding good_def fs_wf_def by auto
  then show ?thesis using f assms(2,10,11) by (simp add: lives_def)
qed

section \<open>Members come and go\<close>

lemma crowd_frame:
  assumes "crowd E S A s" "upper s' = upper s" "map fixed_part (VIRTUAL_PARTITIONS s') = map fixed_part (VIRTUAL_PARTITIONS s)"
    "held (trace s) \<subseteq> held (trace s')"
  shows "crowd E S A s'"
proof -
  have f: "heap s' = heap s" "viters s' = viters s" "password s' = password s" "pw_res s' = pw_res s"
    using assms(2) by (auto simp: upper_def pw_res_def)
  have "others A a s' = others A a s" for a by (simp add: others_def f)
  then show ?thesis
    using assms(1,3,4) unfolding crowd_def base_ok_def member_ok_def fs_wf_def f by (metis subset_trans)
qed

lemma crowd_remove:
  assumes "crowd E S A s" "heap s a = Some c" "heap s' = (heap s)(a := None)" "lower s' = lower (s\<lparr>clients := clients s', num_clients := num_clients s'\<rparr>)"
    "viters s' = viters_without (data_connection_callback_arg c) (viters s)" "held (trace s') = held (trace s) - set (belongs a c)"
  shows "crowd E S (A - {a}) s'"
proof -
  have f: "password s' = password s" "VIRTUAL_PARTITIONS s' = VIRTUAL_PARTITIONS s" "pw_res s' = pw_res s"
    using assms(4) by (auto simp: lower_def pw_res_def)
  have m: "member_ok E s a c" "set (belongs a c) \<inter> (S \<union> others A a s) = {}" "base_ok S s" "dom (heap s) = A"
    using assms(1,2) by (auto simp: crowd_def)
  have base: "base_ok S s'"
    using m(1-3) f assms(6) by (auto simp: base_ok_def member_ok_def fs_wf_def)
  have other: "member_ok E s' b d \<and> set (belongs b d) \<inter> (S \<union> others (A - {a}) b s') = {}" if "heap s' b = Some d" for b d
  proof -
    have b: "heap s b = Some d" "b \<noteq> a" "b \<in> A" using that assms(3) m(4) by (auto split: if_splits)
    have md: "member_ok E s b d" "set (belongs b d) \<inter> (S \<union> others A b s) = {}"
      using assms(1) b(1) by (auto simp: crowd_def)
    have sep: "set (belongs b d) \<inter> set (belongs a c) = {}" using belongs_in_others[OF b(3,2,1)] m(2) by blast
    have "others (A - {a}) b s' \<subseteq> others A b s"
      unfolding subset_iff others_iff assms(3) by (metis Diff_iff fun_upd_apply option.distinct(1))
    then have "set (belongs b d) \<inter> (S \<union> others (A - {a}) b s') = {}" using md(2) by blast
    moreover have "client_ok E (viters s') d"
      by (rule member_viters[of E s d b])
        (use md(1) sep assms(5) in \<open>auto simp: member_ok_def viters_without_def belongs_def data_res_def split: option.splits data_arg.splits dir_iter.splits\<close>)
    ultimately show ?thesis
      using md(1) sep assms(6) f(3) unfolding member_ok_def by auto
  qed
  show ?thesis
    unfolding crowd_def using base other assms(3) m(4) by auto
qed

lemma crowd_add:
  assumes "crowd E S A s" "a \<notin> A" "a \<noteq> 0" "0 \<le> k" "client_ok E (viters s) (new_client k ad)"
    and "upper s' = upper (s\<lparr>heap := (heap s)(a \<mapsto> new_client k ad)\<rparr>)" "VIRTUAL_PARTITIONS s' = VIRTUAL_PARTITIONS s"
    "Mem a \<notin> held (trace s)" "Sock k \<notin> held (trace s)" "held (trace s') = insert (Mem a) (insert (Sock k) (held (trace s)))"
  shows "crowd E S (insert a A) s'"
proof -
  have f: "heap s' = (heap s)(a \<mapsto> new_client k ad)" "viters s' = viters s" "password s' = password s"
    using assms(6) by (simp_all add: upper_def)
  have pw: "pw_res s' = pw_res s" by (simp add: pw_res_def f)
  have new: "set (belongs a (new_client k ad)) = {Mem a, Sock k}" "distinct (belongs a (new_client k ad))"
    "buf_ok (new_client k ad)"
    by (auto simp: buf_ok_def FTP_BUFFER_SIZE_def belongs_def socks_def data_res_def new_client_def)
  have b: "base_ok S s" "dom (heap s) = A" using assms(1) by (auto simp: crowd_def)
  have oth: "others A x s \<subseteq> held (trace s)" for x by (rule others_held[OF assms(1)])
  have o2: "others (insert a A) x s' \<subseteq> others A x s \<union> {Mem a, Sock k}" for x
    using new(1) unfolding subset_iff others_iff f(1) Un_iff by (metis fun_upd_apply insert_iff option.inject)
  have o3: "others (insert a A) a s' = others A a s"
    unfolding set_eq_iff others_iff f(1) by (metis fun_upd_apply insert_iff)
  have S: "S \<subseteq> held (trace s)" "set (pw_res s) \<subseteq> held (trace s)" using b(1) by (auto simp: base_ok_def)
  have old: "member_ok E s' x c \<and> set (belongs x c) \<inter> (S \<union> others (insert a A) x s') = {}"
    if "heap s x = Some c" for x c
  proof -
    have m: "member_ok E s x c" "set (belongs x c) \<inter> (S \<union> others A x s) = {}"
      using assms(1) that by (auto simp: crowd_def)
    then have h: "set (belongs x c) \<subseteq> held (trace s)" by (simp add: member_ok_def)
    have "set (belongs x c) \<inter> (S \<union> others (insert a A) x s') = {}"
      using m(2) h o2[of x] assms(8,9) by blast
    then show ?thesis using m(1) assms(10) f(2) pw by (auto simp: member_ok_def)
  qed
  have fresh: "member_ok E s' a (new_client k ad) \<and> set (belongs a (new_client k ad)) \<inter> (S \<union> others (insert a A) a s') = {}"
    using assms(3,5,8-10) new f(2) pw S oth[of a] unfolding member_ok_def o3 by auto
  have "base_ok S s'" using b(1) assms(7,10) f(3) pw by (auto simp: base_ok_def fs_wf_def)
  then show ?thesis
    unfolding crowd_def using b(2) f(1) old fresh by (auto split: if_splits)
qed

end
