(* ===== verification/Serving.thy ===== *)
theory Serving
  imports Invariant
begin

text \<open>
  The server keeps its invariant: releasing and accepting clients, the events of their data and
  control connections, and a whole turn of \<open>process_ftp_events\<close>; in a lasting world each of them returns.
\<close>

section \<open>The table of clients\<close>

definition active :: "'z ftp_st_scheme \<Rightarrow> int list" where
  "active s = filter (\<lambda>p. p \<noteq> 0) (clients s)"

definition table_ok :: "'z ftp_st_scheme \<Rightarrow> bool" where
  "table_ok s \<longleftrightarrow> length (clients s) = MAX_CLIENTS \<and> distinct (active s) \<and> num_clients s = of_nat (length (active s))"

definition server_ok :: "env \<Rightarrow> resource set \<Rightarrow> 'z ftp_st_scheme \<Rightarrow> bool" where
  "server_ok E S s \<longleftrightarrow> crowd E S (set (active s)) s \<and> table_ok s"

definition rest_of :: "resource set \<Rightarrow> int \<Rightarrow> 'z ftp_st_scheme \<Rightarrow> resource set" where
  "rest_of S a s = S \<union> others (set (active s)) a s"

lemma active_bound: "table_ok s \<Longrightarrow> length (active s) \<le> MAX_CLIENTS"
  unfolding table_ok_def active_def by (metis length_filter_le)

lemma server_good: "server_ok E S s \<Longrightarrow> a \<in> set (active s) \<Longrightarrow> good E a (rest_of S a s) s"
  unfolding server_ok_def rest_of_def by (blast intro: crowd_good)

lemma server_lives:
  assumes "server_ok E S s" "a \<in> set (active s)" "lives E a (rest_of S a s) s s'"
  shows "server_ok E S s' \<and> a \<in> set (active s') \<and> rest_of S a s' = rest_of S a s"
proof -
  have c: "clients s' = clients s" "num_clients s' = num_clients s" "\<forall>b. b \<noteq> a \<longrightarrow> heap s' b = heap s b"
    using assms(3) by (auto simp: lives_def)
  then have "active s' = active s" by (simp add: active_def)
  moreover have "crowd E S (set (active s)) s'"
    using assms unfolding server_ok_def rest_of_def by (blast intro: crowd_lives)
  ultimately show ?thesis
    using assms(1,2) c others_lives[OF c(3)] by (simp add: server_ok_def table_ok_def rest_of_def)
qed

lemma server_heap: "server_ok E S s \<Longrightarrow> a \<in> set (active s) \<longleftrightarrow> (\<exists>c. heap s a = Some c)"
  by (auto simp: server_ok_def crowd_def dom_def set_eq_iff)

lemma clear_slot_length [simp]: "length (clear_slot ps a) = length ps"
  by (induction ps) simp_all

lemma clear_slot_active:
  "a \<noteq> 0 \<Longrightarrow> filter (\<lambda>p. p \<noteq> 0) (clear_slot ps a) = remove1 a (filter (\<lambda>p. p \<noteq> 0) ps)"
  by (induction ps) auto

lemma fill_slot_length [simp]: "length (fill_slot ps a) = length ps"
  by (induction ps) simp_all

lemma fill_slot_active:
  assumes "0 \<in> set ps" "a \<noteq> 0"
  shows "set (filter (\<lambda>p. p \<noteq> 0) (fill_slot ps a)) = insert a (set (filter (\<lambda>p. p \<noteq> 0) ps))"
    "length (filter (\<lambda>p. p \<noteq> 0) (fill_slot ps a)) = Suc (length (filter (\<lambda>p. p \<noteq> 0) ps))"
    "a \<notin> set ps \<Longrightarrow> distinct (filter (\<lambda>p. p \<noteq> 0) ps) \<Longrightarrow> distinct (filter (\<lambda>p. p \<noteq> 0) (fill_slot ps a))"
proof -
  have sets: "0 \<in> set ps \<Longrightarrow> set (filter (\<lambda>p. p \<noteq> 0) (fill_slot ps a)) = insert a (set (filter (\<lambda>p. p \<noteq> 0) ps))" for ps
    using assms(2) by (induction ps) auto
  show "set (filter (\<lambda>p. p \<noteq> 0) (fill_slot ps a)) = insert a (set (filter (\<lambda>p. p \<noteq> 0) ps))"
    using sets[OF assms(1)] .
  show "length (filter (\<lambda>p. p \<noteq> 0) (fill_slot ps a)) = Suc (length (filter (\<lambda>p. p \<noteq> 0) ps))"
    using assms by (induction ps) auto
  show "a \<notin> set ps \<Longrightarrow> distinct (filter (\<lambda>p. p \<noteq> 0) ps) \<Longrightarrow> distinct (filter (\<lambda>p. p \<noteq> 0) (fill_slot ps a))"
    using assms
  proof (induction ps)
    case (Cons p ps)
    then show ?case using sets[of ps] by (cases "p = 0") auto
  qed simp
qed

section \<open>Releasing a client\<close>

lemma close_passive_returns:
  assumes "heap s a = Some c"
  shows "returns (close_passive_socket E a s) (\<lambda>_ s'. lower s' = lower s \<and> viters s' = viters s \<and>
    (\<exists>k. heap s' = (heap s)(a \<mapsto> c\<lparr>passive_socket := k\<rparr>)) \<and>
    held (trace s') = held (trace s) - (if passive_socket c \<ge> 0 then {Sock (passive_socket c)} else {}))"
proof -
  have same: "heap s1 = heap s \<and> lower s1 = lower s \<and> viters s1 = viters s" if "base.more s1 = base.more s" for s1
    using base_more_lower[OF that] by simp
  show ?thesis
    unfolding close_passive_socket_def deref_def assms option.case
    apply (simp only: returns_bind prod.case returns_simps)
    apply (rule returns_ifI)
     apply (simp only: returns_bind prod.case)
     apply (rule returns_mono[OF net_close_blocking_returns], elim conjE, drule same, elim conjE)
     apply (force simp: modify_def assms lower_def)
    apply (auto simp: assms intro!: exI[of _ "passive_socket c"])
    done
qed

lemma release_client_returns:
  assumes "heap s a = Some c" "a \<noteq> 0" "Mem a \<in> held (trace s)"
  shows "returns (release_client E a s) (\<lambda>_ s'. extends s s' \<and> lower s' = lower s \<and> viters s' = viters s \<and>
    heap s' = (heap s)(a := None) \<and> held (trace s') = held (trace s) - {Mem a})"
proof -
  have same: "extends s s1 \<and> heap s1 = heap s \<and> lower s1 = lower s \<and> viters s1 = viters s" if "frame mem_only s s1" for s1
    using base_more_lower[OF frame_more[OF that]] frame_extends[OF that] by simp
  show ?thesis
    unfolding release_client_def assms(1) option.case
    apply (simp only: returns_bind prod.case returns_simps)
    apply (rule returns_mono[OF free_returns], simp add: assms(3), elim conjE, drule same, elim conjE)
    apply (simp add: assms(2) lower_def)
    done
qed

text \<open>What releasing a client relies on: it holds all that is the client's.\<close>

definition releasable :: "int \<Rightarrow> client \<Rightarrow> 'z ftp_st_scheme \<Rightarrow> bool" where
  "releasable a c s \<longleftrightarrow> heap s a = Some c \<and> data_ok (viters s) c \<and> a \<noteq> 0 \<and>
     distinct (belongs a c) \<and> set (belongs a c) \<subseteq> held (trace s)"

lemma server_releasable: "server_ok E S s \<Longrightarrow> heap s a = Some c \<Longrightarrow> releasable a c s"
  using crowd_member[of E S _ s a c] by (auto simp: server_ok_def releasable_def member_ok_def client_ok_def)

lemma releasable_buf: "releasable a c s \<Longrightarrow> releasable a (c\<lparr>buf := b\<rparr>) (s\<lparr>heap := (heap s)(a \<mapsto> c\<lparr>buf := b\<rparr>)\<rparr>)"
proof -
  assume "releasable a c s"
  moreover have "belongs a (c\<lparr>buf := b\<rparr>) = belongs a c" by (simp add: belongs_def socks_def data_res_def)
  moreover have "data_ok v (c\<lparr>buf := b\<rparr>) = data_ok v c" for v
    by (simp add: data_ok_def split: option.split data_arg.split)
  ultimately show ?thesis by (simp only: releasable_def) simp
qed

lemma cleanup_client_releases:
  assumes "releasable a c s"
  shows "returns (cleanup_client E a s) (\<lambda>_ s'. heap s' = (heap s)(a := None) \<and>
    clients s' = clear_slot (clients s) a \<and> num_clients s' = num_clients s - 1 \<and>
    password s' = password s \<and> VIRTUAL_PARTITIONS s' = VIRTUAL_PARTITIONS s \<and>
    viters s' = viters_without (data_connection_callback_arg c) (viters s) \<and>
    held (trace s') = held (trace s) - set (belongs a c))"
proof -
  have c: "heap s a = Some c" "data_ok (viters s) c" "a \<noteq> 0" "distinct (belongs a c)"
    "set (belongs a c) \<subseteq> held (trace s)"
    using assms by (simp_all add: releasable_def)
  have sock: "heap s1 = heap s \<and> lower s1 = lower s \<and> viters s1 = viters s" if "base.more s1 = base.more s" for s1
    using base_more_lower[OF that] by simp
  have data: "set (data_res c) \<subseteq> held (trace s1)" if "held (trace s1) = held (trace s) - {Sock (socket c)}" for s1 :: "'a ftp_st_scheme"
    using that c(4,5) by (auto simp: belongs_def socks_def)
  have all: "set (belongs a c) = {Mem a, Sock (socket c)} \<union> set (data_sock c @ data_res c) \<union>
      (if passive_socket c \<ge> 0 then {Sock (passive_socket c)} else {})"
    by (auto simp: belongs_def socks_def data_sock_def)
  show ?thesis
    unfolding cleanup_client_def deref_def c(1) option.case Let_def
    apply (simp only: returns_bind prod.case returns_simps)
    apply (rule returns_mono[OF net_close_blocking_returns], elim conjE, drule sock, elim conjE)
    apply (rule returns_mono[OF cleanup_data_returns[where c = c]], simp add: c(1), simp add: c(2), rule data, assumption)
    apply (rule returns_mono[OF close_passive_returns[where c = "cleared c"]], simp add: data_released_def, elim conjE)
    apply (elim exE)
    subgoal for _ s1 _ s2 _ s3 k
      apply (rule returns_mono[OF release_client_returns[where c = "cleared c\<lparr>passive_socket := k\<rparr>"]])
         apply simp
        apply (rule c(3))
      subgoal using c(4,5) unfolding data_released_def by (auto simp: belongs_def socks_def data_sock_def)
      apply (elim conjE)
      subgoal premises p for _ s4
      proof -
        have "heap s4 = (heap s)(a := None)" using p by (simp add: data_released_def)
        moreover have "held (trace s4) = held (trace s) - set (belongs a c)"
          using p unfolding data_released_def all by auto
        ultimately show ?thesis using p by (simp add: data_released_def lower_def)
      qed
      done
    done
qed

lemma removed_server:
  assumes "server_ok E S s" "heap s a = Some c"
    and s': "heap s' = (heap s)(a := None)" "clients s' = clear_slot (clients s) a" "num_clients s' = num_clients s - 1"
      "password s' = password s" "VIRTUAL_PARTITIONS s' = VIRTUAL_PARTITIONS s"
      "viters s' = viters_without (data_connection_callback_arg c) (viters s)"
      "held (trace s') = held (trace s) - set (belongs a c)"
  shows "server_ok E S s'"
proof -
  have m: "member_ok E s a c" "crowd E S (set (active s)) s" "table_ok s" "a \<in> set (active s)"
    using assms(1,2) crowd_member server_heap[OF assms(1)] by (auto simp: server_ok_def)
  have a: "a \<noteq> 0" using m(1) by (auto simp: member_ok_def)
  have act: "active s' = remove1 a (active s)"
    using s'(2) clear_slot_active[OF a] by (simp add: active_def)
  have "crowd E S (set (active s) - {a}) s'"
    using s' by (intro crowd_remove[OF m(2) assms(2)]) (simp_all add: lower_def)
  moreover have "set (active s') = set (active s) - {a}" "distinct (active s')"
    using m(3) act by (auto simp: table_ok_def)
  moreover have "num_clients s' = of_nat (length (active s'))"
  proof -
    obtain n where "length (active s) = Suc n" using length_pos_if_in_set[OF m(4)] by (cases "length (active s)") auto
    then show ?thesis using m(3,4) s'(3) act by (simp add: table_ok_def length_remove1)
  qed
  ultimately show ?thesis
    using m(3) s'(2) by (simp add: server_ok_def table_ok_def)
qed

lemma cleanup_client_server:
  assumes "server_ok E S s" "a \<in> set (active s)"
  shows "returns (cleanup_client E a s) (\<lambda>_ s'. server_ok E S s')"
proof -
  obtain c where c: "heap s a = Some c" using assms server_heap by blast
  show ?thesis
    by (rule returns_mono[OF cleanup_client_releases[OF server_releasable[OF assms(1) c]]])
       (auto intro: removed_server[OF assms(1) c])
qed

text \<open>The same when the buffer of the client has become unusable.\<close>

lemma cleanup_buffer_server:
  assumes "server_ok E S s" "a \<in> set (active s)"
  shows "returns (modify a (\<lambda>c. c\<lparr>buf := f c\<rparr>) s) (\<lambda>_ s1. returns (cleanup_client E a s1) (\<lambda>_ s'. server_ok E S s'))"
proof -
  obtain c where c: "heap s a = Some c" using assms server_heap by blast
  let ?c = "c\<lparr>buf := f c\<rparr>" and ?s = "s\<lparr>heap := (heap s)(a \<mapsto> c\<lparr>buf := f c\<rparr>)\<rparr>"
  have same: "belongs a ?c = belongs a c" by (simp add: belongs_def socks_def data_res_def)
  have "returns (cleanup_client E a ?s) (\<lambda>_ s'. server_ok E S s')"
    by (rule returns_mono[OF cleanup_client_releases[OF releasable_buf[OF server_releasable[OF assms(1) c]]]],
        rule removed_server[OF assms(1) c])
       (auto simp: same)
  then show ?thesis by (simp add: modify_def c)
qed

lemma server_frame:
  assumes "server_ok E S s" "upper s' = upper s" "map fixed_part (VIRTUAL_PARTITIONS s') = map fixed_part (VIRTUAL_PARTITIONS s)"
    "held (trace s) \<subseteq> held (trace s')"
  shows "server_ok E S s'"
proof -
  have "clients s' = clients s" "num_clients s' = num_clients s" using assms(2) by (auto simp: upper_def)
  then show ?thesis
    using assms(1) crowd_frame[OF _ assms(2-4)] by (simp add: server_ok_def table_ok_def active_def)
qed

lemma server_base:
  "server_ok E S s \<Longrightarrow> base.more s' = base.more s \<Longrightarrow> held (trace s) \<subseteq> held (trace s') \<Longrightarrow> server_ok E S s'"
  by (drule base_more_upper, elim conjE, erule server_frame) simp_all

lemma server_ext: "server_ok E S s \<Longrightarrow> neutral c \<Longrightarrow> returns (ext E c s) (\<lambda>r s'. server_ok E S s')"
  by (rule returns_mono[OF ext_neutral[where C = "\<lambda>_. True"]], assumption, rule TrueI, elim conjE)
     (rule server_base, assumption, erule frame_more, simp)

section \<open>Accepting clients\<close>

lemma new_client_ok: "laws E \<Longrightarrow> 0 \<le> k \<Longrightarrow> client_ok E v (new_client k ad)"
  using laws_path[of E] by (simp add: client_ok_def new_client_def data_ok_def)

text \<open>The state after \<open>malloc\<close>, with a socket and a block that nobody owns yet.\<close>

lemma greet_client_server:
  assumes "laws E" "server_ok E S s" "base.more s1 = base.more s" "num_clients s \<noteq> of_nat MAX_CLIENTS"
    "a \<noteq> 0" "0 \<le> k" "Mem a \<notin> held (trace s)" "Sock k \<notin> held (trace s)"
    "held (trace s1) = insert (Mem a) (insert (Sock k) (held (trace s)))"
  shows "returns (greet_client E a k ad s1) (\<lambda>_ s'. server_ok E S s' \<and> extends s1 s')"
proof -
  let ?A = "set (active s)" and ?s = "s1\<lparr>heap := (heap s1)(a := Some (new_client k ad))\<rparr>"
  have cr: "crowd E S ?A s" "table_ok s" using assms(2) by (auto simp: server_ok_def)
  have up: "upper s1 = upper s" "VIRTUAL_PARTITIONS s1 = VIRTUAL_PARTITIONS s" using base_more_upper[OF assms(3)] by auto
  then have f: "heap s1 = heap s" "clients s1 = clients s" "num_clients s1 = num_clients s" by (auto simp: upper_def)
  have a: "a \<notin> ?A"
  proof
    assume "a \<in> ?A"
    then obtain c where "heap s a = Some c" using server_heap[OF assms(2)] by blast
    from crowd_member[OF cr(1) this] show False using assms(7) by (simp add: member_ok_def belongs_def)
  qed
  have crowd: "crowd E S (insert a ?A) ?s"
    using up f assms by (intro crowd_add[OF cr(1) a assms(5,6) new_client_ok[OF assms(1,6)]]) (simp_all add: upper_def)
  have g: "good E a (S \<union> others (insert a ?A) a ?s) ?s" by (rule crowd_good[OF crowd]) simp
  have room: "0 \<in> set (clients s)"
  proof (rule ccontr)
    assume "0 \<notin> set (clients s)"
    then have "active s = clients s" by (auto simp: active_def intro!: filter_True)
    then show False using assms(4) cr(2) by (simp add: table_ok_def)
  qed
  have fail: "returns (release_client E a s3) (\<lambda>_ s'. server_ok E S s' \<and> extends s1 s')"
    if st: "stays E a (S \<union> others (insert a ?A) a ?s) ?s s2" "upper s2 = upper ?s" "VIRTUAL_PARTITIONS s2 = VIRTUAL_PARTITIONS ?s"
      "held (trace s2) = held (trace ?s)" and s3: "base.more s3 = base.more s2" "extends s2 s3" "held (trace s3) = held (trace s2) - {Sock k}" for s2 s3
  proof -
    have u3: "upper s3 = upper ?s" "VIRTUAL_PARTITIONS s3 = VIRTUAL_PARTITIONS s"
      using base_more_upper[OF s3(1)] st(2,3) up(2) by auto
    have h: "heap s3 a = Some (new_client k ad)" using u3(1) by (simp add: upper_def)
    have "server_ok E S s'"
      if "lower s' = lower s3" "viters s' = viters s3" "heap s' = (heap s3)(a := None)" "held (trace s') = held (trace s3) - {Mem a}" for s'
    proof (rule server_frame[OF assms(2)])
      have "heap s a = None" using a server_heap[OF assms(2), of a] by (cases "heap s a") auto
      then show "upper s' = upper s"
        using that u3 up f by (auto simp: upper_def lower_def fun_eq_iff)
      show "map fixed_part (VIRTUAL_PARTITIONS s') = map fixed_part (VIRTUAL_PARTITIONS s)"
        using that(1) u3(2) by (simp add: lower_def)
      show "held (trace s) \<subseteq> held (trace s')"
        using that(4) s3(3) st(4) assms(7,8,9) by auto
    qed
    moreover have "extends s1 s3" using st(1) s3(2) logs_trans[of _ s1 s2 s3] by (simp add: stays_def)
    then have "extends s1 s'" if "extends s3 s'" for s' using that by (rule logs_trans)
    moreover have "Mem a \<in> held (trace s3)" using s3(3) st(4) assms(9) by simp
    ultimately show ?thesis
      by (intro returns_mono[OF release_client_returns[OF h assms(5)]]) blast+
  qed
  have entered: "server_ok E S (s2\<lparr>clients := fill_slot (clients s2) a, num_clients := num_clients s2 + 1\<rparr>) \<and>
      extends s1 (s2\<lparr>clients := fill_slot (clients s2) a, num_clients := num_clients s2 + 1\<rparr>)"
    if "stays E a (S \<union> others (insert a ?A) a ?s) ?s s2" for s2
  proof -
    let ?t = "s2\<lparr>clients := fill_slot (clients s2) a, num_clients := num_clients s2 + 1\<rparr>"
    have cl: "clients s2 = clients s" "num_clients s2 = num_clients s" using that f by (simp_all add: stays_def)
    have "a \<notin> set (clients s)" using a assms(5) by (auto simp: active_def)
    then have act: "set (active ?t) = insert a ?A" "length (active ?t) = Suc (length (active s))" "distinct (active ?t)"
      using fill_slot_active[OF room assms(5)] cr(2) cl by (auto simp: active_def table_ok_def)
    have "crowd E S (insert a ?A) s2" by (rule crowd_lives[OF crowd _ stays_lives[OF that]]) simp
    then have "crowd E S (insert a ?A) ?t"
      by (simp add: crowd_def base_ok_def member_ok_def others_def pw_res_def fs_wf_def)
    then show ?thesis
      using act cl cr(2) that by (simp add: server_ok_def table_ok_def stays_def)
  qed
  show ?thesis
    unfolding greet_client_def Let_def
    apply (simp only: returns_bind prod.case)
    apply (rule returns_mono[OF write_reply_upper[OF assms(1) g]], simp, elim conjE)
    apply (rule returns_ifI)
     apply (simp only: returns_bind prod.case)
     apply (rule returns_mono[OF net_close_blocking_returns], elim conjE)
     apply (rule fail, assumption+)
    apply (simp only: returns_simps)
    apply (rule entered, assumption)
    done
qed

lemma accept_step:
  assumes "fresh E" "server_ok E S s"
  shows "returns (ext E (CNet (Net_accept server)) s) (\<lambda>r s1. base.more s1 = base.more s \<and> server_ok E S s1 \<and>
    (finite_world E N \<longrightarrow> 0 \<le> ret r \<longrightarrow> remaining N s1 < remaining N s) \<and>
    (0 \<le> ret r \<longrightarrow> Sock (ret r) \<notin> held (trace s) \<and> held (trace s1) = insert (Sock (ret r)) (held (trace s))))"
proof (rule returns_mono[OF ext_law], elim conjE)
  fix r s1
  assume more: "base.more s1 = base.more s" and tr: "trace s1 = trace s @ [(CNet (Net_accept server), r)]"
    and ans: "answers E (trace s) (CNet (Net_accept server)) r"
  have "held (trace s) \<subseteq> held (trace s1)" using tr by auto
  moreover have "remaining N s1 < remaining N s" if "finite_world E N" "0 \<le> ret r"
    using remaining_less[OF that(1) ans tr] that(2) by simp
  ultimately show "base.more s1 = base.more s \<and> server_ok E S s1 \<and>
    (finite_world E N \<longrightarrow> 0 \<le> ret r \<longrightarrow> remaining N s1 < remaining N s) \<and>
    (0 \<le> ret r \<longrightarrow> Sock (ret r) \<notin> held (trace s) \<and> held (trace s1) = insert (Sock (ret r)) (held (trace s)))"
    using more server_base[OF assms(2) more] tr freshD[OF assms(1) ans] by auto
qed

text \<open>One turn of the loop, and the loop: it goes on as long as there are connections.\<close>

lemma process_accept_turn:
  assumes L: "laws E" "b \<longrightarrow> finite_world E N" and ok: "server_ok E S s"
    and rec: "\<And>s'. server_ok E S s' \<Longrightarrow> b \<longrightarrow> remaining N s' < remaining N s \<Longrightarrow>
      triple b (rec E server s') (\<lambda>_ s''. server_ok E S s'')"
  shows "triple b (do {
     (r, s) \<leftarrow> ext E (CNet (Net_accept server)) s;
     if ret r = - EAGAIN then Some (True, s)
     else if ret r < 0 then Some (False, s)
     else if num_clients s = of_nat MAX_CLIENTS then do {
       (_, s) \<leftarrow> net_close E (ret r) s; Some (True, s)
     } else do {
       (a, s) \<leftarrow> malloc E (sizeof_client E) s;
       if a = 0 then do { (_, s) \<leftarrow> net_close E (ret r) s; Some (True, s) }
       else do {
         (_, s) \<leftarrow> greet_client E a (ret r) (peer r) s;
         rec E server s
       }
     }
   }) (\<lambda>_ s'. server_ok E S s')"
proof -
  note fr = laws_fresh[OF L(1)]
  have close: "triple b (net_close E k s1) (\<lambda>_ s'. server_ok E S s')"
    if "base.more s1 = base.more s" "Sock k \<notin> held (trace s)" "held (trace s) \<subseteq> held (trace s1)" for k s1
    unfolding net_close_def
    by (simp only: triple_bind prod.case triple_simps)
      (rule triple_mono[OF triple_returns[OF ext_step]], rule server_base[OF ok], use that in auto)
  have new: "triple b (malloc E (sizeof_client E) s1) (\<lambda>a s2. triple b
      (if a = 0 then do { (_, s) \<leftarrow> net_close E k s2; Some (True, s) }
       else do { (_, s) \<leftarrow> greet_client E a k ad s2; rec E server s }) (\<lambda>_ s'. server_ok E S s'))"
    if s1: "base.more s1 = base.more s" "num_clients s1 \<noteq> of_nat MAX_CLIENTS" "0 \<le> k" "Sock k \<notin> held (trace s)"
      "held (trace s1) = insert (Sock k) (held (trace s))" "b \<longrightarrow> remaining N s1 < remaining N s" for k ad s1
  proof (rule triple_mono[OF triple_returns[OF malloc_returns[OF fr]]], elim conjE, rule triple_ifI)
    fix a s2
    assume fm: "frame mem_only s1 s2" and a: "a = 0"
      and h: "if a = 0 then held (trace s2) = held (trace s1)
         else Mem a \<notin> held (trace s1) \<and> held (trace s2) = insert (Mem a) (held (trace s1))"
    have "base.more s2 = base.more s" using frame_more[OF fm] s1(1) by (rule trans)
    then show "triple b (do { (_, s) \<leftarrow> net_close E k s2; Some (True, s) }) (\<lambda>_ s'. server_ok E S s')"
      using h a s1(4,5) by (simp only: triple_bind prod.case triple_simps) (rule close, auto)
  next
    fix a s2
    assume fm: "frame mem_only s1 s2" and a: "a \<noteq> 0"
      and h: "if a = 0 then held (trace s2) = held (trace s1)
         else Mem a \<notin> held (trace s1) \<and> held (trace s2) = insert (Mem a) (held (trace s1))"
    have n: "num_clients s \<noteq> of_nat MAX_CLIENTS" using s1(1,2) base_more_upper[OF s1(1)] by (auto simp: upper_def)
    have "base.more s2 = base.more s" using frame_more[OF fm] s1(1) by (rule trans)
    from greet_client_server[OF L(1) ok this n a s1(3) _ s1(4), of ad]
    have "returns (greet_client E a k ad s2) (\<lambda>_ s'. server_ok E S s' \<and> extends s2 s')" using h a s1(5) by simp
    moreover have "b \<longrightarrow> remaining N s' < remaining N s" if "extends s2 s'" for s'
      using s1(6) extends_remaining[OF frame_extends[OF fm], of N] extends_remaining[OF that, of N] by linarith
    ultimately show "triple b (do { (_, s) \<leftarrow> greet_client E a k ad s2; rec E server s }) (\<lambda>_ s'. server_ok E S s')"
      by (simp only: triple_bind prod.case) (rule triple_mono[OF triple_returns], assumption, elim conjE, rule rec)
  qed
  show ?thesis
    apply (subst triple_bind, rule triple_mono[OF triple_returns[OF accept_step[OF fr ok, where N = N]]], elim conjE)
    apply (subst prod.case)
    apply (intro triple_ifI)
       apply (simp only: triple_simps)
      apply (simp only: triple_simps)
     apply (simp only: triple_bind prod.case triple_simps)
     apply (rule close, assumption, simp, auto)[1]
    apply (subst triple_bind, subst prod.case)
    apply (rule new)
         apply (use L(2) in auto)
    done
qed

lemma process_accept_events_keeps:
  fixes s :: "'z ftp_st_scheme"
  assumes "laws E" "b \<longrightarrow> finite_world E N" "server_ok E S s"
  shows "triple b (process_accept_events E server s) (\<lambda>_ s'. server_ok E S s')"
proof (cases b)
  case True
  have "triple True (process_accept_events E server s) (\<lambda>_ s'. server_ok E S s')"
    using assms(3)
  proof (induction "remaining N s" arbitrary: s rule: less_induct)
    case less
    show ?case
      by (subst process_accept_events.simps, rule process_accept_turn[OF assms(1) _ less.prems, where N = N])
         (use assms(2) True less.hyps in auto)
  qed
  then show ?thesis using True by simp
next
  case False
  have "\<forall>E server (s :: 'z ftp_st_scheme). laws E \<and> server_ok E S s \<longrightarrow> upon (process_accept_events E server s) (\<lambda>_ s'. server_ok E S s')"
    by (rule process_accept_events.fixp_induct, rule loop_admissible, simp)
       (intro allI impI, elim conjE, unfold triple_False[symmetric], rule process_accept_turn; simp add: triple_False)
  then show ?thesis using assms False by (simp add: triple_False)
qed

section \<open>Data connections\<close>

lemma busy_data:
  assumes "data_ok v c" "data_callback c \<noteq> None"
  shows "data_connection_callback_arg c \<noteq> None" "data_ok v (c\<lparr>data_socket := k, data_connection_connected := b\<rparr>)"
    "data_ok v (c\<lparr>data_connection_connected := b\<rparr>)"
  using assms by (auto simp: data_ok_def split: option.splits data_arg.splits)

lemma base_lives:
  assumes "good E a F s" "frame C s s'" "held (trace s) \<subseteq> held (trace s')"
  shows "lives E a F s s'"
  by (rule stays_lives[OF stays_grow]) (use assms in \<open>auto simp: grows_def elim: frame_mono\<close>)

lemma connected_lives:
  assumes "good E a F s" "heap s a = Some c" "data_callback c \<noteq> None" "frame C s s1" "held (trace s) \<subseteq> held (trace s1)"
  shows "returns (modify a (\<lambda>c. c\<lparr>data_connection_connected := True\<rparr>) s1) (\<lambda>_ s'. lives E a F s s')"
proof -
  let ?c = "c\<lparr>data_connection_connected := True\<rparr>"
  have u: "upper s1 = upper s" "VIRTUAL_PARTITIONS s1 = VIRTUAL_PARTITIONS s" "heap s1 = heap s"
    using base_more_upper[OF frame_more[OF assms(4)]] by (auto simp: upper_def)
  have ok: "client_ok E (viters s) c" "distinct (belongs a c)"
    using assms(1,2) unfolding good_def owned_belongs by auto
  have "lives E a F s (s1\<lparr>heap := (heap s)(a \<mapsto> ?c)\<rparr>)"
  proof (rule change_lives[OF assms(1,2), where X = "{}" and c' = ?c])
    show "client_ok E (viters s) ?c" using ok(1) busy_data(3)[of "viters s" c] assms(3) by (simp add: client_ok_def)
    show "distinct (belongs a ?c)" "set (belongs a ?c) \<subseteq> set (belongs a c) \<union> {}"
      using ok(2) by (simp_all add: belongs_def socks_def data_res_def)
  qed (use u assms(5) frame_extends[OF assms(4)] in \<open>simp_all add: upper_def buf_ok_def\<close>)
  then show ?thesis using assms(2) u(3) by (simp add: modify_def)
qed

lemma accepted_lives:
  assumes "good E a F s" "heap s a = Some c" "data_callback c \<noteq> None" "frame C s s1" "0 \<le> k"
    "Sock k \<notin> held (trace s)" "held (trace s1) = insert (Sock k) (held (trace s))"
  shows "returns (modify a (\<lambda>c. c\<lparr>data_socket := k, data_connection_connected := True\<rparr>) s1) (\<lambda>_ s'. lives E a F s s')"
proof -
  let ?c = "c\<lparr>data_socket := k, data_connection_connected := True\<rparr>"
  have u: "upper s1 = upper s" "VIRTUAL_PARTITIONS s1 = VIRTUAL_PARTITIONS s" "heap s1 = heap s"
    using base_more_upper[OF frame_more[OF assms(4)]] by (auto simp: upper_def)
  have ok: "client_ok E (viters s) c" "distinct (belongs a c)" "set (belongs a c) \<subseteq> held (trace s)"
    using assms(1,2) unfolding good_def owned_belongs by auto
  have new: "Sock k \<notin> set (belongs a c)" using ok(3) assms(6) by blast
  have set: "set (belongs a ?c) \<subseteq> insert (Sock k) (set (belongs a c))"
    by (auto simp: belongs_def socks_def data_res_def split: option.splits)
  have "lives E a F s (s1\<lparr>heap := (heap s)(a \<mapsto> ?c)\<rparr>)"
  proof (rule change_lives[OF assms(1,2), where X = "{Sock k}" and c' = ?c])
    show "client_ok E (viters s) ?c" using ok(1) busy_data(2)[of "viters s" c] assms(3) by (simp add: client_ok_def)
    show "distinct (belongs a ?c)"
      using ok(2) new by (auto simp: belongs_def socks_def data_res_def split: option.splits if_splits)
    show "set (belongs a ?c) \<subseteq> set (belongs a c) \<union> {Sock k}" using set by simp
  qed (use u assms(6,7) frame_extends[OF assms(4)] in \<open>simp_all add: upper_def buf_ok_def\<close>)
  then show ?thesis using assms(2) u(3) by (simp add: modify_def)
qed

lemma try_connect_lives:
  assumes "laws E" "good E a F s" "heap s a = Some c" "data_callback c \<noteq> None"
  shows "returns (try_connect E a s) (\<lambda>_ s'. lives E a F s s')"
proof -
  have accept: "frame (\<lambda>_. True) s s1 \<and> (0 \<le> ret r \<longrightarrow> Sock (ret r) \<notin> held (trace s) \<and>
      held (trace s1) = insert (Sock (ret r)) (held (trace s))) \<and> held (trace s) \<subseteq> held (trace s1)"
    if "base.more s1 = base.more s" "trace s1 = trace s @ [(CNet (Net_accept k), r)]" "answers E (trace s) (CNet (Net_accept k)) r"
    for s1 r k
    using that freshD[OF laws_fresh[OF assms(1)] that(3)] frame_call[OF that(1,2) TrueI] by auto
  show ?thesis
    unfolding try_connect_def deref_def assms(3) option.case Let_def
    apply (simp only: returns_bind prod.case returns_simps)
    apply (rule returns_ifI)
     apply (simp only: returns_bind prod.case)
     apply (rule returns_mono[OF ext_law], elim conjE, drule (2) accept, elim conjE)
     apply (rule returns_ifI)
      apply (simp only: returns_bind prod.case returns_simps)
      apply (rule accepted_lives[OF assms(2-4)], assumption, assumption, simp, simp)
     apply (subst returns_simps, rule base_lives[OF assms(2)], assumption, assumption)
    apply (simp only: returns_bind prod.case)
    apply (rule returns_mono[OF ext_neutral[where C = "\<lambda>_. True"]], simp, rule TrueI, elim conjE)
    apply (rule returns_ifI)
     apply (simp only: returns_bind prod.case returns_simps)
     apply (rule connected_lives[OF assms(2-4)], assumption, simp)
    apply (subst returns_simps, rule base_lives[OF assms(2)], assumption, simp)
    done
qed

lemma connect_data_lives:
  assumes "laws E" "good E a F s" "heap s a = Some c" "data_callback c \<noteq> None"
  shows "returns (connect_data E a s) (\<lambda>_ s'. lives E a F s s')"
  unfolding connect_data_def
  apply (simp only: returns_bind prod.case)
  apply (rule returns_mono[OF try_connect_lives[OF assms]])
  apply (rule returns_mono[OF deref_good], erule lives_good, elim conjE, hypsubst)
  apply (rule returns_ifI, simp)
  apply (simp only: returns_bind prod.case returns_simps gettime_def)
  apply (rule returns_mono[OF ext_neutral[where C = "\<lambda>_. True"]], simp, rule TrueI, elim conjE)
  apply (frule lives_good, erule lives_trans, erule base_lives, assumption, simp)
  done

lemma process_data_events_keeps:
  assumes "laws E" "b \<longrightarrow> finite_world E N \<and> entries_fit E" "server_ok E S s" "heap s a = Some c"
    "data_callback c \<noteq> None"
  shows "triple b (process_data_events E a s) (\<lambda>_ s'. server_ok E S s')"
proof -
  let ?F = "rest_of S a s"
  have a: "a \<in> set (active s)" using server_heap[OF assms(3)] assms(4) by blast
  note g = server_good[OF assms(3) a]
  have one: "triple b (if \<not> data_connection_connected c then connect_data E a s
       else (case data_callback c of
           None \<Rightarrow> None
         | Some f \<Rightarrow> run_callback E f (data_socket c) (data_connection_callback_arg c) s)) (\<lambda>_ s'. lives E a ?F s s')"
    using assms(5) by (auto intro!: triple_ifI triple_returns[OF connect_data_lives[OF assms(1) g assms(4,5)]]
        triple_mono[OF run_callback_keeps[OF assms(1,2) g assms(4)]] stays_lives)
  have ok: "server_ok E S s' \<and> a \<in> set (active s')" if "lives E a ?F s s'" for s'
    using server_lives[OF assms(3) a that] by blast
  have reply: "returns (write_reply E a n msg s2) (\<lambda>r s3. returns (if r < 0 then cleanup_client E a s3 else Some ((), s3)) (\<lambda>_ s'. server_ok E S s'))"
    if "lives E a ?F s s2" "is_code n" for n msg s2
    apply (rule returns_mono[OF reply_first(1)[OF assms(1) lives_good[OF that(1)] that(2)]])
    apply (drule stays_lives, drule lives_trans[OF that(1)], drule ok, elim conjE)
    apply (rule returns_ifI, rule cleanup_client_server, assumption+, simp)
    done
  have finish: "returns (do {
       (_, s) \<leftarrow> cleanup_data_resources E a s1;
       (result, s) \<leftarrow> (if result < 0
         then write_reply E a 520 ''Closing data connection, error occurred during transfer.'' s
         else write_reply E a 226 ''Closing data connection, transfer successful.'' s);
       if result < 0 then cleanup_client E a s else Some ((), s)
     }) (\<lambda>_ s'. server_ok E S s')" if "lives E a ?F s s1" for s1 and result :: int
    apply (subst returns_bind, rule returns_mono[OF cleanup_data_good[OF lives_good[OF that]]], elim conjE, subst prod.case)
    apply (drule stays_lives, drule lives_trans[OF that])
    apply (subst returns_bind, subst prod.case)
    apply (rule returns_ifI; rule reply, assumption, simp)
    done
  show ?thesis
    unfolding process_data_events_def
    apply (subst triple_bind)
    apply (simp only: deref_def assms(4) option.case triple_simps prod.case)
    apply (subst triple_bind, rule triple_mono[OF one], subst prod.case)
    apply (rule triple_ifI, erule triple_returns[OF finish], simp add: ok)
    done
qed

section \<open>Control connections\<close>

lemma laws_of_server: "server_laws E \<Longrightarrow> laws E"
  by (simp add: server_laws_def)

lemma process_command_keeps:
  assumes "allows b E N" "good E a F s" "idle a s" "NUL \<notin> set line" "length line < FTP_BUFFER_SIZE"
  shows "triple b (process_command E a line s) (\<lambda>_ s'. stays E a F s s')"
proof -
  have go: "triple b (h a rest s) (\<lambda>_ s'. stays E a F s s')" if "keeps_inv b E h" "length rest \<le> length line" "set rest \<subseteq> set line" for h rest
    by (rule keeps_invD[OF that(1)]) (use assms that in \<open>auto simp: ready_def\<close>)
  have auth: "triple b (dispatch_to_handler a line authenticated_commands (authenticated_handlers E) s) (\<lambda>_ s'. stays E a F s s')"
    using authenticated_table.dispatched[OF assms(5), of E b N a s] assms(1) go by metis
  have unauth: "triple b (dispatch_to_handler a line unauthenticated_commands (unauthenticated_handlers E) s) (\<lambda>_ s'. stays E a F s s')"
    using unauthenticated_table.dispatched[OF assms(5), of E a s] allowsD(1)[OF assms(1)] go handles_keeps by metis
  show ?thesis
    unfolding process_command_def
    apply (rule triple_ifI, simp add: stays_refl[OF assms(2)])
    apply (subst triple_bind, rule triple_mono[OF triple_returns[OF deref_good[OF assms(2)]]], elim conjE, hypsubst, subst prod.case)
    apply (rule triple_ifI, rule auth, rule unauth)
    done
qed

text \<open>What the loop over the lines leaves: the client stays, and the rest is a part of the buffer.\<close>

definition lines_left :: "env \<Rightarrow> int \<Rightarrow> resource set \<Rightarrow> string \<Rightarrow> 'z ftp_st_scheme \<Rightarrow> string option \<Rightarrow> 'z ftp_st_scheme \<Rightarrow> bool" where
  "lines_left E a F nxt s r s' \<longleftrightarrow> stays E a F s s' \<and>
     (case r of None \<Rightarrow> True | Some rest \<Rightarrow> \<exists>k. rest = drop k nxt)"

lemma idle_not_busy: "good E a F s \<Longrightarrow> heap s a = Some c \<Longrightarrow> data_callback c = None \<Longrightarrow> idle a s"
  by (auto simp: good_def idle_def client_ok_def data_ok_def split: option.splits data_arg.splits)

lemma process_lines_turn:
  assumes L: "allows b E N" and g: "good E a F s" and n: "NUL \<notin> set nxt" "length nxt < FTP_BUFFER_SIZE"
    and rec: "\<And>nxt' s'. good E a F s' \<Longrightarrow> NUL \<notin> set nxt' \<Longrightarrow> length nxt' < FTP_BUFFER_SIZE \<Longrightarrow>
      length nxt' < length nxt \<Longrightarrow> triple b (rec E a nxt' s') (lines_left E a F nxt' s')"
  shows "triple b (do {
     (c, s) \<leftarrow> deref a s;
     (case strstr nxt CRLF of
        None \<Rightarrow> Some (Some nxt, s)
      | Some i \<Rightarrow>
          if data_callback c \<noteq> None then Some (Some nxt, s)
          else if LF \<in> set (take i nxt) then Some (None, s)
          else do {
            (result, s) \<leftarrow> (if take i nxt \<noteq> [] then process_command E a (take i nxt) s else Some (0, s));
            if result < 0 then Some (None, s) else rec E a (drop (i + 2) nxt) s
          })
   }) (lines_left E a F nxt s)"
proof -
  have here: "lines_left E a F nxt s (Some nxt) s" "lines_left E a F nxt s None s"
    using stays_refl[OF g] by (auto simp: lines_left_def intro: exI[of _ 0])
  have step: "triple b (rec E a (drop (i + 2) nxt) s') (lines_left E a F nxt s)"
    if "stays E a F s s'" "strstr nxt CRLF = Some i" for s' i
    by (rule triple_mono[OF rec[OF stays_good[OF that(1)]]])
       (use that(1) n strstr_SomeD[OF that(2)] in \<open>auto simp: lines_left_def intro: stays_trans split: option.splits dest: in_set_dropD\<close>)
  have cmd: "triple b (if take i nxt \<noteq> [] then process_command E a (take i nxt) s else Some (0, s)) (\<lambda>_ s'. stays E a F s s')"
    if "idle a s" for i
    using n by (auto intro!: process_command_keeps[OF L g that] stays_refl[OF g] dest: in_set_takeD)
  show ?thesis
    apply (subst triple_bind, rule triple_mono[OF triple_returns[OF deref_good[OF g]]], elim conjE, hypsubst, subst prod.case)
    apply (cases "strstr nxt CRLF")
     apply (simp add: here)
    apply (simp only: option.case)
    apply (rule triple_ifI, simp add: here)
    apply (rule triple_ifI, simp add: here)
    apply (subst triple_bind, rule triple_mono[OF cmd], rule idle_not_busy[OF g], assumption, simp, subst prod.case)
    apply (rule triple_ifI, simp add: lines_left_def)
    apply (rule step, assumption, simp)
    done
qed

lemma process_lines_keeps:
  fixes s :: "'z ftp_st_scheme"
  assumes "allows b E N" "good E a F s" "NUL \<notin> set nxt" "length nxt < FTP_BUFFER_SIZE"
  shows "triple b (process_lines E a nxt s) (lines_left E a F nxt s)"
  using assms(2-4)
proof (induction "length nxt" arbitrary: nxt s rule: less_induct)
  case less
  show ?case
    by (subst process_lines.simps, rule process_lines_turn[OF assms(1) less.prems]) (rule less.hyps)
qed

lemma drop_buf_ok: "NUL \<notin> set b \<Longrightarrow> length b < FTP_BUFFER_SIZE \<Longrightarrow> NUL \<notin> set (drop k b) \<and> length (drop k b) < FTP_BUFFER_SIZE"
  by (auto dest: in_set_dropD)

lemma buffer_lives:
  assumes "good E a F s" "NUL \<notin> set b" "length b < FTP_BUFFER_SIZE"
  shows "returns (modify a (\<lambda>c. c\<lparr>buf := b\<rparr>) s) (\<lambda>_ s'. lives E a F s s')"
proof -
  obtain c where c: "heap s a = Some c" "client_ok E (viters s) c" "distinct (belongs a c)"
    using assms(1) unfolding good_def owned_belongs by auto
  have "lives E a F s (s\<lparr>heap := (heap s)(a \<mapsto> c\<lparr>buf := b\<rparr>)\<rparr>)"
  proof (rule change_lives[OF assms(1) c(1), where X = "{}" and c' = "c\<lparr>buf := b\<rparr>"])
    show "distinct (belongs a (c\<lparr>buf := b\<rparr>))" "set (belongs a (c\<lparr>buf := b\<rparr>)) \<subseteq> set (belongs a c) \<union> {}"
      using c(3) by (simp_all add: belongs_def socks_def data_res_def)
  qed (use c(2) assms(2,3) in \<open>simp_all add: upper_def buf_ok_def\<close>)
  then show ?thesis using c(1) by (simp add: modify_def)
qed

lemma net_read_lives:
  assumes "laws E" "good E a F s"
  shows "returns (net_read E k n s) (\<lambda>(r, got) s'. lives E a F s s' \<and> upper s' = upper s \<and> length got \<le> n \<and>
    (finite_world E N \<longrightarrow> 0 < r \<longrightarrow> remaining N s' < remaining N s))"
proof -
  have rb: "read_bounded E" using assms(1) by (simp add: laws_def)
  have same: "lives E a F s s1 \<and> upper s1 = upper s"
    if "base.more s1 = base.more s" "trace s1 = trace s @ [(CNet (Net_read k n), r)]" for s1 r
    using base_lives[OF assms(2) frame_call[OF that TrueI]] base_more_upper[OF that(1)] that(2) by simp
  show ?thesis
    unfolding net_read_def
    apply (simp only: returns_bind prod.case)
    apply (rule returns_mono[OF ext_law], elim conjE, frule (1) same, elim conjE)
    apply (intro returns_ifI)
      apply simp
     apply (drule read_boundedD(1)[OF rb], simp)
    apply (auto intro: remaining_less)
    done
qed

lemma process_control_turn:
  assumes L: "allows b E N" and ok: "server_ok E S s" and a: "a \<in> set (active s)"
    and rec: "\<And>s'. server_ok E S s' \<Longrightarrow> a \<in> set (active s') \<Longrightarrow> b \<longrightarrow> remaining N s' < remaining N s \<Longrightarrow>
      triple b (rec E a s') (\<lambda>_ s''. server_ok E S s'')"
  shows "triple b (do {
     (c, s) \<leftarrow> deref a s;
     if \<not> length (buf c) < FTP_BUFFER_SIZE - 1 then cleanup_client E a s
     else if data_callback c \<noteq> None then Some ((), s)
     else do {
       ((bytes_read, got), s) \<leftarrow> net_read E (socket c) (FTP_BUFFER_SIZE - 1 - length (buf c)) s;
       if bytes_read < 0 then (if bytes_read \<noteq> - EAGAIN then cleanup_client E a s else Some ((), s))
       else if bytes_read = 0 then cleanup_client E a s
       else do {
         (_, s) \<leftarrow> modify a (\<lambda>c. c\<lparr>buf := buf c @ got\<rparr>) s;
         if NUL \<in> set got then cleanup_client E a s
         else do {
           (nxt, s) \<leftarrow> process_lines E a (buf c @ got) s;
           (case nxt of
              None \<Rightarrow> cleanup_client E a s
            | Some rest \<Rightarrow> do {
                (_, s) \<leftarrow> modify a (\<lambda>c. c\<lparr>buf := rest\<rparr>) s;
                rec E a s
              })
         }
       }
     }
   }) (\<lambda>_ s'. server_ok E S s')"
proof -
  let ?F = "rest_of S a s"
  let ?less = "\<lambda>s'. b \<longrightarrow> remaining N s' < remaining N s"
  note g = server_good[OF ok a] and laws = laws_of_server[OF allowsD(1)[OF L]]
  have after: "server_ok E S s' \<and> a \<in> set (active s')" if "lives E a ?F s s'" for s'
    using server_lives[OF ok a that] by blast
  have less: "?less s2" if "lives E a ?F s1 s2" "?less s1" for s1 s2
    using extends_remaining[OF lives_extends[OF that(1)], of N] that(2) by linarith
  have drop: "triple b (cleanup_client E a s') (\<lambda>_ s''. server_ok E S s'')" if "lives E a ?F s s'" for s'
    using after[OF that] by (blast intro: triple_returns cleanup_client_server)
  have again: "triple b (rec E a s') (\<lambda>_ s''. server_ok E S s'')" if "lives E a ?F s s'" "?less s'" for s'
    using rec after[OF that(1)] that(2) by blast
  obtain c where c: "heap s a = Some c" using ok a server_heap by blast
  then have b: "NUL \<notin> set (buf c)" "length (buf c) < FTP_BUFFER_SIZE"
    using ok crowd_member[of E S _ s a c] by (auto simp: server_ok_def member_ok_def buf_ok_def)
  have lines: "triple b (process_lines E a t s1) (\<lambda>nxt s2. triple b (case nxt of
              None \<Rightarrow> cleanup_client E a s2
            | Some rest \<Rightarrow> do { (_, s) \<leftarrow> modify a (\<lambda>c. c\<lparr>buf := rest\<rparr>) s2; rec E a s }) (\<lambda>_ s'. server_ok E S s'))"
    if l: "lives E a ?F s s1" "?less s1" and t: "NUL \<notin> set t" "length t < FTP_BUFFER_SIZE" for t s1
  proof (rule triple_mono[OF process_lines_keeps[OF L lives_good[OF l(1)] t]])
    fix nxt s2
    assume ll: "lines_left E a ?F t s1 nxt s2"
    then have st: "lives E a ?F s1 s2" by (simp add: lines_left_def stays_lives)
    then have l2: "lives E a ?F s s2" by (rule lives_trans[OF l(1)])
    show "triple b (case nxt of
              None \<Rightarrow> cleanup_client E a s2
            | Some rest \<Rightarrow> do { (_, s) \<leftarrow> modify a (\<lambda>c. c\<lparr>buf := rest\<rparr>) s2; rec E a s }) (\<lambda>_ s'. server_ok E S s')"
    proof (cases nxt)
      case None
      then show ?thesis using drop[OF l2] by simp
    next
      case (Some rest)
      then obtain k where k: "rest = drop k t" using ll by (auto simp: lines_left_def)
      have "returns (modify a (\<lambda>c. c\<lparr>buf := rest\<rparr>) s2) (\<lambda>_ s3. lives E a ?F s2 s3)"
        unfolding k using drop_buf_ok[OF t, of k] by (intro buffer_lives lives_good[OF l2]) auto
      then show ?thesis
        unfolding Some option.case
        by (simp only: triple_bind prod.case)
           (erule triple_mono[OF triple_returns], rule again, erule lives_trans[OF l2], erule less, rule less[OF st l(2)])
    qed
  qed
  have grown: "triple b (modify a (\<lambda>c. c\<lparr>buf := buf c @ got\<rparr>) s1) (\<lambda>_ s2. triple b (if NUL \<in> set got then cleanup_client E a s2
       else do {
         (nxt, s) \<leftarrow> process_lines E a (buf c @ got) s2;
         (case nxt of
            None \<Rightarrow> cleanup_client E a s
          | Some rest \<Rightarrow> do { (_, s) \<leftarrow> modify a (\<lambda>c. c\<lparr>buf := rest\<rparr>) s; rec E a s })
       }) (\<lambda>_ s'. server_ok E S s'))"
    if l: "lives E a ?F s s1" "upper s1 = upper s" and n: "length got \<le> FTP_BUFFER_SIZE - 1 - length (buf c)" "?less s1"
    for got s1
  proof (cases "NUL \<in> set got")
    case True
    have "server_ok E S s1" "a \<in> set (active s1)" using after[OF l(1)] by auto
    from triple_returns[OF cleanup_buffer_server[OF this, of "\<lambda>c. buf c @ got"], of b] True
    show ?thesis by simp (erule triple_mono, rule triple_returns)
  next
    case False
    have h: "heap s1 a = Some c" using l(2) c by (simp add: upper_def)
    have t: "NUL \<notin> set (buf c @ got)" "length (buf c @ got) < FTP_BUFFER_SIZE"
      using b n(1) False by auto
    have "returns (modify a (\<lambda>c. c\<lparr>buf := buf c @ got\<rparr>) s1) (\<lambda>_ s2. lives E a ?F s1 s2)"
      using buffer_lives[OF lives_good[OF l(1)] t] h by (simp add: modify_def)
    then show ?thesis
      by (rule triple_mono[OF triple_returns], simp only: False if_False triple_bind prod.case)
         (rule lines[OF lives_trans[OF l(1)] _ t], assumption, erule less, rule n(2))
  qed
  have l0: "lives E a ?F s s" by (rule lives_refl[OF g])
  show ?thesis
    apply (simp only: deref_def c option.case triple_bind triple_simps prod.case)
    apply (rule triple_ifI, rule drop[OF l0])
    apply (rule triple_ifI, simp add: ok)
    apply (subst triple_bind, rule triple_mono[OF triple_returns[OF net_read_lives[OF laws g, where N = N]]])
    subgoal for x s1
      apply (cases x, hypsubst, simp only: prod.case, elim conjE)
      apply (rule triple_ifI, rule triple_ifI, erule drop, simp add: after)
      apply (rule triple_ifI, erule drop)
      apply (subst triple_bind, subst prod.case)
      apply (rule grown, assumption+)
      using allowsD(2)[OF L] apply simp
      done
    done
qed

lemma process_control_events_keeps:
  fixes s :: "'z ftp_st_scheme"
  assumes "allows b E N" "server_ok E S s" "a \<in> set (active s)"
  shows "triple b (process_control_events E a s) (\<lambda>_ s'. server_ok E S s')"
proof (cases b)
  case True
  have "triple True (process_control_events E a s) (\<lambda>_ s'. server_ok E S s')"
    using assms(2,3)
  proof (induction "remaining N s" arbitrary: s rule: less_induct)
    case less
    show ?case
      by (subst process_control_events.simps, rule process_control_turn[OF _ less.prems, where N = N])
         (use assms(1) True less.hyps in auto)
  qed
  then show ?thesis using True by simp
next
  case False
  have "\<forall>E a (s :: 'z ftp_st_scheme). allows False E N \<and> server_ok E S s \<and> a \<in> set (active s) \<longrightarrow>
      upon (process_control_events E a s) (\<lambda>_ s'. server_ok E S s')"
    by (rule process_control_events.fixp_induct, rule loop_admissible, simp)
       (intro allI impI, elim conjE, unfold triple_False[symmetric], rule process_control_turn; simp add: triple_False)
  then show ?thesis using assms False by (simp add: triple_False)
qed

section \<open>A turn of the server\<close>

lemma slot_active: "server_ok E S s \<Longrightarrow> i < MAX_CLIENTS \<Longrightarrow> clients s ! i \<noteq> 0 \<Longrightarrow> clients s ! i \<in> set (active s)"
  by (auto simp: server_ok_def table_ok_def active_def)

lemma process_client_keeps:
  assumes "allows b E N" "server_ok E S s" "a \<noteq> 0 \<longrightarrow> a \<in> set (active s)"
  shows "triple b (process_client E a s) (\<lambda>_ s'. server_ok E S s')"
proof (cases "a = 0")
  case False
  then have a: "a \<in> set (active s)" using assms(3) by blast
  then obtain c where c: "heap s a = Some c" using server_heap[OF assms(2)] by blast
  have "b \<longrightarrow> finite_world E N \<and> entries_fit E" using allowsD(2,4)[OF assms(1)] by blast
  note data = process_data_events_keeps[OF laws_of_server[OF allowsD(1)[OF assms(1)]] this assms(2) c]
  show ?thesis
    unfolding process_client_def deref_def c
    using False by (auto intro: data process_control_events_keeps[OF assms(1,2) a])
qed (simp add: process_client_def assms(2))

lemma process_slots_keeps:
  "allows b E N \<Longrightarrow> server_ok E S s \<Longrightarrow> set is \<subseteq> {..<MAX_CLIENTS} \<Longrightarrow>
   triple b (process_slots E is s) (\<lambda>_ s'. server_ok E S s')"
proof (induction "is" arbitrary: s)
  case (Cons i js)
  then show ?case
    by (auto intro!: triple_mono[OF process_client_keeps] slot_active)
qed simp

lemma process_ftp_events_keeps:
  assumes "allows b E N" "server_ok E S s"
  shows "triple b (process_ftp_events E server s) (\<lambda>_ s'. server_ok E S s')"
  unfolding process_ftp_events_def
  using assms allowsD(1,2)[OF assms(1)]
  by (auto intro!: triple_mono[OF process_accept_events_keeps[where N = N]] triple_mono[OF process_slots_keeps] laws_of_server)

text \<open>At the end all clients are told and released.\<close>

lemma goodbye_server:
  assumes "laws E" "server_ok E S s" "a \<in> set (active s)"
  shows "returns (write_reply E a 421 msg s) (\<lambda>_ s1. returns (cleanup_client E a s1) (\<lambda>_ s'. server_ok E S s' \<and>
    clients s' = clear_slot (clients s) a))"
proof (rule returns_mono[OF reply_first(1)[OF assms(1) server_good[OF assms(2,3)]]])
  fix s1
  assume st: "stays E a (rest_of S a s) s s1"
  then have s1: "server_ok E S s1" "a \<in> set (active s1)" "clients s1 = clients s"
    using server_lives[OF assms(2,3) stays_lives[OF st]] by (auto simp: stays_def)
  obtain c where c: "heap s1 a = Some c" using s1 server_heap by blast
  show "returns (cleanup_client E a s1) (\<lambda>_ s'. server_ok E S s' \<and> clients s' = clear_slot (clients s) a)"
    using returns_conj[OF cleanup_client_server[OF s1(1,2)]
        returns_upon[OF cleanup_client_releases[OF server_releasable[OF s1(1) c]]]]
    by (rule returns_mono) (simp add: s1(3))
qed simp

lemma clear_slot_nth: "distinct (filter (\<lambda>p. p \<noteq> 0) ps) \<Longrightarrow> ps ! i \<noteq> 0 \<Longrightarrow> i < length ps \<Longrightarrow> clear_slot ps (ps ! i) = ps[i := 0]"
  by (induction ps arbitrary: i) (auto simp: nth_Cons split: nat.splits if_splits)

lemma cleanup_slots_returns:
  "laws E \<Longrightarrow> server_ok E S s \<Longrightarrow> n \<le> MAX_CLIENTS \<Longrightarrow> \<forall>i < n. clients s ! i = 0 \<Longrightarrow>
   returns (cleanup_slots E [n..<MAX_CLIENTS] s) (\<lambda>_ s'. server_ok E S s' \<and> (\<forall>i < MAX_CLIENTS. clients s' ! i = 0))"
proof (induction "MAX_CLIENTS - n" arbitrary: n s)
  case 0
  then show ?case by simp
next
  case (Suc k)
  then have n: "n < MAX_CLIENTS" "[n..<MAX_CLIENTS] = n # [Suc n..<MAX_CLIENTS]" by (simp_all add: upt_conv_Cons)
  have t: "length (clients s) = MAX_CLIENTS" "distinct (filter (\<lambda>p. p \<noteq> 0) (clients s))"
    using Suc.prems(2) by (auto simp: server_ok_def table_ok_def active_def)
  have go_on: "returns (cleanup_slots E [Suc n..<MAX_CLIENTS] s') (\<lambda>_ s'. server_ok E S s' \<and> (\<forall>i < MAX_CLIENTS. clients s' ! i = 0))"
    if "server_ok E S s'" "clients s' = (clients s)[n := 0]" for s' :: "'a ftp_st_scheme"
    by (rule Suc.hyps(1)) (use Suc.hyps(2) Suc.prems that n t in \<open>auto simp: less_Suc_eq nth_list_update\<close>)
  show ?case
  proof (cases "clients s ! n = 0")
    case True
    then have "(clients s)[n := 0] = clients s" by (metis list_update_id)
    then show ?thesis using True go_on[OF Suc.prems(2)] by (simp add: n(2))
  next
    case False
    have a: "clients s ! n \<in> set (active s)" by (rule slot_active[OF Suc.prems(2) n(1) False])
    show ?thesis
      unfolding n(2) cleanup_slots.simps Let_def
      using False
      apply (simp only: if_True if_False not_False_eq_True returns_bind prod.case simp_thms)
      apply (rule returns_mono[OF goodbye_server[OF Suc.prems(1,2) a]], erule returns_mono, elim conjE)
      apply (rule go_on, assumption, simp add: clear_slot_nth t n False)
      done
  qed
qed

lemma no_active: "server_ok E S s \<Longrightarrow> \<forall>i < MAX_CLIENTS. clients s ! i = 0 \<Longrightarrow> active s = [] \<and> heap s = Map.empty \<and> num_clients s = 0"
proof -
  assume ok: "server_ok E S s" and z: "\<forall>i < MAX_CLIENTS. clients s ! i = 0"
  have "active s = []"
    using ok z by (auto simp: server_ok_def table_ok_def active_def filter_empty_conv in_set_conv_nth)
  then show ?thesis using ok by (simp add: server_ok_def crowd_def table_ok_def)
qed

lemma cleanup_ftp_returns:
  assumes "laws E" "server_ok E S s"
  shows "returns (cleanup_ftp E s) (\<lambda>_ s'. server_ok E S s' \<and> heap s' = Map.empty \<and> num_clients s' = 0)"
  unfolding cleanup_ftp_def
  by (rule returns_mono[OF cleanup_slots_returns[OF assms]]) (auto dest: no_active)

end
