(* ===== verification/Preloader.thy ===== *)
theory Preloader
  imports Loader
begin

text \<open>
  \<open>source/preloader.c\<close>: the program that starts the server's executable. The address of the image
  (\<open>_ftpii_dol\<close>, which the build links in) and the argument block of libogc (\<open>__system_argv\<close>) are
  parameters.
\<close>

definition preloader_main :: "env \<Rightarrow> u32 \<Rightarrow> (u32 \<times> u8 list) option \<Rightarrow> 'z base_scheme \<Rightarrow> (int \<times> 'z base_scheme) option" where
  "preloader_main E dol system_argv s = do {
     (_, s) \<leftarrow> ext E (CSys VIDEO_Init) s;
     (_, s) \<leftarrow> run_dol E dol system_argv (ram E) s;
     Some (1, s)
   }"

text \<open>
  It starts the loaded image at its entry point, after the subsystems of IOS have been shut down,
  and comes back only if the image does.
\<close>

lemma preloader_main_runs:
  "upon (preloader_main E dol argv s) (\<lambda>r s'. r = 1 \<and> map fst (trace s') = map fst (trace s) @
     [CSys VIDEO_Init, CSys IOS_ShutdownSubsystems, CSys (Run (fst (load_dol_image dol argv (ram E))))])"
  by (auto simp: preloader_main_def run_dol_def upon_ext Let_def split: prod.splits)

end
