(* ===== verification/Turns.thy ===== *)
theory Turns
  imports Serving Ftpii
begin

text \<open>
  The parts of the program outside the FTP server: start-up, the polling of the buttons and of the
  network, the events of the pads and the timers, the devices at the end. They all keep every
  statement about the state of the server, which is the contract \<open>outer_invariant\<close> below.
\<close>

section \<open>Polling\<close>

text \<open>Polling the buttons and the network changes the flags only.\<close>

definition polls :: "'z reset_st_scheme \<Rightarrow> 'z reset_st_scheme \<Rightarrow> bool" where
  "polls s s' \<longleftrightarrow> reset_st.more s' = reset_st.more s \<and> held (trace s') = held (trace s)"

lemma polls_refl [simp, intro]: "polls s s"
  by (simp add: polls_def)

lemma polls_trans: "polls s s' \<Longrightarrow> polls s' s'' \<Longrightarrow> polls s s''"
  by (simp add: polls_def)

lemma reset_more_upper:
  "reset_st.more s' = reset_st.more s \<Longrightarrow> upper s' = upper s \<and> VIRTUAL_PARTITIONS s' = VIRTUAL_PARTITIONS s"
  by (cases s; cases s') (simp add: upper_def)

lemma sys_only_neutral: "sys_only c \<Longrightarrow> neutral c"
  by (auto simp: sys_only_def neutral_def split: call.splits)

lemma reset_frame_polls: "reset_frame s s' \<Longrightarrow> polls s s'"
  unfolding reset_frame_def polls_def using logs_neutral_held logs_mono sys_only_neutral by blast

lemma polls_ext: "polls s s1 \<Longrightarrow> neutral c \<Longrightarrow> upon (ext E c s1) (\<lambda>_. polls s)"
proof (rule upon_mono[OF returns_upon[OF ext_neutral[where C = "\<lambda>_. True"]]], assumption, rule TrueI, elim conjE)
  fix s' assume "polls s s1" "frame (\<lambda>_. True) s1 s'" "held (trace s') = held (trace s1)"
  then show "polls s s'" using base_more_reset[OF frame_more[of "\<lambda>_. True" s1 s']] by (simp add: polls_def)
qed

lemma polls_check: "polls s s1 \<Longrightarrow> upon (check_reset_synchronous E s1) (\<lambda>_. polls s)"
  by (rule upon_mono[OF returns_upon[OF check_reset_synchronous_returns]]) (blast intro: polls_trans reset_frame_polls)

text \<open>The loops that wait for the network.\<close>

lemma net_init_wait_polls: "\<forall>E r s1. polls s s1 \<longrightarrow> upon (net_init_wait E r s1) (\<lambda>_. polls s)"
  by (rule net_init_wait.fixp_induct, rule loop_admissible)
     (auto intro!: upon_mono[OF polls_check] upon_mono[OF polls_ext] simp: neutral_def)

lemma net_init_loop_polls: "\<forall>E r s1. polls s s1 \<longrightarrow> upon (net_init_loop E r s1) (\<lambda>_. polls s)"
  by (rule net_init_loop.fixp_induct, rule loop_admissible)
     (auto intro!: upon_mono[OF polls_check] upon_mono[OF polls_ext] upon_mono[OF net_init_wait_polls[rule_format]]
       simp: neutral_def)

lemma gethostip_loop_polls: "\<forall>E s1. polls s s1 \<longrightarrow> upon (gethostip_loop E s1) (\<lambda>_. polls s)"
  by (rule gethostip_loop.fixp_induct, rule loop_admissible)
     (auto intro!: upon_mono[OF polls_check] upon_mono[OF polls_ext] simp: neutral_def Let_def)

lemma initialise_network_polls: "upon (initialise_network E s) (\<lambda>_. polls s)"
  unfolding initialise_network_def
  by (auto intro!: upon_mono[OF net_init_loop_polls[rule_format]] upon_mono[OF gethostip_loop_polls[rule_format]])

section \<open>Devices\<close>

lemma remount_frame:
  assumes "devices_ok E" "fs_wf s"
  shows "returns (process_remount_event E s) (\<lambda>_ s'. fs_frame s s')"
proof (cases "mountstate s = MOUNTSTATE_START \<or> mountstate s = MOUNTSTATE_SELECTDEVICE")
  case True
  then show ?thesis by (simp add: process_remount_event_def)
next
  case False
  let ?s = "s\<lparr>mount_timer := 0, mountstate := MOUNTSTATE_START\<rparr>"
  have wf: "fs_wf ?s" using assms(2) by (simp add: fs_wf_def)
  have dvd: "returns (ext E (CDev DI_Mount) (set_dvd_mountWait True ?s)) (\<lambda>_ s'. drive_frame ?s s')"
    by (auto intro!: returns_mono[OF ext_quiet] dest!: quiet_drive)
  have "returns (case mount_partition ?s of
            Some i \<Rightarrow>
              if is_dvd i then do { (_, s) \<leftarrow> ext E (CDev DI_Mount) (set_dvd_mountWait True ?s); Some ((), s) }
              else do { (_, s) \<leftarrow> mount E (Some i) ?s; Some ((), s) }
          | None \<Rightarrow> do { (_, s) \<leftarrow> mount E None ?s; Some ((), s) }) (\<lambda>_ s'. fs_frame s s')"
    by (auto split: option.splits dest: drive_fs_frame intro!: returns_mono[OF mount_returns[OF assms(1) wf]] returns_mono[OF dvd])
  then show ?thesis
    unfolding process_remount_event_def Let_def
    by (simp only: False if_False returns_bind prod.case returns_simps fs_frame_updates)
qed

lemma select_frame:
  assumes "fresh E"
  shows "returns (process_device_select_event E pressed s) (\<lambda>_ s'. fs_frame s s')"
proof -
  have go: "returns (if is_dvd i \<and> dvd_mountWait s1 then Some ((), s1\<lparr>mountstate := MOUNTSTATE_START\<rparr>)
          else do {
            (_, s) \<leftarrow> (if is_dvd i then dvd_unmount E s1
               else if is_fat i then do { (_, s) \<leftarrow> unmount E (Some i) s1; Some ((), s) }
               else Some ((), s1));
            (now, s) \<leftarrow> gettime E s;
            Some ((), s\<lparr>mount_timer := now + secs_to_ticks E 30\<rparr>)
          }) (\<lambda>_ s'. fs_frame s s')" if "fs_frame s s1" for i s1
  proof -
    have un: "returns (if is_dvd i then dvd_unmount E s1
        else if is_fat i then do { (_, s) \<leftarrow> unmount E (Some i) s1; Some ((), s) }
        else Some ((), s1)) (\<lambda>_ s'. fs_frame s s')"
      using that by (auto intro!: returns_mono[OF dvd_unmount_returns[OF assms]] returns_mono[OF unmount_returns[OF assms]]
          intro: fs_frame_trans drive_fs_frame)
    have time: "returns (gettime E s2) (\<lambda>now s3. returns (Some ((), s3\<lparr>mount_timer := now + t\<rparr>)) (\<lambda>_ s'. fs_frame s s'))"
      if "fs_frame s s2" for s2 t
      using that by (auto intro!: returns_mono[OF gettime_quiet] intro: fs_frame_trans drive_fs_frame dest!: quiet_drive)
    show ?thesis
      using that by (intro returns_ifI) (simp, simp only: returns_bind prod.case, rule returns_mono[OF un], rule time)
  qed
  let ?s = "case pressed_device E pressed of Some i \<Rightarrow> s\<lparr>mount_partition := Some i\<rparr> | None \<Rightarrow> s"
  have start: "fs_frame s ?s" by (simp split: option.split)
  show ?thesis
  proof (cases "mount_partition ?s")
    case (Some i)
    show ?thesis
      unfolding process_device_select_event_def Let_def Some option.case
      by (rule returns_ifI, simp, rule go, simp only: fs_frame_updates start)
  qed (simp add: process_device_select_event_def Let_def start)
qed

lemma unmount_all_returns: "fresh E \<Longrightarrow> returns (unmount_all E is s) (\<lambda>_ s'. drive_frame s s')"
proof (induction "is" arbitrary: s)
  case (Cons i js)
  have "returns (unmount_all E js s1) (\<lambda>_ s'. drive_frame s s')" if "drive_frame s s1" for s1
    by (rule returns_mono[OF Cons.IH[OF Cons.prems]]) (rule drive_frame_trans[OF that])
  then show ?case by (auto intro!: returns_mono[OF unmount_returns[OF Cons.prems]])
qed simp

lemma neutral_start [simp]: "neutral (CDev DI_Init)" "neutral (CDev (Lib_Mount l))" "neutral (CDev ISFS_SU)" "neutral (CDev ISFS_Initialize)"
  "neutral (CDev DI_Close)" "neutral (CDev ISFS_Deinitialize)"
  by (simp_all add: neutral_def)

section \<open>What they keep\<close>

text \<open>
  A statement is kept if it reads no more than the clients, the password and the virtual listings,
  the fixed part of the partitions, and what the program holds.
\<close>

locale outer_invariant =
  fixes Inv :: "'z ftp_st_scheme \<Rightarrow> bool"
  assumes outer: "Inv s \<Longrightarrow> upper s' = upper s \<Longrightarrow>
    map fixed_part (VIRTUAL_PARTITIONS s') = map fixed_part (VIRTUAL_PARTITIONS s) \<Longrightarrow>
    held (trace s') = held (trace s) \<Longrightarrow> Inv s'"
begin

lemma base: "Inv s \<Longrightarrow> base.more s' = base.more s \<Longrightarrow> held (trace s') = held (trace s) \<Longrightarrow> Inv s'"
  by (drule base_more_upper, elim conjE, erule outer) simp_all

lemma fs: "Inv s \<Longrightarrow> fs_frame s s' \<Longrightarrow> Inv s'"
  unfolding fs_frame_def by (elim conjE, drule fs_more_upper, erule (2) outer)

lemma drive: "Inv s \<Longrightarrow> drive_frame s s' \<Longrightarrow> Inv s'"
  by (blast intro: fs drive_fs_frame)

lemma polled: "Inv s \<Longrightarrow> polls s s' \<Longrightarrow> Inv s'"
  unfolding polls_def by (elim conjE, drule reset_more_upper, elim conjE, erule outer) simp_all

lemma neutral_keeps: "Inv s \<Longrightarrow> neutral c \<Longrightarrow> returns (ext E c s) (\<lambda>_ s'. Inv s')"
  by (rule returns_mono[OF ext_neutral[where C = "\<lambda>_. True"]], assumption, rule TrueI, elim conjE, drule frame_more,
      erule (1) base) simp

lemmas neutral_upon = returns_upon[OF neutral_keeps]

lemma reset_keeps: "Inv s \<Longrightarrow> returns (reset E s) (\<lambda>b s'. Inv s' \<and> b = reset_flag s')"
  by (rule returns_mono[OF reset_returns]) (auto intro: polled reset_frame_polls)

lemma network_keeps: "Inv s \<Longrightarrow> upon (initialise_network E s) (\<lambda>_ s'. Inv s')"
  by (rule upon_mono[OF initialise_network_polls]) (rule polled)

lemma interlaced_keeps: "Inv s \<Longrightarrow> upon (wait_interlaced E k s) (\<lambda>_ s'. Inv s')"
  unfolding wait_interlaced_def by (auto intro!: upon_mono[OF neutral_upon])

lemma video_keeps: "Inv s \<Longrightarrow> upon (initialise_video E s) (\<lambda>_ s'. Inv s')"
  unfolding initialise_video_def Let_def
  by (auto intro!: upon_mono[OF neutral_upon] upon_mono[OF interlaced_keeps] interlaced_keeps)

lemma initialise_keeps: "Inv s \<Longrightarrow> upon (initialise_ftpii E s) (\<lambda>_ s'. Inv s')"
  unfolding initialise_ftpii_def initialise_fs_def
  by (auto intro!: upon_mono[OF neutral_upon] upon_mono[OF video_keeps] upon_mono[OF network_keeps])

lemma unmounts_keep: "fresh E \<Longrightarrow> Inv s \<Longrightarrow> returns (unmount_all E is s) (\<lambda>_ s'. Inv s')"
  by (rule returns_mono[OF unmount_all_returns]) (auto intro: drive)

lemma stop_keeps: "Inv s \<Longrightarrow> returns (dvd_stop E s) (\<lambda>_ s'. Inv s')"
  by (rule returns_mono[OF dvd_stop_drive]) (blast intro: drive)

lemma poweroff_keeps: "Inv s \<Longrightarrow> returns (maybe_poweroff E s) (\<lambda>_ s'. Inv s')"
  unfolding maybe_poweroff_def
  by (auto intro!: returns_mono[OF button_callbacks_frame] returns_mono[OF neutral_keeps] intro: polled reset_frame_polls)

end

text \<open>The events that work on the devices also rely on the partitions.\<close>

locale device_invariant = outer_invariant +
  assumes wf: "Inv s \<Longrightarrow> fs_wf s"
begin

lemma remount_keeps: "devices_ok E \<Longrightarrow> Inv s \<Longrightarrow> triple b (process_remount_event E s) (\<lambda>_ s'. Inv s')"
  by (rule triple_returns[OF returns_mono[OF remount_frame[OF _ wf]]]) (auto intro: fs)

lemma select_keeps: "fresh E \<Longrightarrow> Inv s \<Longrightarrow> triple b (process_device_select_event E p s) (\<lambda>_ s'. Inv s')"
  by (rule triple_returns[OF returns_mono[OF select_frame]]) (auto intro: fs)

lemma flag_keeps: "Inv s \<Longrightarrow> Inv (set_reset_flag s)"
  by (erule outer) (simp_all add: set_reset_flag_def upper_def)

lemma sys_keeps: "Inv s \<Longrightarrow> frame sys_only s s' \<Longrightarrow> Inv s'"
  by (erule polled, rule reset_frame_polls, rule frame_reset_frame)

lemma pad_keeps:
  "Inv s \<Longrightarrow> triple b (check_wiimote E m s) (\<lambda>_ s'. Inv s')"
  "Inv s \<Longrightarrow> triple b (check_gamecube E m s) (\<lambda>_ s'. Inv s')"
  by (rule triple_returns[OF returns_mono[OF check_wiimote_frame]], erule (1) sys_keeps)
     (rule triple_returns[OF returns_mono[OF check_gamecube_frame]], erule (1) sys_keeps)

lemma pads_keep:
  assumes "devices_ok E" "Inv s"
  shows "triple b (process_wiimote_events E s) (\<lambda>_ s'. Inv s')" "triple b (process_gamecube_events E s) (\<lambda>_ s'. Inv s')"
  unfolding process_wiimote_events_def process_gamecube_events_def
  using assms(2) devices_ok_fresh[OF assms(1)]
  by (auto intro!: triple_mono[OF pad_keeps(1)] triple_mono[OF pad_keeps(2)]
      intro: flag_keeps remount_keeps[OF assms(1)] select_keeps)

lemma time_keeps: "Inv s \<Longrightarrow> triple b (gettime E s) (\<lambda>_ s'. Inv s')"
  by (rule triple_returns[OF returns_mono[OF gettime_quiet]]) (auto intro: drive dest: quiet_drive)

lemma motor_keeps: "fresh E \<Longrightarrow> Inv s \<Longrightarrow> triple b (check_dvd_motor_timeout E now s) (\<lambda>_ s'. Inv s')"
  by (rule triple_returns[OF returns_mono[OF check_dvd_motor_timeout_returns]]) (auto intro: drive)

lemma timer_keeps: "devices_ok E \<Longrightarrow> Inv s \<Longrightarrow> triple b (check_mount_timer E now s) (\<lambda>_ s'. Inv s')"
  unfolding check_mount_timer_def by (rule triple_ifI) (simp_all add: remount_keeps)

lemma devices_keep: "devices_ok E \<Longrightarrow> Inv s \<Longrightarrow> triple b (check_removable_devices E now s) (\<lambda>_ s'. Inv s')"
  by (rule triple_returns[OF returns_mono[OF check_removable_devices_returns[OF _ wf]]])
     (auto simp: dialogue_same_def intro: fs)

lemma timers_keep: "devices_ok E \<Longrightarrow> Inv s \<Longrightarrow> triple b (process_timer_events E s) (\<lambda>_ s'. Inv s')"
  unfolding process_timer_events_def
  by (auto intro!: triple_mono[OF time_keeps] triple_mono[OF motor_keeps[OF devices_ok_fresh]] triple_mono[OF timer_keeps] devices_keep)

lemma dvd_keeps: "Inv s \<Longrightarrow> triple b (check_dvd_mount E s) (\<lambda>_ s'. Inv s')"
  by (rule triple_returns[OF returns_mono[OF check_dvd_mount_returns]]) (auto intro: drive)

end

end
