(* ===== verification/Program.thy ===== *)
theory Program
  imports Turns
begin

text \<open>
  The main program keeps the invariant of the server: its listening socket, the turns of the main
  loop, start-up and shutdown. What the events of pads, timers and devices keep comes from the
  contract of \<open>Turns\<close>, which three statements satisfy: the server's invariant, the state before a
  password is set, and the state after the shutdown.
\<close>

interpretation serving: device_invariant "server_ok E S" for E S
proof unfold_locales
  fix s s'
  assume "server_ok E S s" "upper s' = upper s"
    "map fixed_part (VIRTUAL_PARTITIONS s') = map fixed_part (VIRTUAL_PARTITIONS s)" "held (trace s') = held (trace s)"
  then show "server_ok E S s'" by (metis server_frame subset_refl)
qed (simp add: server_ok_def crowd_def base_ok_def)

section \<open>The socket of the server\<close>

definition listening :: "int \<Rightarrow> resource set" where
  "listening k = (if 0 \<le> k then {Sock k} else {})"

lemma arg_res_not_Sock [simp]: "arg_res x \<noteq> Sock k" "Sock k \<noteq> arg_res x"
  by (cases x; cases "case x of Arg_dir d \<Rightarrow> d | _ \<Rightarrow> Real 0"; simp)+

lemma belongs_nonneg: "client_ok E v c \<Longrightarrow> Sock k \<in> set (belongs a c) \<Longrightarrow> 0 \<le> k"
  by (auto simp: belongs_def socks_def client_ok_def data_res_def split: option.splits if_splits)

text \<open>Obtaining and releasing something that no client owns.\<close>

lemma server_weaken: "server_ok E S s \<Longrightarrow> T \<subseteq> S \<Longrightarrow> server_ok E T s"
  unfolding server_ok_def crowd_def base_ok_def by blast

lemma server_obtain:
  assumes "server_ok E S s" "base.more s' = base.more s" "held (trace s') = insert x (held (trace s))" "x \<notin> held (trace s)"
  shows "server_ok E (insert x S) s'"
proof -
  have u: "heap s' = heap s" "pw_res s' = pw_res s" "active s' = active s"
    using base_more_upper[OF assms(2)] by (auto simp: upper_def pw_res_def active_def)
  have c: "crowd E S (set (active s)) s" using assms(1) by (simp add: server_ok_def)
  have c': "crowd E S (set (active s')) s'" "table_ok s'"
    using server_base[OF assms(1,2)] assms(3) by (auto simp: server_ok_def)
  have "x \<notin> set (pw_res s)" using c assms(4) by (auto simp: crowd_def base_ok_def)
  then have "base_ok (insert x S) s'" using c' assms(3) u unfolding crowd_def base_ok_def by simp
  moreover have "x \<notin> set (belongs a d)" if "heap s' a = Some d" for a d
    using crowd_member[OF c, of a d] that assms(4) u by (auto simp: member_ok_def)
  ultimately have "crowd E (insert x S) (set (active s')) s'"
    using c'(1) unfolding crowd_def by blast
  then show ?thesis using c'(2) by (simp add: server_ok_def)
qed

lemma server_release:
  assumes "server_ok E S s" "base.more s' = base.more s" "held (trace s') = held (trace s) - {x}" "x \<notin> S" "x \<notin> set (pw_res s)"
    "\<And>a d. heap s a = Some d \<Longrightarrow> x \<notin> set (belongs a d)"
  shows "server_ok E S s'"
proof -
  have u: "heap s' = heap s" "viters s' = viters s" "password s' = password s" "pw_res s' = pw_res s" "active s' = active s"
    "clients s' = clients s" "num_clients s' = num_clients s" "VIRTUAL_PARTITIONS s' = VIRTUAL_PARTITIONS s"
    using base_more_upper[OF assms(2)] by (auto simp: upper_def pw_res_def active_def)
  have oth: "others A a s' = others A a s" for A a by (simp add: others_def u)
  have c: "crowd E S (set (active s)) s" using assms(1) by (simp add: server_ok_def)
  have m: "member_ok E s' a d" if "heap s a = Some d" for a d
    using crowd_member[OF c that] assms(3) assms(6)[OF that] unfolding member_ok_def u by auto
  have "base_ok S s'" using c assms(3-5) unfolding crowd_def base_ok_def fs_wf_def u by auto
  then have "crowd E S (set (active s)) s'" using c m unfolding crowd_def u oth by blast
  then show ?thesis using assms(1) by (simp add: server_ok_def table_ok_def u)
qed

lemma not_client_socket:
  assumes "server_ok E (listening k) s"
  shows "heap s a = Some d \<Longrightarrow> Sock k \<notin> set (belongs a d)" "Sock k \<notin> set (pw_res s)"
proof -
  show "Sock k \<notin> set (belongs a d)" if "heap s a = Some d"
  proof (cases "0 \<le> k")
    case True
    then have "Sock k \<in> listening k" by (simp add: listening_def)
    then show ?thesis using assms that unfolding server_ok_def crowd_def by blast
  next
    case False
    have "client_ok E (viters s) d"
      using assms crowd_member[of E "listening k" _ s a d] that by (auto simp: server_ok_def member_ok_def)
    from belongs_nonneg[OF this] False show ?thesis by auto
  qed
  show "Sock k \<notin> set (pw_res s)" by (auto simp: pw_res_def split: option.splits)
qed

lemma net_close_server:
  assumes "server_ok E (listening k) s"
  shows "returns (net_close E k s) (\<lambda>_ s'. server_ok E {} s' \<and> held (trace s') = held (trace s) - {Sock k})"
proof -
  have "server_ok E {} s'" if "base.more s' = base.more s" "held (trace s') = held (trace s) - {Sock k}" for s'
    by (rule server_release[OF server_weaken[OF assms] that]) (simp_all add: not_client_socket[OF assms])
  then show ?thesis
    unfolding net_close_def by (simp only: returns_bind prod.case returns_simps)
      (rule returns_mono[OF ext_step], simp)
qed

lemma create_server_keeps:
  assumes "fresh E" "server_ok E {} s"
  shows "upon (create_server E port s) (\<lambda>k s'. server_ok E (listening k) s')"
proof -
  have io: "upon (ext E c s1) (\<lambda>_ s'. server_ok E {Sock k} s')" if "server_ok E {Sock k} s1" "neutral c" for c k s1
    by (rule returns_upon[OF server_ext[OF that]])
  have block: "upon (set_blocking E k b s1) (\<lambda>_ s'. server_ok E {Sock k} s')" if "server_ok E {Sock k} s1" for k b s1
    unfolding set_blocking_def using that by (auto simp: Let_def intro!: upon_mono[OF io])
  have close: "upon (net_close E k s1) (\<lambda>_ s'. server_ok E (listening r) s')" if "server_ok E {Sock k} s1" "0 \<le> k" "r < 0" for k r s1
    using that by (auto simp: listening_def intro!: upon_mono[OF returns_upon[OF net_close_server]])
  have open_: "upon (ext E (CNet Net_socket) s) (\<lambda>r s1. 0 \<le> ret r \<longrightarrow> server_ok E {Sock (ret r)} s1)"
  proof (rule upon_mono[OF returns_upon[OF ext_law]], elim conjE, rule impI)
    fix r s1
    assume "base.more s1 = base.more s" and tr: "trace s1 = trace s @ [(CNet Net_socket, r)]"
      and ans: "answers E (trace s) (CNet Net_socket) r" and "0 \<le> ret r"
    then show "server_ok E {Sock (ret r)} s1"
      using server_obtain[OF assms(2), of s1 "Sock (ret r)"] freshD[OF assms(1) ans, of "Sock (ret r)"] by auto
  qed
  show ?thesis
    unfolding create_server_def Let_def
    apply (subst upon_bind, rule upon_mono[OF open_], subst prod.case)
    apply (rule upon_ifI, simp add: exit_after_def)
    apply (subst upon_bind, rule upon_mono[OF block], simp, subst prod.case)
    apply (subst upon_bind, rule upon_mono[OF io], assumption, simp, subst prod.case)
    apply (rule upon_ifI)
     apply (simp only: upon_bind prod.case upon_simps, rule close, assumption, simp, simp)
    apply (subst upon_bind, rule upon_mono[OF io], assumption, simp, subst prod.case)
    apply (rule upon_ifI)
     apply (simp only: upon_bind prod.case upon_simps, rule close, assumption, simp, simp)
    apply (simp add: listening_def)
    done
qed

section \<open>Events\<close>

lemma process_events_keeps:
  assumes "allows b E N" "server_ok E S s"
  shows "triple b (process_events E server s) (\<lambda>_ s'. server_ok E S s')"
proof -
  have L: "devices_ok E" using laws_of_server[OF allowsD(1)[OF assms(1)]] by (simp add: laws_def)
  show ?thesis
    unfolding process_events_def using assms(2)
    by (auto intro!: triple_mono[OF serving.dvd_keeps] triple_mono[OF process_ftp_events_keeps[OF assms(1)]]
        triple_mono[OF serving.pads_keep(1)[OF L]] triple_mono[OF serving.pads_keep(2)[OF L]] triple_mono[OF serving.timers_keep[OF L]])
qed

section \<open>The main loop\<close>

text \<open>What a turn leaves: the invariant, with the socket that the next turn works with.\<close>

definition turn_ok :: "env \<Rightarrow> int \<Rightarrow> int + bool \<times> int \<Rightarrow> 'z ftp_st_scheme \<Rightarrow> bool" where
  "turn_ok E server r s' \<longleftrightarrow> (case r of
       Inl k \<Rightarrow> k = server \<and> reset_flag s' \<and> server_ok E (listening k) s'
     | Inr (down, k) \<Rightarrow> server_ok E (listening k) s' \<and> (down \<or> 0 \<le> k))"

lemma turn_ok_simps [simp]:
  "turn_ok E server (Inl k) s \<longleftrightarrow> k = server \<and> reset_flag s \<and> server_ok E (listening k) s"
  "turn_ok E server (Inr (down, k)) s \<longleftrightarrow> server_ok E (listening k) s \<and> (down \<or> 0 \<le> k)"
  by (simp_all add: turn_ok_def)

text \<open>The wait for a lost network may have no end; a turn without it returns in a lasting world.\<close>

lemma main_turn_keeps:
  assumes "allows b E N" "server_ok E (listening server) s" "down \<or> 0 \<le> server" "b \<longrightarrow> \<not> down"
  shows "triple b (main_turn E down server s) (turn_ok E server)"
proof -
  note L = laws_of_server[OF allowsD(1)[OF assms(1)]]
  have turn: "triple b (process_events E k s') (\<lambda>d s''. turn_ok E server (Inr (d, k)) s'')"
    if "server_ok E (listening k) s'" "0 \<le> k" for k s'
    by (rule triple_mono[OF process_events_keeps[OF assms(1) that(1)]]) (simp add: that(2))
  have renew: "upon (create_server E PORT s') (\<lambda>k s''. upon (if k < 0 then Some (Inr (True, k), s'')
       else do { (d, s) \<leftarrow> process_events E k s''; Some (Inr (d, k), s) }) (turn_ok E server))" if "server_ok E {} s'" for s'
    by (rule upon_mono[OF create_server_keeps[OF laws_fresh[OF L] that]])
       (auto intro!: upon_mono[OF triple_upon[OF turn]])
  have lost: "upon (do {
       (_, s) \<leftarrow> net_close E server s';
       (_, s) \<leftarrow> initialise_network E s;
       (k, s) \<leftarrow> create_server E PORT s;
       if k < 0 then Some (Inr (True, k), s)
       else do { (d, s) \<leftarrow> process_events E k s; Some (Inr (d, k), s) }
     }) (turn_ok E server)" if "server_ok E (listening server) s'" for s'
    apply (subst upon_bind, rule upon_mono[OF returns_upon[OF net_close_server[OF that]]], elim conjE, subst prod.case)
    apply (subst upon_bind, rule upon_mono[OF serving.network_keeps], assumption, subst prod.case)
    apply (subst upon_bind, subst prod.case, erule renew)
    done
  show ?thesis
    unfolding main_turn_def
    apply (subst triple_bind, rule triple_mono[OF triple_returns[OF serving.reset_keeps[OF assms(2)]]], elim conjE, subst prod.case)
    apply (rule triple_ifI, simp)
    apply (rule triple_ifI)
    using assms(4) apply (simp only: simp_thms triple_False lost)
    apply (simp only: triple_bind prod.case triple_simps)
    apply (rule turn, assumption)
    using assms(3) by simp
qed

lemma main_loop_ends:
  "\<forall>E down server (s :: 'z ftp_st_scheme). server_laws E \<and> server_ok E (listening server) s \<and> (down \<or> 0 \<le> server) \<longrightarrow>
    upon (main_loop E down server s) (\<lambda>k s'. server_ok E (listening k) s' \<and> reset_flag s')"
  by (rule main_loop.fixp_induct, rule loop_admissible)
     (auto intro!: upon_mono[OF triple_upon[OF main_turn_keeps[OF allows_False]]] split: sum.split)

section \<open>Start and end\<close>

lemma set_password_server:
  assumes "fresh E" "server_ok E S s" "password s = None"
  shows "upon (set_ftp_password E pw s) (\<lambda>_ s'. server_ok E S s')"
proof (cases pw)
  case None
  have "s\<lparr>password := None\<rparr> = s" using assms(3) by simp
  then show ?thesis using None assms(2) by (simp only: set_ftp_password_def assms(3) option.case upon_bind prod.case upon_simps)
next
  case (Some p)
  have c: "crowd E S (set (active s)) s" "table_ok s" using assms(2) by (auto simp: server_ok_def)
  have new: "server_ok E S (s1\<lparr>password := Some (x, p)\<rparr>)"
    if s1: "base.more s1 = base.more s" "x \<noteq> 0" "Mem x \<notin> held (trace s)" "held (trace s1) = insert (Mem x) (held (trace s))" for x s1
  proof -
    let ?s = "s1\<lparr>password := Some (x, p)\<rparr>"
    have u: "heap ?s = heap s" "viters ?s = viters s" "active ?s = active s" "clients ?s = clients s" "num_clients ?s = num_clients s"
      "VIRTUAL_PARTITIONS ?s = VIRTUAL_PARTITIONS s" "pw_res ?s = [Mem x]" "held (trace ?s) = held (trace s1)"
      using base_more_upper[OF s1(1)] by (auto simp: upper_def active_def pw_res_def)
    have oth: "others A a ?s = others A a s" for A a unfolding others_def u ..
    have "Mem x \<notin> S" using c(1) s1(3) by (auto simp: crowd_def base_ok_def)
    then have "base_ok S ?s" using c(1) s1 unfolding crowd_def base_ok_def fs_wf_def u by auto
    moreover have "member_ok E ?s a d" if "heap s a = Some d" for a d
      using crowd_member[OF c(1) that] s1(3,4) unfolding member_ok_def u by auto
    ultimately have "crowd E S (set (active s)) ?s"
      using c(1) unfolding crowd_def u oth by blast
    then show ?thesis using c(2) unfolding server_ok_def table_ok_def u by simp
  qed
  have mem: "server_ok E S (s1\<lparr>password := Some (x, p)\<rparr>)"
    if "frame mem_only s s1 \<and> (if x = 0 then held (trace s1) = held (trace s)
       else Mem x \<notin> held (trace s) \<and> held (trace s1) = insert (Mem x) (held (trace s)))" "x \<noteq> 0" for x s1
    using new[of s1 x] that by (auto dest: frame_more)
  show ?thesis
    unfolding set_ftp_password_def assms(3) Some option.case
    apply (simp only: upon_bind prod.case upon_simps)
    apply (rule upon_mono[OF returns_upon[OF malloc_returns[OF assms(1)]]])
    apply (rule upon_ifI, simp add: exit_after_def)
    apply (subst upon_simps, rule mem, assumption+)
    done
qed

text \<open>The server before a password is set.\<close>

definition ready_server :: "env \<Rightarrow> 'z ftp_st_scheme \<Rightarrow> bool" where
  "ready_server E s \<longleftrightarrow> server_ok E {} s \<and> password s = None"

interpretation starting: outer_invariant "ready_server E" for E
  by unfold_locales (auto simp: ready_server_def upper_def intro: serving.outer)

text \<open>After the shutdown: no client, no socket of the server.\<close>

definition closed :: "int \<Rightarrow> 'z ftp_st_scheme \<Rightarrow> bool" where
  "closed k s \<longleftrightarrow> heap s = Map.empty \<and> num_clients s = 0 \<and> Sock k \<notin> held (trace s)"

interpretation closing: outer_invariant "closed k" for k
  by unfold_locales (auto simp: closed_def upper_def)

lemma shutdown_returns:
  assumes "laws E" "server_ok E (listening k) s"
  shows "returns (shutdown E k s) (\<lambda>_ s'. closed k s')"
proof -
  have close: "returns (net_close E k s1) (\<lambda>_ s'. closed k s')" if "heap s1 = Map.empty" "num_clients s1 = 0" for s1
  proof -
    have "closed k s'" if "base.more s' = base.more s1" "trace s' = trace s1 @ [(CNet (Net_close k), r)]" for r s'
      using base_more_upper[OF that(1)] that(2) \<open>heap s1 = Map.empty\<close> \<open>num_clients s1 = 0\<close> by (simp add: closed_def upper_def)
    then show ?thesis
      unfolding net_close_def by (simp only: returns_bind prod.case returns_simps) (rule returns_mono[OF ext_step], blast)
  qed
  show ?thesis
    unfolding shutdown_def
    by (auto intro!: returns_mono[OF cleanup_ftp_returns[OF assms]] returns_mono[OF close]
        returns_mono[OF closing.unmounts_keep[OF laws_fresh[OF assms(1)]]] returns_mono[OF closing.stop_keeps]
        returns_mono[OF closing.neutral_keeps] closing.poweroff_keeps)
qed

lemma start_up_server:
  assumes "fresh E" "ready_server E s"
  shows "upon (start_up E argv s) (\<lambda>_ s'. server_ok E (listening (-1)) s')"
proof -
  have "upon (if length argv > 1 then set_ftp_password E (Some (argv ! 1)) s1
       else if length argv = 1 then set_password_from_executable E (argv ! 0) s1
       else Some ((), s1)) (\<lambda>_ s'. server_ok E (listening (-1)) s')" if "ready_server E s1" for s1
    unfolding set_password_from_executable_def Let_def listening_def
    using that set_password_server[OF assms(1), of "{}" s1] by (auto simp: ready_server_def)
  then show ?thesis
    unfolding start_up_def by (subst upon_bind, subst prod.case) (rule upon_mono[OF starting.initialise_keeps[OF assms(2)]])
qed

lemma main_reach_keeps:
  assumes "main_reach E argv down server s" "server_laws E" "ready_server E initial_state"
  shows "server_ok E (listening server) s \<and> (down \<or> 0 \<le> server)"
  using assms
proof induction
  case (enter s)
  have "server_ok E (listening (-1)) s"
    by (rule upon_Some[OF enter(1) start_up_server[OF laws_fresh[OF laws_of_server[OF enter(2)]] enter(3)]])
  then show ?case by simp
next
  case (turn down server s down' server' s')
  then have "turn_ok E server (Inr (down', server')) s'"
    using upon_Some[OF turn.hyps(2) triple_upon[OF main_turn_keeps[OF allows_False]]] by blast
  then show ?case by simp
qed

lemma main_closes:
  assumes "server_laws E" "ready_server E s"
  shows "upon (main E argv s) (\<lambda>r s'. r = 0 \<and> heap s' = Map.empty \<and> num_clients s' = 0)"
proof -
  note L = laws_of_server[OF assms(1)]
  show ?thesis
    unfolding main_def
    apply (subst upon_bind, rule upon_mono[OF start_up_server[OF laws_fresh[OF L] assms(2)]], subst prod.case)
    apply (subst upon_bind, rule upon_mono[OF main_loop_ends[rule_format, OF conjI[OF assms(1) conjI]]], assumption, simp, elim conjE,
      subst prod.case)
    apply (simp only: upon_bind prod.case upon_simps)
    apply (rule upon_mono[OF returns_upon[OF shutdown_returns[OF L]]], assumption)
    apply (simp add: closed_def)
    done
qed

end
