(* ===== verification/Samples.thy ===== *)
theory Samples
  imports Program
begin

text \<open>
  A world in which all laws that the properties name hold together, and states of the server in it:
  what the witnesses of the properties are evaluated in.
\<close>

text \<open>
  The clock jumps to its last value with the first pause; every path of less than a thousand
  characters is a directory, and all directories are empty; no executable can be started; the
  console's address is 192.168.0.2.
\<close>

definition wii_script :: "hist \<Rightarrow> call \<Rightarrow> reply option" where
  "wii_script h c = (case c of
       CSys Gettime \<Rightarrow> Some (ok (if naps h = 0 then 10 else 2 ^ 64 - 1))
     | CSys (Run ep) \<Rightarrow> Some (ok (-1))
     | CFile (Dirnext d) \<Rightarrow> Some (ok (-1))
     | CNet Net_gethostip \<Rightarrow> Some (ok 0xC0A80002)
     | CFile (Stat q) \<Rightarrow> Some (if length q < 1000
         then (ok 0)\<lparr>stat_out := \<lparr>st_mode = S_IFDIR, st_size = 5, st_mtime = 0\<rparr>\<rparr>
         else (ok (-1))\<lparr>err := ENOENT\<rparr>)
     | _ \<Rightarrow> None)"

definition wii :: env where
  "wii = sample_env wii_script"

lemma ok_out [simp]: "out (ok n) = 0" "stat_out (ok n) = \<lparr>st_mode = 0, st_size = 0, st_mtime = 0\<rparr>"
  by (simp_all add: ok_def)

lemma wii_fresh [simp]: "fresh wii"
  unfolding wii_def
  by (rule sample_fresh) (auto simp: wii_script_def split: call.splits net_call.splits sys_call.splits file_call.splits if_splits)

lemma wii_bounded [simp]: "write_bounded wii" "read_bounded wii"
  unfolding wii_def by (auto intro!: sample_bounded simp: wii_script_def)

lemma wii_MAXPATHLEN [simp]: "MAXPATHLEN wii = 1024"
  by (simp add: wii_def)

lemma wii_devices [simp]: "devices_ok wii"
proof -
  have tick: "secs_to_ticks wii 10 = 607500000" by (simp add: wii_def sample_env_def)
  have "clock_runs wii 1"
    unfolding clock_runs_def tick
    by (auto simp: answers_def wii_def wii_script_def)
  moreover have "lists_have_addresses wii"
    by (auto simp: lists_have_addresses_def answers_def wii_def wii_script_def)
  ultimately show ?thesis by (auto simp: devices_ok_def)
qed

lemma wii_names [simp]: "names_short wii"
  by (auto simp: names_short_def answers_def wii_def wii_script_def split: if_splits)

lemma wii_laws [simp]: "laws wii" "server_laws wii"
proof -
  show "laws wii" by (simp add: laws_def FTP_BUFFER_SIZE_def)
  moreover have "files_small wii"
    by (auto simp: files_small_def answers_def wii_def wii_script_def split: if_splits)
  ultimately show "server_laws wii" by (simp add: server_laws_def)
qed

section \<open>States\<close>

lemma initial_fs_wf [simp]: "fs_wf initial_state"
  by (simp add: fs_wf_def initial_state_def initial_partitions_def partition_entry_def fixed_part_def)

lemma initial_dialogue [simp]: "dialogue_ok initial_state"
  unfolding dialogue_ok_def by (simp add: initial_state_def del: initial_fs_wf) (simp flip: initial_state_def)

lemma initial_server_ok: "server_ok E {} initial_state"
proof -
  have "base_ok {} initial_state" unfolding base_ok_def by simp (simp add: initial_state_def pw_res_def)
  then show ?thesis
    by (simp add: server_ok_def crowd_def table_ok_def active_def) (simp add: initial_state_def)
qed

text \<open>A server with one client, whose socket is 8 and whose block has the address 7.\<close>

definition one_client :: client where
  "one_client = new_client 8 \<lparr>sin_addr = 0x0A000001, sin_port = 5000\<rparr>"

definition one_state :: ftp_st where
  "one_state = initial_state\<lparr>trace := [(CMem (Malloc 3200), ok 7), (CNet (Net_accept 3), ok 8)],
     heap := [7 \<mapsto> one_client], clients := [7, 0, 0, 0, 0], num_clients := 1\<rparr>"

lemma one_fields [simp]: "heap one_state = [7 \<mapsto> one_client]" "clients one_state = [7, 0, 0, 0, 0]"
  "num_clients one_state = 1" "held (trace one_state) = {Mem 7, Sock 8}" "password one_state = None"
  "viters one_state = Map.empty" "active one_state = [7]"
  by (simp_all add: one_state_def initial_state_def active_def held_def held_step_def insert_commute)

lemma one_wf [simp]: "fs_wf one_state"
  using initial_fs_wf by (simp add: fs_wf_def one_state_def del: initial_fs_wf)

lemma one_client_ok [simp]: "client_ok wii v one_client"
  unfolding one_client_def by (rule new_client_ok) simp_all

lemma one_belongs [simp]: "set (belongs 7 one_client) = {Mem 7, Sock 8}" "distinct (belongs 7 one_client)"
  by (auto simp: belongs_def socks_def data_res_def one_client_def new_client_def)

lemma solo_server_ok:
  assumes "heap s = [7 \<mapsto> c]" "clients s = [7, 0, 0, 0, 0]" "num_clients s = 1" "fs_wf s" "password s = None" "member_ok E s 7 c"
  shows "server_ok E {} s"
proof -
  have "others {7} 7 s = {}" by (simp add: others_def)
  then have "crowd E {} {7} s"
    using assms by (auto simp: crowd_def base_ok_def pw_res_def split: if_splits)
  then show ?thesis using assms(2,3) by (simp add: server_ok_def table_ok_def active_def MAX_CLIENTS_def)
qed

lemma one_server_ok [simp]: "server_ok wii {} one_state"
proof (rule solo_server_ok)
  show "member_ok wii one_state 7 one_client"
    by (simp add: member_ok_def pw_res_def) (simp add: buf_ok_def one_client_def new_client_def FTP_BUFFER_SIZE_def)
qed simp_all

text \<open>The same client with a download that waits for its data connection.\<close>

definition busy_client :: client where
  "busy_client = one_client\<lparr>data_socket := 9, data_callback := Some Send_from_file,
     data_connection_callback_arg := Some (Arg_file 10), data_connection_cleanup := Some Cleanup_fclose,
     data_connection_timer := 5\<rparr>"

definition busy_state :: ftp_st where
  "busy_state = one_state\<lparr>trace := trace one_state @ [(CFile (Fopen ''sd:/x'' ''rb''), ok 10), (CNet Net_socket, ok 9)],
     heap := [7 \<mapsto> busy_client]\<rparr>"

lemma busy_fields [simp]: "heap busy_state = [7 \<mapsto> busy_client]" "clients busy_state = [7, 0, 0, 0, 0]"
  "num_clients busy_state = 1" "held (trace busy_state) = {Mem 7, Sock 8, File 10, Sock 9}" "password busy_state = None"
  "viters busy_state = Map.empty" "active busy_state = [7]" "fs_wf busy_state"
  using one_wf by (auto simp: busy_state_def active_def fs_wf_def simp del: one_wf)

lemma busy_server_ok [simp]: "server_ok wii {} busy_state"
proof (rule solo_server_ok)
  have c: "client_ok wii (viters busy_state) busy_client"
    using one_client_ok[of "viters busy_state"]
    by (simp add: client_ok_def busy_client_def data_ok_def del: one_client_ok)
  have b: "set (belongs 7 busy_client) = {Mem 7, Sock 8, File 10, Sock 9}" "distinct (belongs 7 busy_client)"
    by (auto simp: belongs_def socks_def data_res_def busy_client_def one_client_def new_client_def)
  then show "member_ok wii busy_state 7 busy_client"
    using c by (simp add: member_ok_def pw_res_def) (simp add: buf_ok_def busy_client_def one_client_def new_client_def FTP_BUFFER_SIZE_def)
qed simp_all

lemma one_good [simp]: "good wii 7 {} one_state"
  using server_good[OF one_server_ok, of 7] by (simp add: rest_of_def others_def)

lemma one_idle [simp]: "idle 7 one_state"
  by (simp add: idle_def one_client_def new_client_def)

section \<open>A session\<close>

text \<open>
  The same world with a client that sends one piece of text: the first \<open>net_read\<close> gets it, nothing
  more arrives after it, and nobody else connects. (The client's own connection is the first thing
  that came, so the text is the second.)
\<close>

definition session_script :: "string \<Rightarrow> hist \<Rightarrow> call \<Rightarrow> reply option" where
  "session_script line h c = (case c of
       CNet (Net_accept k) \<Rightarrow> Some (ok (- EAGAIN))
     | CNet (Net_connect k ad) \<Rightarrow> Some (ok (- EAGAIN))
     | CNet (Net_read k n) \<Rightarrow> Some (if yield h < 2
         then (ok (int (length (take n line))))\<lparr>data := take n line\<rparr> else ok (- EAGAIN))
     | _ \<Rightarrow> wii_script h c)"

definition session :: "string \<Rightarrow> env" where
  "session line = sample_env (session_script line)"

lemma session_laws [simp]: "server_laws (session line)"
proof -
  have other: "session_script line h c = wii_script h c" if "\<not> (case c of CNet _ \<Rightarrow> True | _ \<Rightarrow> False)" for h c
    using that by (simp add: session_script_def split: call.splits)
  have fresh: "fresh (session line)"
    unfolding session_def
    by (rule sample_fresh)
       (auto simp: session_script_def wii_script_def EAGAIN_def split: call.splits sys_call.splits file_call.splits net_call.splits if_splits)
  have bounded: "write_bounded (session line)" "read_bounded (session line)"
    unfolding session_def by (auto intro!: sample_bounded simp: session_script_def wii_script_def split: if_splits)
  have same: "answers (session line) h c r \<longleftrightarrow> answers wii h c r" if "\<not> (case c of CNet _ \<Rightarrow> True | _ \<Rightarrow> False)" for h c r
    using other[OF that, of h] by (simp add: answers_def session_def wii_def)
  have ticks: "secs_to_ticks (session line) = secs_to_ticks wii" "MAXPATHLEN (session line) = MAXPATHLEN wii"
    by (simp_all add: session_def wii_def sample_env_def)
  have "devices_ok (session line)"
    using wii_devices fresh by (simp add: devices_ok_def clock_runs_def lists_have_addresses_def same ticks)
  moreover have "names_short (session line)" "files_small (session line)"
    using wii_names wii_laws(2) by (simp_all add: names_short_def files_small_def server_laws_def same ticks)
  ultimately show ?thesis using bounded by (simp add: server_laws_def laws_def ticks FTP_BUFFER_SIZE_def)
qed

lemma session_parts [simp]: "laws (session line)" "fresh (session line)" "write_bounded (session line)" "read_bounded (session line)"
  using session_laws[of line] by (auto simp: server_laws_def laws_def laws_fresh devices_ok_def simp del: session_laws)

text \<open>Of the environment, the invariant only reads the size of path arrays.\<close>

lemma server_ok_session [simp]: "server_ok (session line) S s = server_ok wii S s"
  by (simp add: server_ok_def crowd_def member_ok_def client_ok_def session_def)

text \<open>The world is a lasting one: once the text has come nothing more does.\<close>

lemma session_lasting [simp]: "lasting (session line) 2"
proof -
  have "amount (c, answer (session line) h c) = 0" if "2 \<le> yield h" for h c
    using that by (auto simp: session_def session_script_def wii_script_def amount_def ok_def EAGAIN_def
        split: call.splits net_call.splits file_call.splits sys_call.splits)
  then have "finite_world (session line) 2" by (simp add: finite_world_def)
  moreover have "process_lasts (session line)"
    using next_id_pos by (auto simp: process_lasts_def session_def session_script_def wii_script_def less_le)
  moreover have "entries_fit (session line)"
    by (auto simp: entries_fit_def session_def session_script_def wii_script_def)
  ultimately show ?thesis by (simp add: lasting_def)
qed

text \<open>The state of one client, with the listening socket 3.\<close>

definition up_state :: ftp_st where
  "up_state = one_state\<lparr>trace := trace one_state @ [(CNet Net_socket, ok 3)]\<rparr>"

lemma up_server_ok [simp]: "server_ok wii (listening 3) up_state"
  using server_obtain[OF one_server_ok, of up_state "Sock 3"]
  by (simp add: listening_def up_state_def)

section \<open>A start\<close>

text \<open>The program starts in this world: nobody presses a button, and the network is there at once.\<close>

lemma wii_idle: "\<not> reset_flag s \<Longrightarrow> returns (check_reset_synchronous wii s) (\<lambda>b s'. \<not> b \<and> \<not> reset_flag s')"
  by (simp add: check_reset_synchronous_def reset_def button_callbacks_def check_wiimote_def check_gamecube_def
      returns_ext Let_def wii_def wii_script_def)

lemma wii_gethostip: "ret (answer wii h (CNet Net_gethostip)) = 0xC0A80002"
  by (simp add: wii_def wii_script_def)

lemma wii_network:
  assumes "\<not> reset_flag s"
  shows "returns (initialise_network wii s) (\<lambda>_ s'. \<not> reset_flag s')"
proof -
  have wait: "returns (net_init_wait wii r s) (\<lambda>r s'. r = 0 \<and> \<not> reset_flag s')" if "\<not> reset_flag s" for r s
    by (subst net_init_wait.simps)
       (auto simp: returns_ext Let_def wii_def wii_script_def EAGAIN_def intro!: returns_mono[OF wii_idle[OF that, unfolded wii_def]])
  have over: "returns (net_init_loop wii 0 s) (\<lambda>r s'. r = 0 \<and> \<not> reset_flag s')" if "\<not> reset_flag s" for s
    by (subst net_init_loop.simps) (auto intro!: returns_mono[OF wii_idle[OF that]])
  have loop: "returns (net_init_loop wii (-1) s) (\<lambda>r s'. r = 0 \<and> \<not> reset_flag s')" if "\<not> reset_flag s" for s
    by (subst net_init_loop.simps)
       (auto simp: returns_ext Let_def intro!: returns_mono[OF wii_idle[OF that]] returns_mono[OF wait] over)
  have ip: "returns (gethostip_loop wii s) (\<lambda>_ s'. \<not> reset_flag s')" if "\<not> reset_flag s" for s
    by (subst gethostip_loop.simps)
       (use that in \<open>auto simp: returns_ext Let_def wii_gethostip intro!: returns_mono[OF wii_idle]\<close>)
  show ?thesis
    unfolding initialise_network_def using assms
    by (auto simp: Let_def intro!: returns_mono[OF loop] returns_mono[OF ip])
qed

lemma unreset_call: "\<not> reset_flag s \<Longrightarrow> returns (ext E c s) (\<lambda>_ s'. \<not> reset_flag s')"
  by (simp add: returns_ext Let_def)

lemma unreset_video: "\<not> reset_flag s \<Longrightarrow> returns (initialise_video E s) (\<lambda>_ s'. \<not> reset_flag s')"
proof -
  have interlaced: "returns (wait_interlaced E k s) (\<lambda>_ s'. \<not> reset_flag s')" if "\<not> reset_flag s" for k s
    unfolding wait_interlaced_def using that by (auto intro!: returns_mono[OF unreset_call])
  show "\<not> reset_flag s \<Longrightarrow> ?thesis"
    unfolding initialise_video_def Let_def
    by (simp only: returns_bind prod.case) (rule returns_mono[OF unreset_call] returns_mono[OF interlaced] interlaced | assumption)+
qed

lemma wii_starts: "returns (start_up wii [] initial_state) (\<lambda>_ s. True)"
proof -
  have flag: "\<not> reset_flag initial_state" by (simp add: initial_state_def)
  have files: "returns (initialise_fs E s) (\<lambda>_ s'. True)" for E s
    by (simp add: initialise_fs_def returns_ext Let_def)
  show ?thesis
    unfolding start_up_def initialise_ftpii_def
    apply (simp only: returns_bind prod.case)
    apply (rule returns_mono[OF unreset_video[OF flag]])
    apply (rule returns_mono[OF unreset_call] returns_mono[OF unreset_video] returns_mono[OF wii_network], assumption)+
    apply (rule returns_mono[OF files], simp)
    done
qed

end
