(* ===== verification/Effects.thy ===== *)
theory Effects
  imports Contract
begin

text \<open>
  What commands select and change: the handler that a line reaches, and the frame \<open>changed\<close> of
  a command that only touches the record of its client.
\<close>

section \<open>Dispatch\<close>

text \<open>Which handler a name selects.\<close>

lemma command_index_hit: "command_index ns cmd < length ns \<Longrightarrow> strcaseeq (ns ! command_index ns cmd) cmd"
  by (induction ns) auto

lemma nth_except: "i < length xs \<Longrightarrow> i \<noteq> k \<Longrightarrow> xs ! i \<in> set (take k xs) \<union> set (drop (Suc k) xs)"
proof (cases "i < k")
  case False
  assume "i < length xs" "i \<noteq> k"
  then have "xs ! i = drop (Suc k) xs ! (i - Suc k)" "i - Suc k < length (drop (Suc k) xs)" using False by auto
  then show ?thesis by (metis UnCI nth_mem)
qed (auto simp: in_set_conv_nth)

text \<open>What every dispatch says, over the reference splitting of the line.\<close>

lemma process_command_dispatch:
  assumes "length line < FTP_BUFFER_SIZE" "line \<noteq> []" "heap s a = Some c" "split2 line = Some (n, cmd, rest)"
  shows "process_command E a line s =
    (if authenticated c then (authenticated_handlers E ! command_index authenticated_commands cmd) a rest s
     else (unauthenticated_handlers E ! command_index unauthenticated_commands cmd) a rest s)"
  using assms by (simp add: process_command_def deref_def dispatch_to_handler_def)

section \<open>Replies\<close>

lemma reply_sends:
  assumes "heap s a = Some c" "write_bounded E" "is_code n"
  shows "returns (write_reply E a n msg s) (\<lambda>r s'. net_frame (sock_io (socket c)) s s' \<and>
    transfer_result sent (socket c) (reply_text n msg) (trace s) r (trace s'))"
  unfolding write_reply_def deref_def assms(1) option.case
  by (auto simp: reply_length[OF assms(3)] intro!: returns_mono[OF send_exact_returns[OF assms(2)]])

section \<open>Changing one client\<close>

text \<open>The calls on the client's own sockets, without reading or opening any.\<close>

definition session_io :: "client \<Rightarrow> call \<Rightarrow> bool" where
  "session_io c x \<longleftrightarrow> sock_io (socket c) x \<or>
     0 \<le> passive_socket c \<and> (sock_io (passive_socket c) x \<or> x = CNet (Net_close (passive_socket c)))"

text \<open>Between the states only such calls were made, and only the record of the client \<open>a\<close> changed, to \<open>c'\<close>.\<close>

definition changed :: "(call \<Rightarrow> bool) \<Rightarrow> int \<Rightarrow> client \<Rightarrow> 'z ftp_st_scheme \<Rightarrow> 'z ftp_st_scheme \<Rightarrow> bool" where
  "changed C a c' s s' \<longleftrightarrow> logs C s s' \<and> net_st.more s' = net_st.more (s\<lparr>heap := (heap s)(a \<mapsto> c')\<rparr>) \<and>
     reset_flag s' = reset_flag s \<and> power_flag s' = power_flag s"

lemma changed_heap: "changed C a c' s s' \<Longrightarrow> heap s' = (heap s)(a \<mapsto> c')"
  unfolding changed_def by (elim conjE, drule net_more_upper) (simp add: upper_def)

lemma changed_refl: "heap s a = Some c \<Longrightarrow> changed C a c s s"
  by (cases s) (auto simp: changed_def fun_upd_idem)

lemma changed_net_frame: "changed C a c' s s1 \<Longrightarrow> net_frame C s1 s' \<Longrightarrow> changed C a c' s s'"
  by (auto simp: changed_def net_frame_def intro: logs_trans)

lemma changed_modify:
  assumes "changed C a c1 s s1"
  shows "returns (modify a f s1) (\<lambda>_ s'. changed C a (f c1) s s')"
proof -
  have "net_st.more (s1\<lparr>heap := (heap s1)(a \<mapsto> f c1)\<rparr>) = net_st.more (s\<lparr>heap := (heap s)(a \<mapsto> f c1)\<rparr>)"
    using assms changed_heap[OF assms] by (cases s; cases s1) (simp add: changed_def)
  then show ?thesis
    using assms changed_heap[OF assms] by (auto simp: changed_def modify_def logs_def)
qed

lemma changed_reply:
  assumes "changed C a c1 s s1" "write_bounded E" "is_code k" "\<And>x. sock_io (socket c1) x \<Longrightarrow> C x"
  shows "returns (write_reply E a k msg s1) (\<lambda>_ s'. changed C a c1 s s')"
  unfolding write_reply_def deref_def changed_heap[OF assms(1)]
  by (auto simp: reply_length[OF assms(3)]
      intro!: returns_mono[OF send_exact_returns[OF assms(2)]] changed_net_frame[OF assms(1)] net_frame_mono[OF _ assms(4)])

lemma changed_close_passive:
  assumes "changed (session_io c) a c s s1"
  shows "returns (close_passive_socket E a s1) (\<lambda>_ s'.
    changed (session_io c) a (c\<lparr>passive_socket := if 0 \<le> passive_socket c then -1 else passive_socket c\<rparr>) s s')"
proof -
  have close: "returns (net_close_blocking E k s1) (\<lambda>_ s'. frame (session_io c) s1 s')" if "k = passive_socket c" "0 \<le> k" for k
    unfolding net_close_blocking_def net_close_def
    using that by (auto intro!: returns_mono[OF set_blocking_returns] returns_mono[OF ext_frame[where C = "session_io c"]]
        simp: session_io_def elim!: frame_trans[rotated] elim: frame_mono)
  show ?thesis
    unfolding close_passive_socket_def deref_def changed_heap[OF assms]
    using assms
    by (auto intro!: returns_mono[OF close] returns_mono[OF changed_modify] changed_net_frame[OF assms] frame_net_frame)
qed

section \<open>Talking without a change\<close>

text \<open>Only calls that satisfy \<open>C\<close> were made, no client changed, and nothing was obtained or released.\<close>

definition talks :: "(call \<Rightarrow> bool) \<Rightarrow> 'z ftp_st_scheme \<Rightarrow> 'z ftp_st_scheme \<Rightarrow> bool" where
  "talks C s s' \<longleftrightarrow> logs C s s' \<and> heap s' = heap s \<and> held (trace s') = held (trace s)"

lemma talks_refl [simp, intro]: "talks C s s"
  by (simp add: talks_def)

lemma talks_trans [trans]: "talks C s s1 \<Longrightarrow> talks C s1 s2 \<Longrightarrow> talks C s s2"
  by (auto simp: talks_def intro: logs_trans)

lemma talks_net_frame:
  assumes "net_frame (sock_io k) s s'" "\<And>x. sock_io k x \<Longrightarrow> C x"
  shows "talks C s s'"
  using net_frame_upper(1,3)[OF assms(1)] logs_mono[of "sock_io k" s s' C] assms
  by (auto simp: talks_def upper_def net_frame_def)

lemma talks_keeps: "keeps s s' \<Longrightarrow> (\<And>x. path_io x \<Longrightarrow> C x) \<Longrightarrow> talks C s s'"
  using base_more_upper[of s' s] by (auto simp: talks_def keeps_def frame_def upper_def intro: logs_mono)

lemma talks_ext:
  assumes "talks C s s1" "neutral c" "C c"
  shows "returns (ext E c s1) (\<lambda>_ s'. talks C s s')"
proof (rule returns_mono[OF ext_neutral[where C = C]], rule assms(2), rule assms(3), elim conjE)
  fix s' assume f: "frame C s1 s'" "held (trace s') = held (trace s1)"
  have "heap s' = heap s1" using base_more_upper[OF frame_more[OF f(1)]] by (simp add: upper_def)
  then have "talks C s1 s'" using f by (simp add: talks_def frame_def)
  then show "talks C s s'" by (rule talks_trans[OF assms(1)])
qed

lemma talks_reply:
  assumes "talks C s s1" "heap s a = Some c" "write_bounded E" "is_code n" "\<And>x. sock_io (socket c) x \<Longrightarrow> C x"
  shows "returns (write_reply E a n msg s1) (\<lambda>_ s'. talks C s s')"
proof -
  have "heap s1 a = Some c" using assms(1,2) by (simp add: talks_def)
  from reply_sends[OF this assms(3,4)] show ?thesis
    by (rule returns_mono) (blast intro: talks_trans[OF assms(1)] talks_net_frame assms(5))
qed

lemma talks_error:
  assumes "talks C s s1" "heap s a = Some c" "write_bounded E" "is_code n" "\<And>x. sock_io (socket c) x \<Longrightarrow> C x" "C (CSys (Strerror m))"
  shows "returns (write_error E a n m s1) (\<lambda>_ s'. talks C s s')"
  unfolding write_error_def strerror_def
  by (simp only: returns_bind prod.case returns_simps)
    (rule returns_mono[OF talks_ext[OF assms(1) _ assms(6)]], simp, erule talks_reply[OF _ assms(2-5)])

text \<open>A peer that takes everything gets the whole reply.\<close>

lemma set_blocking_more: "returns (set_blocking E k b s) (\<lambda>_ s'. base.more s' = base.more s)"
  by (rule returns_mono[OF set_blocking_returns]) (auto dest: frame_more)

lemma send_all:
  assumes "write_bounded E" "\<And>h b. ret (answer E h (CNet (Net_write k b))) = int (length b)"
    "bs \<noteq> []" "length bs \<le> unat (NET_BUFFER_SIZE s)"
  shows "returns (send_exact E k bs s) (\<lambda>r s'. r = 0 \<and> NET_BUFFER_SIZE s' = NET_BUFFER_SIZE s \<and> net_frame (sock_io k) s s')"
proof -
  have nbs: "NET_BUFFER_SIZE s' = NET_BUFFER_SIZE s1" if "base.more s' = base.more s1" for s' s1 :: "'a net_st_scheme"
    using base_more_net[OF that] by simp
  have loop: "returns (transfer_loop E (\<lambda>k b. CNet (Net_write k b)) k bs s1)
      (\<lambda>r s'. r = 0 \<and> NET_BUFFER_SIZE s' = NET_BUFFER_SIZE s)" if "NET_BUFFER_SIZE s1 = NET_BUFFER_SIZE s" for s1
    by (subst transfer_loop.simps) (use assms(2-4) that in \<open>simp add: returns_ext Let_def transfer_loop.simps[of E _ k "[]"]\<close>)
  have "returns (send_exact E k bs s) (\<lambda>r s'. r = 0 \<and> NET_BUFFER_SIZE s' = NET_BUFFER_SIZE s)"
    unfolding send_exact_def transfer_exact_def
    apply (simp only: returns_bind prod.case returns_simps)
    apply (rule returns_mono[OF set_blocking_more], drule nbs)
    apply (rule returns_mono[OF loop], assumption, elim conjE)
    apply (rule returns_mono[OF set_blocking_more], drule nbs)
    apply simp
    done
  from returns_conj[OF this returns_upon[OF send_exact_returns[OF assms(1)]]] show ?thesis
    by (rule returns_mono) auto
qed

lemma reply_all:
  assumes "heap s a = Some c" "write_bounded E" "is_code n" "\<And>h b. ret (answer E h (CNet (Net_write (socket c) b))) = int (length b)"
    "length (reply_text n msg) \<le> unat (NET_BUFFER_SIZE s)" "\<And>x. sock_io (socket c) x \<Longrightarrow> C x"
  shows "returns (write_reply E a n msg s) (\<lambda>r s'. r = 0 \<and> NET_BUFFER_SIZE s' = NET_BUFFER_SIZE s \<and> talks C s s')"
proof -
  have "reply_text n msg \<noteq> []" using reply_length[OF assms(3), of msg] by auto
  from send_all[OF assms(2,4) this assms(5)] show ?thesis
    unfolding write_reply_def deref_def assms(1) option.case
    by (simp add: reply_length[OF assms(3)]) (erule returns_mono, blast intro: talks_net_frame assms(6))
qed


section \<open>Starting a transfer\<close>

text \<open>
  Between the states the client \<open>a\<close> got no other callback than \<open>f\<close>; with it came the argument \<open>x\<close>, the
  cleanup function and thirty seconds from a time that the clock said.
\<close>

definition starts :: "env \<Rightarrow> int \<Rightarrow> data_callback \<Rightarrow> client option \<Rightarrow> client option \<Rightarrow> bool" where
  "starts E a f c c' \<longleftrightarrow>
     map_option (\<lambda>d. (data_callback d, data_connection_timer d)) c' = map_option (\<lambda>d. (data_callback d, data_connection_timer d)) c \<or>
     (\<exists>d t h. c' = Some d \<and> data_callback d = Some f \<and> answers E h (CSys Gettime) t \<and>
        data_connection_timer d = word_of_int (ret t) + secs_to_ticks E 30)"

lemma starts_refl [simp]: "starts E a f c c"
  by (simp add: starts_def)

lemma ext_heap: "upon (ext E c s) (\<lambda>_ s'. heap s' = heap s)"
  using base_more_upper by (intro upon_mono[OF returns_upon[OF ext_law]]) (auto simp: upper_def)

lemma ext_on_heap: "upon (ext_on x E c s) (\<lambda>_ s'. heap s' = heap s)"
  by (rule upon_ext_on[OF ext_heap])

lemma reply_heap:
  assumes "write_bounded E"
  shows "upon (write_reply E a n msg s) (\<lambda>_ s'. heap s' = heap s)"
  unfolding write_reply_def deref_def
  by (auto simp: upper_def split: option.splits intro!: upon_mono[OF returns_upon[OF send_exact_returns[OF assms]]] dest: net_frame_upper)

lemma error_heap: "write_bounded E \<Longrightarrow> upon (write_error E a n m s) (\<lambda>_ s'. heap s' = heap s)"
  unfolding write_error_def strerror_def
  by (auto intro!: upon_mono[OF ext_heap] upon_mono[OF reply_heap])

lemma dirclose_heap: "upon (vrt_dirclose E d s) (\<lambda>_ s'. heap s' = heap s)"
  unfolding vrt_dirclose_def free_def
  by (auto split: dir_iter.splits option.splits intro!: upon_mono[OF ext_on_heap])

lemma fclose_heap: "upon (fclose E f s) (\<lambda>_ s'. heap s' = heap s)"
  unfolding fclose_def by (auto intro!: upon_mono[OF ext_on_heap])

lemma socket_heap: "upon (set_blocking E k b s) (\<lambda>_ s'. heap s' = heap s)" "upon (net_close E k s) (\<lambda>_ s'. heap s' = heap s)"
  unfolding set_blocking_def net_close_def
  by (auto simp: Let_def intro!: upon_mono[OF ext_heap])

lemma starts_modify:
  "starts E a f c (heap s a) \<Longrightarrow> (\<And>d. data_callback (g d) = data_callback d \<and> data_connection_timer (g d) = data_connection_timer d) \<Longrightarrow>
   upon (modify a g s) (\<lambda>_ s'. starts E a f c (heap s' a))"
  unfolding modify_def starts_def by (cases "heap s a") auto

lemma deref_same: "upon (deref a s) (\<lambda>c s'. s' = s)"
  by (simp add: deref_def split: option.split)

lemma prepare_starts:
  assumes "write_bounded E"
  shows "upon (prepare_data_connection E a f x cl s) (\<lambda>_ s'. starts E a f (heap s a) (heap s' a))"
proof -
  have open_: "upon (if passive_socket c \<ge> 0 then prepare_data_connection_passive E a s1 else prepare_data_connection_active E a s1)
      (\<lambda>_ s'. starts E a f (heap s a) (heap s' a))" if "heap s1 = heap s" for c s1
    unfolding prepare_data_connection_passive_def prepare_data_connection_active_def Let_def
    using that by (auto intro!: upon_mono[OF ext_heap] upon_mono[OF socket_heap(1)] upon_mono[OF socket_heap(2)] starts_modify)
  have set_: "upon (modify a (\<lambda>c. c\<lparr>data_connection_connected := False, data_callback := Some f,
             data_connection_callback_arg := Some x, data_connection_cleanup := Some cl,
             data_connection_timer := word_of_int (ret t) + secs_to_ticks E 30\<rparr>) s1) (\<lambda>_ s'. starts E a f (heap s a) (heap s' a))"
    if "answers E h (CSys Gettime) t" for t h s1
    using that unfolding modify_def by (auto simp: starts_def split: option.splits)
  have reply: "upon (write_reply E a n msg s1) (\<lambda>_ s'. starts E a f (heap s a) (heap s' a))"
    if "starts E a f (heap s a) (heap s1 a)" for n msg s1
    using that by (auto intro!: upon_mono[OF reply_heap[OF assms]])
  show ?thesis
    unfolding prepare_data_connection_def gettime_def
    apply (simp only: upon_bind prod.case upon_simps)
    apply (rule upon_mono[OF reply_heap[OF assms]], rule upon_ifI, simp)
    apply (simp only: upon_bind prod.case upon_simps)
    apply (rule upon_mono[OF deref_same], hypsubst)
    apply (rule upon_mono[OF open_], assumption, rule upon_ifI, erule reply)
    apply (simp only: upon_bind prod.case upon_simps)
    apply (rule upon_mono[OF returns_upon[OF ext_law]], elim conjE, erule set_)
    done
qed

lemma starts_of: "heap s = heap s0 \<Longrightarrow> starts E a f (heap s0 a) (heap s a)"
  by simp

lemma starts_heap: "upon m (\<lambda>_ s'. heap s' = heap s1) \<Longrightarrow> starts E a f c (heap s1 a) \<Longrightarrow> upon m (\<lambda>_ s'. starts E a f c (heap s' a))"
  by (erule upon_mono) simp

lemma open_listing_starts:
  assumes "write_bounded E" "fresh E" "fs_wf s"
  shows "upon (open_listing E a p f s) (\<lambda>_ s'. starts E a f (heap s a) (heap s' a))"
proof -
  have dir: "upon (vrt_diropen E d q s) (\<lambda>_ s'. heap s' = heap s)" for d q
    by (rule upon_mono[OF returns_upon[OF vrt_diropen_returns[OF assms(2,3)]]])
       (auto simp: diropen_result_def dest: vframe_fields)
  have go: "upon (prepare_data_connection E a f (Arg_dir d) Cleanup_dirclose s1) (\<lambda>r s2.
      upon (if r < 0 then do { (_, s) \<leftarrow> vrt_dirclose E d s2; Some (r, s) } else Some (r, s2)) (\<lambda>_ s'. starts E a f (heap s a) (heap s' a)))"
    if "heap s1 = heap s" for d s1
    by (rule upon_mono[OF prepare_starts[OF assms(1)]]) (auto simp: that intro!: upon_mono[OF dirclose_heap])
  show ?thesis
    unfolding open_listing_def
    apply (simp only: upon_bind prod.case)
    apply (rule upon_mono[OF deref_same], hypsubst, rule upon_mono[OF dir])
    subgoal for c s2 d s1
      by (cases d) (simp add: starts_heap[OF error_heap[OF assms(1)]], simp only: option.case upon_bind prod.case, rule go[unfolded upon_bind prod.case])
    done
qed

lemma fopen_heap: "fresh E \<Longrightarrow> fs_wf s \<Longrightarrow> upon (vrt_fopen E d p m s) (\<lambda>_ s'. heap s' = heap s)"
  using base_more_upper by (intro upon_mono[OF returns_upon[OF vrt_fopen_returns]]) (auto simp: upper_def dest: frame_more)

lemma seek_heap: "upon (seek_fails E f m s) (\<lambda>_ s'. heap s' = heap s)"
  unfolding seek_fails_def by (auto intro!: upon_mono[OF ext_on_heap])

lemma transfer_starts:
  assumes "write_bounded E"
  shows "upon (transfer_file E a f p s) (\<lambda>_ s'. starts E a f (heap s a) (heap s' a))"
  unfolding transfer_file_def
  by (auto intro!: upon_mono[OF prepare_starts[OF assms]] upon_mono[OF fclose_heap])

lemma seek_error_starts:
  assumes "write_bounded E" "heap s = heap s0"
  shows "upon (seek_error E a p s) (\<lambda>_ s'. starts E a f (heap s0 a) (heap s' a))"
  unfolding seek_error_def Let_def
  by (auto intro!: upon_mono[OF fclose_heap] upon_mono[OF starts_modify] starts_heap[OF error_heap[OF assms(1)]] simp: assms(2))

text \<open>After the restart marker is taken back.\<close>

lemma starts_chain:
  assumes "starts E a f c d" "starts E a f d e"
  shows "starts E a f c e"
proof (cases "map_option (\<lambda>d. (data_callback d, data_connection_timer d)) e = map_option (\<lambda>d. (data_callback d, data_connection_timer d)) d")
  case True
  from assms(1) show ?thesis
  proof (unfold starts_def, elim disjE exE conjE, goal_cases)
    case (2 x t h)
    with True obtain z where "e = Some z" "data_callback z = Some f" "data_connection_timer z = data_connection_timer x" by auto
    with 2 show ?case by auto
  qed (simp add: True)
next
  case False
  with assms(2) show ?thesis unfolding starts_def by blast
qed

lemma starts_trans:
  "starts E a f c (heap s a) \<Longrightarrow> upon m (\<lambda>_ s'. starts E a f (heap s a) (heap s' a)) \<Longrightarrow> upon m (\<lambda>_ s'. starts E a f c (heap s' a))"
  by (erule upon_mono) (rule starts_chain)

lemma stor_or_append_starts:
  assumes "write_bounded E" "starts E a Recv_to_file c (heap s a)"
  shows "upon (stor_or_append E a p s) (\<lambda>_ s'. starts E a Recv_to_file c (heap s' a))"
  unfolding stor_or_append_def
  using starts_trans[OF assms(2) transfer_starts[OF assms(1)]] by (auto intro!: starts_heap[OF error_heap[OF assms(1)] assms(2)])

lemma data_commands_start:
  assumes "write_bounded E" "fresh E" "fs_wf s"
  shows "upon (ftp_NLST E a v s) (\<lambda>_ s'. starts E a Send_nlst (heap s a) (heap s' a))"
    "upon (ftp_LIST E a v s) (\<lambda>_ s'. starts E a Send_list (heap s a) (heap s' a))"
    "upon (ftp_RETR E a v s) (\<lambda>_ s'. starts E a Send_from_file (heap s a) (heap s' a))"
    "upon (ftp_STOR E a v s) (\<lambda>_ s'. starts E a Recv_to_file (heap s a) (heap s' a))"
    "upon (ftp_APPE E a v s) (\<lambda>_ s'. starts E a Recv_to_file (heap s a) (heap s' a))"
proof -
  note list = open_listing_starts[OF assms] and bad = seek_error_starts[OF assms(1)]
  show "upon (ftp_NLST E a v s) (\<lambda>_ s'. starts E a Send_nlst (heap s a) (heap s' a))"
    unfolding ftp_NLST_def by (rule list)
  show "upon (ftp_LIST E a v s) (\<lambda>_ s'. starts E a Send_list (heap s a) (heap s' a))"
    unfolding ftp_LIST_def by (cases "split2 v") (auto intro!: list)
  have transfer: "upon (modify a (\<lambda>c. c\<lparr>restart_marker := 0\<rparr>) s1) (\<lambda>_ s2. upon (transfer_file E a f p s2)
      (\<lambda>_ s'. starts E a f (heap s a) (heap s' a)))" if "heap s1 = heap s" for f p s1
    by (rule upon_mono[OF starts_modify[of E a f "heap s a"]])
      (use that in \<open>auto intro: starts_trans[OF _ transfer_starts[OF assms(1)]]\<close>)
  have store: "upon (modify a (\<lambda>c. c\<lparr>restart_marker := 0\<rparr>) s1) (\<lambda>_ s2. upon (stor_or_append E a p s2)
      (\<lambda>_ s'. starts E a Recv_to_file (heap s a) (heap s' a)))" if "heap s1 = heap s" for p s1
    by (rule upon_mono[OF starts_modify[of E a Recv_to_file "heap s a"]])
      (use that in \<open>auto intro: stor_or_append_starts[OF assms(1)]\<close>)
  show "upon (ftp_RETR E a v s) (\<lambda>_ s'. starts E a Send_from_file (heap s a) (heap s' a))"
    unfolding ftp_RETR_def
    apply (simp only: upon_bind prod.case)
    apply (rule upon_mono[OF deref_same], hypsubst, rule upon_mono[OF fopen_heap[OF assms(2,3)]], rule upon_ifI)
     apply (rule starts_heap[OF error_heap[OF assms(1)]], simp)
    apply (simp only: upon_bind prod.case)
    apply (rule upon_mono[OF seek_heap], rule upon_ifI)
     apply (rule bad, simp)
    apply (simp only: upon_bind prod.case)
    apply (rule transfer, simp)
    done
  show "upon (ftp_APPE E a v s) (\<lambda>_ s'. starts E a Recv_to_file (heap s a) (heap s' a))"
    unfolding ftp_APPE_def
    by (simp only: upon_bind prod.case)
      (rule upon_mono[OF deref_same], hypsubst, rule upon_mono[OF fopen_heap[OF assms(2,3)]],
        rule stor_or_append_starts[OF assms(1)], simp)
  have seek: "upon (if p = 0 then Some (False, s1) else seek_fails E p m s1) (\<lambda>_ s2. heap s2 = heap s)"
    if "heap s1 = heap s" for p m s1
    using that by (auto intro: upon_mono[OF seek_heap])
  show "upon (ftp_STOR E a v s) (\<lambda>_ s'. starts E a Recv_to_file (heap s a) (heap s' a))"
    unfolding ftp_STOR_def
    apply (simp only: upon_bind prod.case)
    apply (rule upon_mono[OF deref_same], hypsubst, rule upon_mono[OF fopen_heap[OF assms(2,3)]])
    apply (rule upon_mono[OF seek], assumption, rule upon_ifI)
     apply (rule bad, assumption)
    apply (simp only: upon_bind prod.case)
    apply (rule store, assumption)
    done
qed

end
