(* ===== verification/Listing_Properties.thy ===== *)
theory Listing_Properties
  imports Samples Effects
begin

text \<open>
  What the listings of \<open>NLST\<close> and \<open>LIST\<close> send: the lines for the entries that the directory has named.
\<close>

section \<open>Entries of a directory in the history\<close>







section \<open>Results of a listing\<close>







section \<open>The loops\<close>










section \<open>The virtual root\<close>




















section \<open>The property\<close>






end
