(* ===== verification/Naming.thy ===== *)
theory Naming
  imports Vrt
begin

text \<open>
  What the operations on virtual paths do with their argument: the real path that it stands for, the
  one call that is made on it, and, when memory does not run out, what the result then depends on.
\<close>

section \<open>The real path of a virtual one\<close>

text \<open>
  A relative path is made absolute in a block of \<open>MAXPATHLEN\<close> characters at most. The virtual root
  stands for the empty string, all other paths for a path on a device that fits \<open>MAXPATHLEN\<close>.
\<close>

definition too_long :: "env \<Rightarrow> string \<Rightarrow> string \<Rightarrow> bool" where
  "too_long E cwd p \<longleftrightarrow> \<not> (p \<noteq> [] \<and> hd p = CHR ''/'') \<and> MAXPATHLEN E < length cwd + length p + 1"

definition stands_for :: "env \<Rightarrow> string \<Rightarrow> string \<Rightarrow> string \<Rightarrow> bool" where
  "stands_for E cwd p q \<longleftrightarrow> CHR '':'' \<notin> set p \<and> \<not> too_long E cwd p \<and>
     (if abspath cwd p = ''/'' then q = [] else real_of initial_partitions (abspath cwd p) q \<and> length q < MAXPATHLEN E)"

definition plenty :: "env \<Rightarrow> bool" where
  "plenty E \<longleftrightarrow> (\<forall>h n. ret (answer E h (CMem (Malloc n))) \<noteq> 0)"

lemma plentyD: "plenty E \<Longrightarrow> answers E h (CMem (Malloc n)) r \<Longrightarrow> ret r \<noteq> 0"
  by (simp add: plenty_def answers_def)

lemma real_of_unique: "real_of vs q r \<Longrightarrow> real_of vs q r' \<Longrightarrow> r = r'"
  by (auto simp: real_of_def)

lemma real_of_wf: "fs_wf s \<Longrightarrow> real_of (VIRTUAL_PARTITIONS s) = real_of initial_partitions"
  by (simp add: fun_eq_iff real_of_def find_prefix_wf)

lemma real_of_not_Nil: "real_of initial_partitions q r \<Longrightarrow> r \<noteq> []"
  by (auto simp: real_of_def dest!: find_prefix_SomeD dest: initial_prefix)

lemma stands_for_unique: "stands_for E cwd p q \<Longrightarrow> stands_for E cwd p q' \<Longrightarrow> q = q'"
  by (auto simp: stands_for_def real_of_unique split: if_splits)

lemma stands_for_root: "stands_for E cwd p [] \<Longrightarrow> abspath cwd p = ''/''"
  using real_of_not_Nil by (auto simp: stands_for_def split: if_splits)

lemma stands_for_real_call: "fs_wf s \<Longrightarrow> stands_for E cwd p q \<Longrightarrow> q \<noteq> [] \<Longrightarrow> real_call s cwd p q"
  by (auto simp: stands_for_def real_call_def real_of_wf split: if_splits)

section \<open>What is decided\<close>

lemma malloc_decides: "upon (malloc E n s) (\<lambda>p _. plenty E \<longrightarrow> p \<noteq> 0)"
  unfolding malloc_def
  by (auto intro!: upon_mono[OF returns_upon[OF ext_law]] dest: plentyD)

lemma virtual_abspath_decides:
  assumes "fresh E"
  shows "upon (virtual_abspath E cwd p s) (\<lambda>v _. v = Null \<longrightarrow> too_long E cwd p \<or> \<not> plenty E) \<and>
    upon (virtual_abspath E cwd p s) (\<lambda>v _. v \<noteq> Null \<longrightarrow> \<not> too_long E cwd p)"
  unfolding virtual_abspath_def too_long_def Let_def
  by (auto intro!: upon_mono[OF malloc_decides] upon_mono[OF free_upon])

lemma to_real_path_decides:
  assumes "fresh E" "fs_wf s"
  shows "upon (to_real_path E cwd p s) (\<lambda>v _. case v of
      Null \<Rightarrow> plenty E \<longrightarrow> (\<nexists>q. stands_for E cwd p q)
    | Static q \<Rightarrow> stands_for E cwd p q | Heap a q \<Rightarrow> stands_for E cwd p q)"
proof (cases "CHR '':'' \<in> set p")
  case True
  then show ?thesis by (simp add: to_real_path_def stands_for_def)
next
  case False
  let ?s = "set_errno ENOENT s"
  let ?P = "\<lambda>v. case v of Null \<Rightarrow> plenty E \<longrightarrow> (\<nexists>q. stands_for E cwd p q)
    | Static q \<Rightarrow> stands_for E cwd p q | Heap a q \<Rightarrow> stands_for E cwd p q"
  note abs = upon_conj[OF upon_conj[OF conjunct1[OF virtual_abspath_decides[OF assms(1)]] conjunct2[OF virtual_abspath_decides[OF assms(1)]]]
      returns_upon[OF virtual_abspath_returns[OF assms(1)]], of cwd p ?s]
  show ?thesis
    unfolding to_real_path_def Let_def
    apply (simp only: False if_False upon_bind prod.case)
    apply (rule upon_mono[OF abs], elim conjE)
    subgoal for v s1
    proof (cases v)
      case (Heap a q)
      assume v: "v \<noteq> Null \<longrightarrow> \<not> too_long E cwd p" and fr: "frame mem_only ?s s1"
        and h: "case v of Null \<Rightarrow> held (trace s1) = held (trace ?s) | Static x \<Rightarrow> False
            | Heap a q \<Rightarrow> a \<noteq> 0 \<and> q = abspath cwd p \<and> Mem a \<notin> held (trace ?s) \<and> held (trace s1) = insert (Mem a) (held (trace ?s))"
      have "fs_wf s1" using fs_wf_more[OF assms(2), of s1] frame_more[OF fr] by simp
      note find = find_prefix_wf[OF this]
      have q: "q = abspath cwd p" "\<not> too_long E cwd p" using h v Heap by simp_all
      show ?thesis
        unfolding Heap cstr.case find
        using False q
        by (auto simp: stands_for_def real_of_def split: option.splits
            intro!: upon_mono[OF free_upon] upon_mono[OF malloc_decides])
    qed (use False in \<open>auto simp: stands_for_def\<close>)
    done
qed

text \<open>\<open>called s c r s'\<close>: the call \<open>c\<close> was made between the two states and answered by \<open>r\<close>.\<close>

definition called :: "'z base_scheme \<Rightarrow> call \<Rightarrow> reply \<Rightarrow> 'z base_scheme \<Rightarrow> bool" where
  "called s c r s' \<longleftrightarrow> (\<exists>g. trace s' = trace s @ g \<and> (c, r) \<in> set g)"

lemma called_wider: "extends s s1 \<Longrightarrow> called s1 c r s2 \<Longrightarrow> extends s2 s' \<Longrightarrow> called s c r s'"
  by (fastforce simp: called_def logs_def)

lemma called_snoc: "trace s' = trace s @ [(c, r)] \<Longrightarrow> called s c r s'"
  by (simp add: called_def)

lemma with_virtual_path_decides:
  assumes "fresh E" "fs_wf s"
  shows "upon (with_virtual_path E cwd f p failed s) (\<lambda>r s'.
    r = ok failed \<and> (plenty E \<longrightarrow> (\<forall>q. stands_for E cwd p q \<longrightarrow> q = [])) \<or>
    (\<exists>q h. stands_for E cwd p q \<and> q \<noteq> [] \<and> answers E h (CFile (f q)) r \<and> called s (CFile (f q)) r s'))"
proof -
  have call: "upon (ext E (CFile (f q)) s1) (\<lambda>r s2. upon (free E a s2) (\<lambda>_ s'.
      r = ok failed \<and> (plenty E \<longrightarrow> (\<forall>q. stands_for E cwd p q \<longrightarrow> q = [])) \<or>
      (\<exists>q h. stands_for E cwd p q \<and> q \<noteq> [] \<and> answers E h (CFile (f q)) r \<and> called s (CFile (f q)) r s')))"
    if "extends s s1" "stands_for E cwd p q" "q \<noteq> []" for s1 q a
    by (rule upon_mono[OF returns_upon[OF ext_law]], elim conjE, rule upon_mono[OF free_upon], elim conjE)
       (use that in \<open>blast intro: called_wider called_snoc frame_extends\<close>)
  show ?thesis
    unfolding with_virtual_path_def
    apply (simp only: upon_bind prod.case)
    apply (rule upon_mono[OF upon_conj[OF to_real_path_decides[OF assms] returns_upon[OF to_real_path_returns[OF assms]]]], elim conjE)
    subgoal for v s1
      using call[of s1] stands_for_unique[of E cwd p]
      by (cases v) (auto elim!: upon_mono dest!: frame_extends)
    done
qed

section \<open>What the calls are\<close>

text \<open>
  \<open>acts\<close>: no calls but memory management and the file function on the real path of the argument, and
  the result is that call's answer unless it is \<open>failed\<close>.
\<close>

definition acts :: "'z fs_st_scheme \<Rightarrow> string \<Rightarrow> string \<Rightarrow> (string \<Rightarrow> file_call) \<Rightarrow> int \<Rightarrow> int \<Rightarrow> 'z fs_st_scheme \<Rightarrow> bool" where
  "acts s cwd p f failed r s' \<longleftrightarrow> frame (touches s cwd p f) s s' \<and>
     (r = failed \<or> (\<exists>q a. real_call s cwd p q \<and> called s (CFile (f q)) a s' \<and> ret a = r))"

lemma with_virtual_path_acts:
  assumes "fresh E" "fs_wf s" "\<And>q. releases (CFile (f q)) = {}"
  shows "returns (with_virtual_path E cwd f p failed s) (\<lambda>r s'. acts s cwd p f failed (ret r) s')"
  by (rule returns_mono[OF returns_conj[OF with_virtual_path_returns[OF assms(1,3,2)] with_virtual_path_decides[OF assms(1,2)]]])
    (auto simp: acts_def dest: stands_for_real_call[OF assms(2)])

lemma vrt_unlink_acts:
  assumes "fresh E" "fs_wf s"
  shows "returns (vrt_unlink E cwd p s) (\<lambda>r s'. acts s cwd p Unlink (-1) r s' \<and> held (trace s') = held (trace s))"
  unfolding vrt_unlink_def
  using returns_conj[OF with_virtual_path_acts[OF assms, of Unlink cwd p "-1"]
      returns_upon[OF neutral_path_returns[OF assms, of Unlink cwd p "-1"]]]
  by (auto elim!: returns_mono)

lemma vrt_mkdir_acts:
  assumes "fresh E" "fs_wf s"
  shows "returns (vrt_mkdir E cwd p m s) (\<lambda>r s'. acts s cwd p (\<lambda>q. Mkdir q m) (-1) r s' \<and> held (trace s') = held (trace s))"
  unfolding vrt_mkdir_def
  using returns_conj[OF with_virtual_path_acts[OF assms, of "\<lambda>q. Mkdir q m" cwd p "-1"]
      returns_upon[OF neutral_path_returns[OF assms, of "\<lambda>q. Mkdir q m" cwd p "-1"]]]
  by (auto elim!: returns_mono)

lemma vrt_fopen_acts:
  assumes "fresh E" "fs_wf s"
  shows "returns (vrt_fopen E cwd p m s) (\<lambda>r s'. acts s cwd p (\<lambda>q. Fopen q m) 0 r s')"
  unfolding vrt_fopen_def
  using with_virtual_path_acts[OF assms, of "\<lambda>q. Fopen q m" cwd p 0] by (auto elim!: returns_mono)

text \<open>The operations that translate their argument and then pass it on.\<close>

lemma acts_later:
  assumes "frame mem_only s s1" "acts s1 cwd p f failed r s'"
  shows "acts s cwd p f failed r s'"
proof -
  have "real_call s1 cwd p = real_call s cwd p"
    using base_more_partitions[OF frame_more[OF assms(1)]] by (simp add: fun_eq_iff real_call_def)
  moreover have "called s c a s'" if "called s1 c a s'" for c a
    using called_wider[OF frame_extends[OF assms(1)] that logs_refl] .
  ultimately show ?thesis
    using assms(2) frame_trans[OF frame_mem_touches[OF assms(1)]] unfolding acts_def touches_same[OF frame_more[OF assms(1)]] by metis
qed

lemma acts_none: "frame mem_only s s' \<Longrightarrow> acts s cwd p f failed failed s'"
  by (simp add: acts_def frame_mem_touches)

text \<open>\<open>rename\<close> gets two real paths.\<close>

definition renames :: "'z fs_st_scheme \<Rightarrow> string \<Rightarrow> string \<Rightarrow> string \<Rightarrow> call \<Rightarrow> bool" where
  "renames s cwd from to c \<longleftrightarrow> mem_only c \<or>
     (\<exists>p q. c = CFile (Rename p q) \<and> real_call s cwd from p \<and> real_call s cwd to q)"

lemma vrt_rename_acts:
  assumes "fresh E" "fs_wf s"
  shows "returns (vrt_rename E cwd from to s) (\<lambda>r s'. frame (renames s cwd from to) s s' \<and> held (trace s') = held (trace s) \<and>
    (r = -1 \<or> (\<exists>p q a. real_call s cwd from p \<and> real_call s cwd to q \<and> called s (CFile (Rename p q)) a s' \<and> ret a = r)))"
proof (rule returns_mono[OF returns_conj[OF vrt_rename_keeps[OF assms]]])
  let ?Q = "\<lambda>r s'. frame (renames s cwd from to) s s' \<and>
    (r = -1 \<or> (\<exists>p q a. real_call s cwd from p \<and> real_call s cwd to q \<and> called s (CFile (Rename p q)) a s' \<and> ret a = r))"
  have body: "upon (with_virtual_path E cwd (\<lambda>p. Rename p q) from (-1) s1) (\<lambda>r s2. upon (free E a s2) (\<lambda>_. ?Q (ret r)))"
    if fr: "frame mem_only s s1" and q: "real_call s cwd to q" for a q s1
  proof (rule upon_mono[OF returns_upon[OF with_virtual_path_acts[OF assms(1) fs_wf_more[OF assms(2) frame_more[OF fr]]]]], simp)
    fix r s2
    assume "acts s1 cwd from (\<lambda>p. Rename p q) (-1) (ret r) s2"
    then have acts: "acts s cwd from (\<lambda>p. Rename p q) (-1) (ret r) s2" by (rule acts_later[OF fr])
    then have f2: "frame (renames s cwd from to) s s2"
      using q by (auto simp: acts_def touches_def renames_def elim!: frame_mono)
    have "?Q (ret r) s'" if "frame mem_only s2 s'" for s'
    proof -
      have "frame (renames s cwd from to) s2 s'" using that by (rule frame_mono) (simp add: renames_def)
      then have "frame (renames s cwd from to) s s'" by (rule frame_trans[OF f2])
      moreover have "ret r = -1 \<or> (\<exists>p q a. real_call s cwd from p \<and> real_call s cwd to q \<and> called s (CFile (Rename p q)) a s' \<and> ret a = ret r)"
        using acts q called_wider[OF logs_refl _ frame_extends[OF that]] unfolding acts_def by blast
      ultimately show ?thesis by simp
    qed
    then show "upon (free E a s2) (\<lambda>_. ?Q (ret r))" by (intro upon_mono[OF free_upon]) blast
  qed
  have mem: "frame (renames s cwd from to) s s1" if "frame mem_only s s1" for s1
    using that by (rule frame_mono) (simp add: renames_def)
  show "upon (vrt_rename E cwd from to s) ?Q"
    unfolding vrt_rename_def
    apply (simp only: upon_bind prod.case)
    apply (rule upon_mono[OF returns_upon[OF to_real_path_returns[OF assms]]], elim conjE)
    subgoal for v s1
      using body[of s1] mem[of s1] by (cases v) (auto simp: real_path_result_def real_call_def)
    done
qed (auto simp: keeps_def)

text \<open>\<open>stat\<close>: the virtual root is a directory of its own; all else is asked of the device.\<close>

lemma vrt_stat_decides:
  assumes "fresh E" "fs_wf s"
  shows "upon (vrt_stat E cwd p st s) (\<lambda>(r, st') s'.
    r = -1 \<and> (plenty E \<longrightarrow> (\<nexists>q. stands_for E cwd p q)) \<or>
    stands_for E cwd p [] \<and> r = 0 \<and> st' = st\<lparr>st_mode := S_IFDIR, st_size := 31337\<rparr> \<or>
    (\<exists>q h a. stands_for E cwd p q \<and> q \<noteq> [] \<and> answers E h (CFile (Stat q)) a \<and> called s (CFile (Stat q)) a s' \<and>
       r = ret a \<and> (r = 0 \<longrightarrow> st' = stat_out a)))"
proof -
  let ?Q = "\<lambda>(r, st') s'.
    r = -1 \<and> (plenty E \<longrightarrow> (\<nexists>q. stands_for E cwd p q)) \<or>
    stands_for E cwd p [] \<and> r = 0 \<and> st' = st\<lparr>st_mode := S_IFDIR, st_size := 31337\<rparr> \<or>
    (\<exists>q h a. stands_for E cwd p q \<and> q \<noteq> [] \<and> answers E h (CFile (Stat q)) a \<and> called s (CFile (Stat q)) a s' \<and>
       r = ret a \<and> (r = 0 \<longrightarrow> st' = stat_out a))"
  have ask: "upon (with_virtual_path E cwd Stat p (-1) s2) (\<lambda>r s'. ?Q (ret r, if ret r = 0 then stat_out r else st) s')"
    if fr: "frame mem_only s s2" and q: "stands_for E cwd p q" "q \<noteq> []" for s2 q
  proof (rule upon_mono[OF with_virtual_path_decides[OF assms(1) fs_wf_more[OF assms(2) frame_more[OF fr]]]], elim disjE exE conjE)
    fix r s' q' h
    assume "stands_for E cwd p q'" "q' \<noteq> []" "answers E h (CFile (Stat q')) r" "called s2 (CFile (Stat q')) r s'"
    then show "?Q (ret r, if ret r = 0 then stat_out r else st) s'"
      using called_wider[OF frame_extends[OF fr] _ logs_refl] by fastforce
  qed (use q in auto)
  show ?thesis
    unfolding vrt_stat_def
    apply (simp only: upon_bind prod.case)
    apply (rule upon_mono[OF upon_conj[OF to_real_path_decides[OF assms] returns_upon[OF to_real_path_returns[OF assms]]]], elim conjE)
    subgoal for v s1
    proof (cases v)
      case (Heap a q)
      assume sf: "case v of Null \<Rightarrow> plenty E \<longrightarrow> (\<nexists>q. stands_for E cwd p q) | Static q \<Rightarrow> stands_for E cwd p q | Heap a q \<Rightarrow> stands_for E cwd p q"
        and fr: "frame mem_only s s1" and res: "real_path_result E cwd p s v (held (trace s1))"
      then have q: "stands_for E cwd p q" "q \<noteq> []" using Heap by (auto simp: real_path_result_def)
      have next_: "upon (with_virtual_path E cwd Stat p (-1) s2) (\<lambda>r s'. ?Q (ret r, if ret r = 0 then stat_out r else st) s')"
        if "frame mem_only s1 s2" for s2 by (rule ask[OF frame_trans[OF fr that] q])
      show ?thesis
        unfolding Heap cstr.case
        by (simp only: q(2) if_False upon_bind prod.case upon_simps)
          (rule upon_mono[OF free_upon], elim conjE, drule next_, erule upon_mono, simp)
    qed (auto simp: real_path_result_def)
    done
qed

lemma vrt_stat_acts:
  assumes "fresh E" "fs_wf s"
  shows "returns (vrt_stat E cwd p st s) (\<lambda>(r, st') s'. frame (touches s cwd p Stat) s s' \<and> held (trace s') = held (trace s) \<and>
    (r = -1 \<or> abspath cwd p = ''/'' \<and> r = 0 \<and> st' = st\<lparr>st_mode := S_IFDIR, st_size := 31337\<rparr> \<or>
     (\<exists>q a. real_call s cwd p q \<and> called s (CFile (Stat q)) a s' \<and> r = ret a \<and> (r = 0 \<longrightarrow> st' = stat_out a))))"
  by (rule returns_mono[OF returns_conj[OF vrt_stat_returns[OF assms] vrt_stat_decides[OF assms]]])
    (auto dest: stands_for_root stands_for_real_call[OF assms(2)])

section \<open>Directories\<close>

text \<open>The directories of the devices, by their real paths: what \<open>stat\<close> says of them does not change.\<close>

definition tree :: "env \<Rightarrow> (string \<Rightarrow> bool) \<Rightarrow> bool" where
  "tree E D \<longleftrightarrow> (\<forall>h q a. answers E h (CFile (Stat q)) a \<longrightarrow> (ret a = 0 \<and> st_mode (stat_out a) AND S_IFDIR \<noteq> 0 \<longleftrightarrow> D q))"

definition enters :: "env \<Rightarrow> (string \<Rightarrow> bool) \<Rightarrow> string \<Rightarrow> string \<Rightarrow> bool" where
  "enters E D cwd p \<longleftrightarrow> (\<exists>q. stands_for E cwd p q \<and> (q = [] \<or> D q))"

lemma vrt_stat_dir:
  assumes "fresh E" "fs_wf s" "tree E D"
  shows "upon (vrt_stat E cwd p st s) (\<lambda>(r, st') _. let d = (r = 0 \<and> st_mode st' AND S_IFDIR \<noteq> 0) in
    (d \<longrightarrow> enters E D cwd p) \<and> (plenty E \<longrightarrow> enters E D cwd p \<longrightarrow> d))"
proof -
  have asked: "(ret a = 0 \<and> st_mode (stat_out a) AND S_IFDIR \<noteq> 0) = enters E D cwd p"
    if "stands_for E cwd p q" "q \<noteq> []" "answers E h (CFile (Stat q)) a" for q h a
  proof -
    have "(ret a = 0 \<and> st_mode (stat_out a) AND S_IFDIR \<noteq> 0) = D q" using assms(3) that(3) unfolding tree_def by blast
    also have "D q = enters E D cwd p" using that(1,2) stands_for_unique[OF that(1)] unfolding enters_def by blast
    finally show ?thesis .
  qed
  show ?thesis
    apply (rule upon_mono[OF vrt_stat_decides[OF assms(1,2)]])
    subgoal for x s1
      apply (cases x, hypsubst, simp only: prod.case, elim disjE exE conjE)
        apply (auto simp: enters_def Let_def)[1]
       apply (auto simp: enters_def Let_def S_IFDIR_def)[1]
      using asked apply (auto simp: Let_def)
      done
    done
qed

text \<open>\<open>chdir\<close>: without the law on the length of names its result may overflow \<open>cwd\<close>, which has no result.\<close>

lemma vrt_chdir_decides:
  assumes "fresh E" "fs_wf s" "tree E D"
  shows "upon (vrt_chdir E cwd p s) (\<lambda>(r, new) _.
    r = 0 \<and> new = entered cwd p \<and> enters E D cwd p \<and> length new < MAXPATHLEN E \<or>
    r = -1 \<and> new = cwd \<and> \<not> (plenty E \<and> enters E D cwd p))"
proof -
  have go: "upon (virtual_abspath E cwd p s1) (\<lambda>v s2. upon (case v of
          Heap a q \<Rightarrow> do {
            let new = (if length q > 1 then q @ ''/'' else q);
            if length new + 1 > MAXPATHLEN E then None
            else do { (_, s) \<leftarrow> free E a s2; Some ((0, new), s) }
          }
        | _ \<Rightarrow> Some ((-1, cwd), set_errno ENOMEM s2)) (\<lambda>(r, new) _.
    r = 0 \<and> new = entered cwd p \<and> enters E D cwd p \<and> length new < MAXPATHLEN E \<or>
    r = -1 \<and> new = cwd \<and> \<not> (plenty E \<and> enters E D cwd p)))" if "enters E D cwd p" for s1 :: "'a fs_st_scheme"
    apply (rule upon_mono[OF upon_conj[OF conjunct1[OF virtual_abspath_decides[OF assms(1)]] returns_upon[OF virtual_abspath_returns[OF assms(1)]]]])
    subgoal for v s2
      using that by (cases v) (auto simp: Let_def entered_def enters_def stands_for_def intro!: upon_mono[OF free_upon])
    done
  show ?thesis
    unfolding vrt_chdir_def
    apply (simp only: upon_bind)
    apply (rule upon_mono[OF vrt_stat_dir[OF assms]])
    subgoal for x s1
      apply (cases x, hypsubst, simp only: prod.case Let_def, elim conjE, intro upon_ifI)
        apply simp
       apply simp
      apply (simp only: upon_bind prod.case)
      apply (rule go[unfolded Let_def], simp)
      done
    done
qed

text \<open>\<open>diropen\<close>: an iterator of a library comes from the call on the real path, one of our own for the root only.\<close>

lemma vrt_diropen_acts:
  assumes "fresh E" "fs_wf s"
  shows "upon (vrt_diropen E cwd p s) (\<lambda>r s'. logs (touches s cwd p Diropen) s s' \<and> (case r of
      Some (Real d) \<Rightarrow> \<exists>q a. real_call s cwd p q \<and> called s (CFile (Diropen q)) a s' \<and> ret a = d
    | Some (Fake _) \<Rightarrow> abspath cwd p = ''/'' | None \<Rightarrow> True))"
proof -
  let ?Q = "\<lambda>r s'. logs (touches s cwd p Diropen) s s' \<and> (case r of
      Some (Real d) \<Rightarrow> \<exists>q a. real_call s cwd p q \<and> called s (CFile (Diropen q)) a s' \<and> ret a = d
    | Some (Fake _) \<Rightarrow> abspath cwd p = ''/'' | None \<Rightarrow> True)"
  have open_: "upon (with_virtual_path E cwd Diropen p 0 s2) (\<lambda>r s'. ?Q (if ret r = 0 then None else Some (Real (ret r))) s')"
    if fr: "frame mem_only s s2" for s2
    by (rule upon_mono[OF returns_upon[OF with_virtual_path_acts[OF assms(1) fs_wf_more[OF assms(2) frame_more[OF fr]]]]], simp)
      (drule acts_later[OF fr], auto simp: acts_def frame_def)
  have mem: "logs (touches s cwd p Diropen) s s1" if "frame mem_only s s1" for s1
    using frame_mem_touches[OF that, of s cwd p Diropen] by (simp add: frame_def)
  have fake: "upon (malloc E n s1) (\<lambda>a s2. ?Q None s2 \<and> (abspath cwd p = ''/'' \<longrightarrow> ?Q (Some (Fake a)) (s2\<lparr>viters := w\<rparr>)))"
    if fr: "frame mem_only s s1" for s1 :: "'a vrt_st_scheme" and n w
    by (rule upon_mono[OF returns_upon[OF malloc_returns[OF assms(1)]]], elim conjE)
      (drule mem[OF frame_trans[OF fr]], simp add: logs_def)
  show ?thesis
    unfolding vrt_diropen_def Let_def
    apply (simp only: upon_bind prod.case)
    apply (rule upon_mono[OF returns_upon[OF to_real_path_returns[OF assms]]], elim conjE)
    subgoal for v s1
    proof (cases v)
      case Null
      then show "frame mem_only s s1 \<Longrightarrow> ?thesis" using mem by simp
    next
      case (Static q)
      assume fr: "frame mem_only s s1" and res: "real_path_result E cwd p s v (held (trace s1))"
      then have root: "abspath cwd p = ''/''" using Static by (simp add: real_path_result_def)
      show ?thesis
        unfolding Static cstr.case upon_bind prod.case
        apply (rule upon_mono[OF fake[OF fr]], elim conjE)
        using root mem[OF fr] apply (auto simp: logs_def)
        done
    next
      case (Heap a q)
      assume fr: "frame mem_only s s1" and res: "real_path_result E cwd p s v (held (trace s1))"
      then have q: "q \<noteq> []" using Heap by (auto simp: real_path_result_def)
      show ?thesis
        unfolding Heap cstr.case
        apply (simp only: q if_False upon_bind prod.case upon_simps)
        apply (rule upon_mono[OF free_upon], elim conjE)
        apply (rule open_[OF frame_trans[OF fr]], assumption)
        done
    qed
    done
qed

end
