(* ===== verification/File_Properties.thy ===== *)
theory File_Properties
  imports Samples Naming
begin

text \<open>
  Properties of the virtual file system, of the partitions and the drive, and of the loader.
\<close>

section \<open>Virtual paths as walks through directories\<close>

text \<open>The directory a path argument leads to from the directory with the components \<open>ds\<close>.\<close>

definition walk :: "string list \<Rightarrow> string \<Rightarrow> string list" where
  "walk ds p = (if p \<noteq> [] \<and> hd p = CHR ''/'' then resolve [] (components (tl p)) else resolve ds (components p))"

lemma abspath_walk:
  assumes "list_all good_component ds" "NUL \<notin> set (dirs ds)" "NUL \<notin> set p"
  shows "abspath (dirs ds) p = render (walk ds p)"
proof (cases "p \<noteq> [] \<and> hd p = CHR ''/''")
  case True
  with assms show ?thesis by (cases p) (simp_all add: abspath_def walk_def normalise_absolute)
next
  case False
  with assms show ?thesis by (simp only: abspath_def walk_def if_False) (simp add: normalise_dirs)
qed

lemma walk_good: "list_all good_component ds \<Longrightarrow> list_all good_component (walk ds p)"
  unfolding walk_def by (auto intro!: resolve_good components_no_slash)

lemma dirs_of_render: "(if length (render ds) > 1 then render ds @ ''/'' else render ds) = dirs ds"
  if "list_all good_component ds"
proof (cases ds)
  case Nil
  then show ?thesis by (simp add: render_def)
next
  case (Cons d xs)
  then have "d \<noteq> []" using that by (simp add: good_component_def)
  then have "1 < length (render ds)" using Cons by (cases d) (simp_all add: render_def)
  then show ?thesis using Cons by (simp add: dirs_render)
qed

text \<open>Looking a canonical path up in the table: the device is its first component.\<close>

lemma to_lower_slash: "to_lower c = CHR ''/'' \<longleftrightarrow> c = CHR ''/''"
proof
  assume l: "to_lower c = CHR ''/''"
  show "c = CHR ''/''"
  proof (cases "65 \<le> (of_char c :: nat) \<and> (of_char c :: nat) \<le> 90")
    case True
    then have "to_lower c = char_of ((of_char c :: nat) + 32)" by (simp add: to_lower_def Let_def)
    then have "(of_char (to_lower c) :: nat) = of_char c + 32" using True by (simp add: of_char_of)
    then have "(of_char (CHR ''/'') :: nat) = of_char c + 32" using l by simp
    moreover have "(of_char (CHR ''/'') :: nat) = 47" by simp
    ultimately show ?thesis using True by linarith
  next
    case False
    then have "to_lower c = c" unfolding to_lower_def Let_def by (simp only: if_False)
    then show ?thesis using l by simp
  qed
qed (simp add: to_lower_def)

lemma alias_of_component:
  assumes "CHR ''/'' \<notin> set mp" "CHR ''/'' \<notin> set m" "rest = [] \<or> hd rest = CHR ''/''"
  shows "alias_matches (''/'' @ mp) (''/'' @ m @ rest) \<longleftrightarrow> strcaseeq mp m"
proof -
  have noslash: "CHR ''/'' \<notin> to_lower ` set mp" using assms(1) to_lower_slash by (metis imageE)
  show ?thesis
  proof
    assume "strcaseeq mp m"
    then have "length mp = length m" "map to_lower mp = map to_lower m"
      by (auto simp: strcaseeq_def dest: map_eq_imp_length_eq)
    then show "alias_matches (''/'' @ mp) (''/'' @ m @ rest)"
      using assms(3) by (cases rest) (auto simp: alias_matches_def strcaseeq_def strncaseeq_def char_at_def nth_append)
  next
    assume "alias_matches (''/'' @ mp) (''/'' @ m @ rest)"
    then consider (all) "map to_lower mp = map to_lower (m @ rest)"
      | (part) "map to_lower mp = map to_lower (take (length mp) (m @ rest))" "char_at (m @ rest) (length mp) = CHR ''/''"
      unfolding alias_matches_def strcaseeq_def strncaseeq_def char_at_def by (auto split: if_splits)
    then show "strcaseeq mp m"
    proof cases
      case all
      have "rest = []"
      proof (rule ccontr)
        assume "rest \<noteq> []"
        then have "CHR ''/'' \<in> set (map to_lower (m @ rest))"
          using assms(3) by (cases rest) (auto simp: to_lower_def)
        then show False using all noslash by (metis set_map)
      qed
      then show ?thesis using all by (simp add: strcaseeq_def)
    next
      case part
      have "length mp \<le> length m"
      proof (rule ccontr)
        assume g: "\<not> length mp \<le> length m"
        have "rest \<noteq> []" using part(2) g by (auto simp: char_at_def split: if_splits)
        then have "CHR ''/'' \<in> set (take (length mp) (m @ rest))"
          using assms(3) g by (cases rest) (auto simp: take_Cons' )
        then have "to_lower (CHR ''/'') \<in> set (map to_lower (take (length mp) (m @ rest)))"
          unfolding set_map by (rule imageI)
        then show False using part(1) noslash by (metis set_map to_lower_slash)
      qed
      moreover have "\<not> length mp < length m"
      proof
        assume l: "length mp < length m"
        then have "m ! length mp = CHR ''/''" using part(2) by (simp add: char_at_def nth_append)
        then show False using nth_mem[OF l] assms(2) by metis
      qed
      ultimately show ?thesis using part(1) by (simp add: strcaseeq_def)
    qed
  qed
qed

lemma find_prefix_component:
  assumes "\<And>v. v \<in> set vs \<Longrightarrow> real_prefix v = mount_point v @ '':/'' \<and> virtual_alias v = ''/'' @ mount_point v \<and> CHR ''/'' \<notin> set (mount_point v)"
    and "CHR ''/'' \<notin> set m" "rest = [] \<or> hd rest = CHR ''/''"
  shows "find_prefix vs (''/'' @ m @ rest) = map_option (\<lambda>v. (mount_point v @ '':/'', drop 1 rest)) (find (\<lambda>v. strcaseeq (mount_point v) m) vs)"
  using assms(1)
proof (induction vs)
  case (Cons v vs)
  have v: "real_prefix v = mount_point v @ '':/''" "virtual_alias v = ''/'' @ mount_point v" "CHR ''/'' \<notin> set (mount_point v)"
    using Cons.prems by auto
  have "alias_matches (virtual_alias v) (''/'' @ m @ rest) = strcaseeq (mount_point v) m"
    unfolding v(2) by (rule alias_of_component[OF v(3) assms(2,3)])
  moreover have "length (mount_point v) = length m" if "strcaseeq (mount_point v) m"
    using that by (rule strcaseeq_length)
  ultimately show ?case
    using Cons v assms(3) by (cases rest) (auto simp: Let_def char_at_def)
qed simp

lemma render_Cons: "render (m # ds) = ''/'' @ m @ (if ds = [] then [] else render ds)"
  by (simp add: render_def)

lemma find_prefix_render:
  assumes "list_all good_component (m # ds)"
  shows "find_prefix initial_partitions (render (m # ds)) =
    map_option (\<lambda>v. (mount_point v @ '':/'', drop 1 (if ds = [] then [] else render ds)))
      (find (\<lambda>v. strcaseeq (mount_point v) m) initial_partitions)"
proof -
  have rest: "(if ds = [] then [] else render ds) = [] \<or> hd (if ds = [] then [] else render ds) = CHR ''/''"
    by (cases ds) (simp_all add: render_def)
  have "CHR ''/'' \<notin> set m" using assms by (simp add: good_component_def)
  then show ?thesis
    unfolding render_Cons by (intro find_prefix_component rest) (auto dest: initial_prefix)
qed

text \<open>
  Changing the directory as a walk: \<open>D\<close> are the directories of the devices, \<open>ds\<close> the components of
  the working directory. The walk fails for a colon, for a path that is too long, for a first component
  that is no partition, and where there is no directory.
\<close>

definition cd :: "env \<Rightarrow> (string \<Rightarrow> bool) \<Rightarrow> string list \<Rightarrow> string \<Rightarrow> string list option" where
  "cd E D ds p = (if CHR '':'' \<in> set p \<or> too_long E (dirs ds) p then None
     else (case walk ds p of
         [] \<Rightarrow> Some []
       | m # es \<Rightarrow> (case find (\<lambda>v. strcaseeq (mount_point v) m) initial_partitions of
             None \<Rightarrow> None
           | Some v \<Rightarrow> let q = mount_point v @ '':/'' @ drop 1 (if es = [] then [] else render es) in
               if length q < MAXPATHLEN E \<and> D q then Some (m # es) else None)))"

lemma render_root: "list_all good_component es \<Longrightarrow> render es = ''/'' \<longleftrightarrow> es = []"
  by (cases es) (auto simp: render_def good_component_def)

lemma cd_enters:
  assumes "list_all good_component ds" "NUL \<notin> set (dirs ds)" "NUL \<notin> set p"
  shows "case cd E D ds p of None \<Rightarrow> \<not> enters E D (dirs ds) p
    | Some es \<Rightarrow> enters E D (dirs ds) p \<and> dirs es = entered (dirs ds) p"
proof -
  note w = walk_good[OF assms(1), of p]
  have path: "entered (dirs ds) p = dirs (walk ds p)" "abspath (dirs ds) p = render (walk ds p)"
    unfolding entered_def abspath_walk[OF assms] dirs_of_render[OF w] by (rule refl)+
  show ?thesis
  proof (cases "walk ds p")
    case Nil
    then show ?thesis using path render_root[OF w] by (auto simp: cd_def enters_def stands_for_def)
  next
    case (Cons m es)
    define tail where "tail = drop 1 (if es = [] then [] else render es)"
    let ?v = "find (\<lambda>v. strcaseeq (mount_point v) m) initial_partitions"
    have good: "list_all good_component (m # es)" using w Cons by simp
    have "render (m # es) \<noteq> ''/''" using render_root[OF good] by simp
    moreover have "real_of initial_partitions (render (m # es)) q \<longleftrightarrow> (\<exists>v. ?v = Some v \<and> q = mount_point v @ '':/'' @ tail)" for q
      unfolding real_of_def find_prefix_render[OF good] tail_def[symmetric] by (cases ?v) auto
    ultimately have e: "enters E D (dirs ds) p \<longleftrightarrow> CHR '':'' \<notin> set p \<and> \<not> too_long E (dirs ds) p \<and>
        (\<exists>v. ?v = Some v \<and> length (mount_point v @ '':/'' @ tail) < MAXPATHLEN E \<and> D (mount_point v @ '':/'' @ tail))"
      unfolding enters_def stands_for_def path(2) Cons by auto
    show ?thesis
      unfolding cd_def Cons list.case tail_def[symmetric] Let_def e path(1)
      by (cases ?v) simp_all
  qed
qed

section \<open>Properties of virtual paths\<close>

text \<open>
  C27: the real path behind a virtual one. The first component, compared without case, selects the
  partition; the rest of the components is the path on its device, which the prefix of the
  partition precedes. A first component that is no partition's mount point has no real path.
\<close>

theorem real_path_of_components:
  assumes "fs_wf s" "list_all good_component (m # ds)"
  shows "find_prefix (VIRTUAL_PARTITIONS s) (render (m # ds)) =
    map_option (\<lambda>v. (mount_point v @ '':/'', drop 1 (if ds = [] then [] else render ds)))
      (find (\<lambda>v. strcaseeq (mount_point v) m) initial_partitions)"
  unfolding find_prefix_wf[OF assms(1)] by (rule find_prefix_render[OF assms(2)])

lemma real_path_of_components_witness:
  "find_prefix (VIRTUAL_PARTITIONS initial_state) ''/SD/apps/boot.dol'' = Some (''sd:/'', ''apps/boot.dol'') \<and>
   find_prefix (VIRTUAL_PARTITIONS initial_state) ''/sdx'' = None"
proof -
  have "render [''SD'', ''apps'', ''boot.dol''] = ''/SD/apps/boot.dol''" "render [''sdx''] = ''/sdx''" by code_simp+
  moreover have "map_option (\<lambda>v. (mount_point v @ '':/'', drop 1 (if [''apps'', ''boot.dol''] = [] then [] else render [''apps'', ''boot.dol''])))
      (find (\<lambda>v. strcaseeq (mount_point v) ''SD'') initial_partitions) = Some (''sd:/'', ''apps/boot.dol'')"
    "find (\<lambda>v. strcaseeq (mount_point v) ''sdx'') initial_partitions = None"
    by code_simp+
  ultimately show ?thesis
    using real_path_of_components[OF initial_fs_wf, of "''SD''" "[''apps'', ''boot.dol'']"]
      real_path_of_components[OF initial_fs_wf, of "''sdx''" "[]"]
    by (simp add: good_component_def)
qed

text \<open>
  C28: \<open>vrt_chdir\<close> refines walking through the directories of the devices. It always returns. When the
  walk along the components of the path leads to a directory, that is the new working directory, which
  fits into its array with a terminator, and the result is 0; only if memory can run out the result may
  be -1. In all other cases the result is -1, and with -1 the working directory stays. No variable
  changes and no memory is left behind. What \<open>stat\<close> says of a path is taken not to change, and an object
  that exists to have a path that is shorter than \<open>MAXPATHLEN\<close> by two.
\<close>

theorem vrt_chdir_walks:
  assumes "fresh E" "fs_wf s" "names_short E" "tree E D" "list_all good_component ds" "NUL \<notin> set (dirs ds)" "NUL \<notin> set p"
  shows "returns (vrt_chdir E (dirs ds) p s) (\<lambda>(r, new) s'. keeps s s' \<and> (case cd E D ds p of
      Some es \<Rightarrow> r = 0 \<and> new = dirs es \<and> length new < MAXPATHLEN E \<or> \<not> plenty E \<and> r = -1 \<and> new = dirs ds
    | None \<Rightarrow> r = -1 \<and> new = dirs ds))"
  using cd_enters[OF assms(5-7), of E D]
  by (intro returns_mono[OF returns_conj[OF vrt_chdir_returns[OF assms(1-3)] vrt_chdir_decides[OF assms(1,2,4)]]])
    (auto split: option.splits)

lemma wii_plenty: "plenty wii"
  using next_id_pos by (simp add: plenty_def wii_def wii_script_def less_le)

lemma wii_tree: "tree wii (\<lambda>q. length q < 1000)"
  by (auto simp: tree_def answers_def wii_def wii_script_def S_IFDIR_def)

lemma vrt_chdir_walks_witness:
  "returns (vrt_chdir wii ''/sd/'' ''../usb/./x//'' initial_state) (\<lambda>(r, new) s'. held (trace s') = {} \<and> r = 0 \<and> new = ''/usb/x/'') \<and>
   returns (vrt_chdir wii ''/sd/'' ''../none'' initial_state) (\<lambda>(r, new) s'. r = -1 \<and> new = ''/sd/'')"
proof -
  have "cd wii (\<lambda>q. length q < 1000) [''sd''] ''../usb/./x//'' = Some [''usb'', ''x'']"
    "cd wii (\<lambda>q. length q < 1000) [''sd''] ''../none'' = None" "dirs [''sd''] = ''/sd/''" "dirs [''usb'', ''x''] = ''/usb/x/''"
    by code_simp+
  moreover have "held (trace initial_state) = {}" by (simp add: initial_state_def)
  moreover note walks = vrt_chdir_walks[OF wii_fresh initial_fs_wf wii_names wii_tree, of "[''sd'']"]
  ultimately show ?thesis
    using walks[of "''../usb/./x//''"] walks[of "''../none''"] wii_plenty
    by (auto simp: keeps_def good_component_def elim!: returns_mono)
qed

text \<open>
  C29: what becomes of \<open>chdir\<close> without the law that no object has so long a path. In a world with
  enough memory, a change to a directory that exists overflows \<open>cwd\<close> exactly if the path of the directory,
  with the slash at its end, has \<open>MAXPATHLEN\<close> characters or more: the slash is appended
  after the path has been found to fit.
\<close>

theorem vrt_chdir_overflows:
  assumes "fresh E" "fs_wf s" "tree E D" "plenty E" "list_all good_component ds" "NUL \<notin> set (dirs ds)" "NUL \<notin> set p"
    and "cd E D ds p = Some es"
  shows "vrt_chdir E (dirs ds) p s = None \<longleftrightarrow> MAXPATHLEN E \<le> length (dirs es)"
proof -
  have e: "enters E D (dirs ds) p" "dirs es = entered (dirs ds) p"
    using cd_enters[OF assms(5-7), of E D] assms(8) by simp_all
  show ?thesis
  proof (cases "MAXPATHLEN E \<le> length (dirs es)")
    case True
    then show ?thesis
      using vrt_chdir_decides[OF assms(1-3), of "dirs ds" p] e assms(4)
      by (cases "vrt_chdir E (dirs ds) p s") (auto simp: upon_def)
  next
    case False
    then have "returns (vrt_chdir E (dirs ds) p s) (\<lambda>_ _. True)"
      by (intro returns_mono[OF vrt_chdir_fits[OF assms(1,2)]]) (simp_all add: e(2))
    then show ?thesis using False by (auto simp: returns_iff)
  qed
qed

lemma vrt_chdir_overflows_witness:
  "vrt_chdir (wii\<lparr>MAXPATHLEN := 8\<rparr>) ''/'' ''sd/abc'' initial_state = None \<and>
   vrt_chdir (wii\<lparr>MAXPATHLEN := 9\<rparr>) ''/'' ''sd/abc'' initial_state \<noteq> None"
proof -
  have w: "fresh (wii\<lparr>MAXPATHLEN := n\<rparr>)" "plenty (wii\<lparr>MAXPATHLEN := n\<rparr>)" "tree (wii\<lparr>MAXPATHLEN := n\<rparr>) (\<lambda>q. length q < 1000)" for n
    using wii_fresh wii_plenty wii_tree by (simp_all add: fresh_def plenty_def tree_def answers_def)
  have "cd (wii\<lparr>MAXPATHLEN := 8\<rparr>) (\<lambda>q. length q < 1000) [] ''sd/abc'' = Some [''sd'', ''abc'']"
    "cd (wii\<lparr>MAXPATHLEN := 9\<rparr>) (\<lambda>q. length q < 1000) [] ''sd/abc'' = Some [''sd'', ''abc'']"
    "dirs [] = ''/''" "length (dirs [''sd'', ''abc'']) = 8"
    by code_simp+
  with vrt_chdir_overflows[OF w(1) initial_fs_wf w(3,2), of "[]" "''sd/abc''"] show ?thesis
    by (simp del: One_nat_def)
qed

text \<open>
  C30: \<open>vrt_fopen\<close>, \<open>vrt_stat\<close>, \<open>vrt_unlink\<close>, \<open>vrt_mkdir\<close>, \<open>vrt_rename\<close> and \<open>vrt_diropen\<close> return, and make no call but
  memory management and their own file function, on the one real path that the virtual path stands
  for (two for \<open>rename\<close>). A result other than the failure is the answer of that call, but for the virtual
  root, which \<open>vrt_stat\<close> and \<open>vrt_diropen\<close> serve themselves. Afterwards only what they return is new
  among the things held.
\<close>

theorem file_commands_touch:
  fixes s :: "'z vrt_st_scheme"
  assumes "fresh E" "fs_wf s"
  shows "returns (vrt_fopen E d p mode s) (\<lambda>f s'. acts s d p (\<lambda>q. Fopen q mode) 0 f s' \<and>
      (if f = 0 then held (trace s') = held (trace s)
       else File f \<notin> held (trace s) \<and> held (trace s') = insert (File f) (held (trace s)))) \<and>
    returns (vrt_stat E d p st s) (\<lambda>(r, st') s'. frame (touches s d p Stat) s s' \<and> held (trace s') = held (trace s) \<and>
      (r = -1 \<or> abspath d p = ''/'' \<and> r = 0 \<and> st' = st\<lparr>st_mode := S_IFDIR, st_size := 31337\<rparr> \<or>
       (\<exists>q a. real_call s d p q \<and> called s (CFile (Stat q)) a s' \<and> r = ret a \<and> (r = 0 \<longrightarrow> st' = stat_out a)))) \<and>
    returns (vrt_unlink E d p s) (\<lambda>r s'. acts s d p Unlink (-1) r s' \<and> held (trace s') = held (trace s)) \<and>
    returns (vrt_mkdir E d p m s) (\<lambda>r s'. acts s d p (\<lambda>q. Mkdir q m) (-1) r s' \<and> held (trace s') = held (trace s)) \<and>
    returns (vrt_rename E d p p' s) (\<lambda>r s'. frame (renames s d p p') s s' \<and> held (trace s') = held (trace s) \<and>
      (r = -1 \<or> (\<exists>q q' a. real_call s d p q \<and> real_call s d p' q' \<and> called s (CFile (Rename q q')) a s' \<and> ret a = r))) \<and>
    returns (vrt_diropen E d p s) (\<lambda>r s'. logs (touches s d p Diropen) s s' \<and> (case r of
        None \<Rightarrow> held (trace s') = held (trace s)
      | Some it \<Rightarrow> held (trace s') = insert (iter_res it) (held (trace s)) \<and> (case it of
            Real k \<Rightarrow> \<exists>q a. real_call s d p q \<and> called s (CFile (Diropen q)) a s' \<and> ret a = k
          | Fake _ \<Rightarrow> abspath d p = ''/'')))"
proof (intro conjI vrt_stat_acts[OF assms] vrt_unlink_acts[OF assms] vrt_mkdir_acts[OF assms] vrt_rename_acts[OF assms])
  show "returns (vrt_fopen E d p mode s) (\<lambda>f s'. acts s d p (\<lambda>q. Fopen q mode) 0 f s' \<and>
      (if f = 0 then held (trace s') = held (trace s)
       else File f \<notin> held (trace s) \<and> held (trace s') = insert (File f) (held (trace s))))"
    by (rule returns_mono[OF returns_conj[OF vrt_fopen_acts[OF assms] returns_upon[OF vrt_fopen_returns[OF assms]]]]) simp
  show "returns (vrt_diropen E d p s) (\<lambda>r s'. logs (touches s d p Diropen) s s' \<and> (case r of
        None \<Rightarrow> held (trace s') = held (trace s)
      | Some it \<Rightarrow> held (trace s') = insert (iter_res it) (held (trace s)) \<and> (case it of
            Real k \<Rightarrow> \<exists>q a. real_call s d p q \<and> called s (CFile (Diropen q)) a s' \<and> ret a = k
          | Fake _ \<Rightarrow> abspath d p = ''/'')))"
    by (rule returns_mono[OF returns_conj[OF vrt_diropen_returns[OF assms] vrt_diropen_acts[OF assms]]])
      (auto simp: diropen_result_def split: option.splits dir_iter.splits)
qed

lemma file_commands_touch_witness:
  "returns (vrt_rename wii ''/'' ''sd/a'' ''usb/b'' initial_state) (\<lambda>r s'. held (trace s') = {} \<and>
     frame (renames initial_state ''/'' ''sd/a'' ''usb/b'') initial_state s')"
proof -
  have "held (trace initial_state) = {}" by (simp add: initial_state_def)
  moreover have "returns (vrt_rename wii ''/'' ''sd/a'' ''usb/b'' initial_state) (\<lambda>r s'.
      frame (renames initial_state ''/'' ''sd/a'' ''usb/b'') initial_state s' \<and> held (trace s') = held (trace initial_state))"
    using file_commands_touch[OF wii_fresh initial_fs_wf] by (blast intro: returns_mono)
  ultimately show ?thesis by (auto elim!: returns_mono)
qed

text \<open>
  C31: opening a directory and closing it again leaves the held resources and the iterators of the
  virtual root as they were, whatever the path, also when the directory does not exist or memory runs out.
\<close>

theorem diropen_dirclose_balance:
  assumes "fresh E" "fs_wf s"
  shows "returns (do {
      (d, s1) \<leftarrow> vrt_diropen E cw p s;
      (case d of None \<Rightarrow> Some (0, s1) | Some it \<Rightarrow> vrt_dirclose E it s1)
    }) (\<lambda>_ s'. held (trace s') = held (trace s) \<and> (\<forall>x. Mem x \<in> held (trace s) \<longrightarrow> viters s' x = viters s x))"
proof -
  have close: "returns (case d of None \<Rightarrow> Some (0, s1) | Some it \<Rightarrow> vrt_dirclose E it s1)
      (\<lambda>_ s'. held (trace s') = held (trace s) \<and> (\<forall>x. Mem x \<in> held (trace s) \<longrightarrow> viters s' x = viters s x))"
    if "diropen_result s d s1" for d s1
  proof (cases d)
    case None
    then show ?thesis using that by (simp add: diropen_result_def)
  next
    case (Some it)
    then have r: "iter_res it \<notin> held (trace s)" "held (trace s1) = insert (iter_res it) (held (trace s))"
      "iter_ok (viters s1) it" "viters s1 = (case it of Real _ \<Rightarrow> viters s | Fake a \<Rightarrow> (viters s)(a \<mapsto> 0))"
      using that unfolding diropen_result_def Some option.case by blast+
    show ?thesis
      unfolding Some option.case
      by (rule returns_mono[OF vrt_dirclose_returns[OF r(3)]]) (use r in \<open>simp; fail | cases it; auto\<close>)+
  qed
  show ?thesis
    by (simp only: returns_bind prod.case) (rule returns_mono[OF vrt_diropen_returns[OF assms]], rule close)
qed

lemma diropen_dirclose_balance_witness:
  "returns (do {
      (d, s1) \<leftarrow> vrt_diropen wii ''/'' '''' initial_state;
      (case d of None \<Rightarrow> Some (0, s1) | Some it \<Rightarrow> vrt_dirclose wii it s1)
    }) (\<lambda>_ s'. held (trace s') = {})"
proof -
  have "held (trace initial_state) = {}" by (simp add: initial_state_def)
  then show ?thesis
    using diropen_dirclose_balance[OF wii_fresh initial_fs_wf, of "''/''" "''''"] by (auto elim!: returns_mono)
qed

text \<open>
  C32: reading the virtual root ends. Each call of \<open>vrt_dirnext\<close> on its iterator names a partition of
  the table, without the slash and as a directory, and moves behind it, or reports the end
  (-1) with all entries passed; so at most eleven names are listed, in the order of the table and none twice.
\<close>

theorem root_listing_advances:
  assumes "fresh E" "viters s a = Some i" "i \<le> MAX_VIRTUAL_PARTITIONS"
  shows "returns (vrt_dirnext E (Fake a) fname st s) (\<lambda>(r, name, st') s'. \<exists>j. viters s' a = Some j \<and>
    (if r = 0 then i < j \<and> j \<le> MAX_VIRTUAL_PARTITIONS \<and> name = drop 1 (virtual_alias (partition (j - 1) s)) \<and> st_mode st' = S_IFDIR
     else r = -1 \<and> name = fname \<and> j = MAX_VIRTUAL_PARTITIONS))"
  unfolding vrt_dirnext_def dir_iter.case assms(2) option.case Let_def
  apply (simp only: returns_bind prod.case)
  apply (rule returns_mono[OF next_mounted_returns[OF assms(1)]])
  subgoal for x s'
    using assms(3) base_more_partitions[OF frame_more, of dir_io s s']
    by (cases x) (auto simp: partition_def split: option.splits)
  done

lemma root_listing_advances_witness:
  "returns (vrt_dirnext wii (Fake 5) [] (garbage_stat wii) (initial_state\<lparr>viters := [5 \<mapsto> 2]\<rparr>))
    (\<lambda>(r, name, st') s'. r = 0 \<or> r = -1)"
  by (rule returns_mono[OF root_listing_advances[where i = 2]])
     (auto simp: MAX_VIRTUAL_PARTITIONS_def split: if_splits)

section \<open>Properties of the partitions and the drive\<close>

text \<open>
  C33: mounting always comes back, also when the drive never gets ready, and says that it
  succeeded only if the name is a partition's and a mount call of the library for that very
  partition (its file system, or its mount point and disc interface) answered so. It leaves
  everything else of the program alone and holds no memory afterwards.
\<close>

theorem mount_virtual_honest:
  assumes "devices_ok E" "fs_wf s"
  shows "returns (mount_virtual E dir s) (\<lambda>b s'. drive_frame s s' \<and>
    (b \<longrightarrow> (\<exists>i. to_virtual_partition dir s = Some i \<and> did s s' (mount_ok i (partition i s)))))"
  unfolding mount_virtual_def using assms by (rule mount_returns)

lemma mount_virtual_honest_witness:
  "returns (mount_virtual wii ''/dvd'' initial_state) (\<lambda>b s'. held (trace s') = {} \<and>
     (b \<longrightarrow> did initial_state s' (mount_ok PA_DVD (partition PA_DVD initial_state))))"
proof -
  have "to_virtual_partition ''/dvd'' initial_state = Some PA_DVD" by code_simp
  moreover have "held (trace initial_state) = {}" by (simp add: initial_state_def)
  ultimately show ?thesis
    by (intro returns_mono[OF mount_virtual_honest[OF wii_devices initial_fs_wf]]) (auto simp: drive_frame_def fs_frame_def)
qed

text \<open>
  While the drive is being mounted in the background, mounting and unmounting a disc partition
  refuse at once: they only probe whether it is mounted, and change nothing.
\<close>

theorem disc_busy_refuses:
  assumes "fresh E" "is_dvd i" "dvd_mountWait s"
  shows "returns (mount E (Some i) s) (\<lambda>b s'. \<not> b \<and> frame dir_io s s' \<and> held (trace s') = held (trace s)) \<and>
    returns (unmount E (Some i) s) (\<lambda>b s'. \<not> b \<and> frame dir_io s s' \<and> held (trace s') = held (trace s))"
proof -
  have wait: "dvd_mountWait s'" if "frame dir_io s s'" for s'
    using base_more_fs[OF frame_more[OF that]] assms(3) by simp
  show ?thesis
    unfolding mount_def unmount_def
    by (auto simp: assms(2) wait intro!: returns_mono[OF mounted_returns[OF assms(1)]])
qed

lemma disc_busy_refuses_witness:
  "returns (mount wii (Some PA_WOD) (set_dvd_mountWait True initial_state)) (\<lambda>b s'. \<not> b) \<and>
   returns (unmount wii (Some PA_WOD) (set_dvd_mountWait True initial_state)) (\<lambda>b s'. \<not> b)"
  using disc_busy_refuses[OF wii_fresh, of PA_WOD "set_dvd_mountWait True initial_state"]
  by (auto simp: is_dvd_def set_dvd_mountWait_def elim!: returns_mono)

text \<open>
  C34: in every state that the file system operations reach from a good one, in any order and
  number, the table keeps its entries and the state of the dialogue fits its timer and its
  chosen partition.
\<close>

theorem dialogue_invariant:
  assumes "fs_reach E s s'" "devices_ok E" "dialogue_ok s"
  shows "dialogue_ok s' \<and> fs_wf s' \<and> held (trace s') = held (trace s) \<and> fs_st.more s' = fs_st.more s"
  using fs_reach_dialogue[OF assms] by (auto simp: fs_frame_def dest: dialogue_ok_wf)

lemma dialogue_invariant_witness:
  "\<exists>s'. fs_reach wii initial_state s' \<and> mountstate s' = MOUNTSTATE_SELECTDEVICE \<and> dialogue_ok s'"
proof -
  let ?s = "initial_state\<lparr>mountstate := MOUNTSTATE_SELECTDEVICE, mount_partition := None\<rparr>"
  have "process_remount_event wii initial_state = Some ((), ?s)"
    by (simp add: process_remount_event_def initial_state_def)
  then have r: "fs_reach wii initial_state ?s" by (blast intro: fs_reach.intros fs_step.remount)
  from dialogue_invariant[OF r wii_devices initial_dialogue] r show ?thesis by auto
qed

text \<open>
  C35: the dialogue comes to an end. When the time after a device was chosen is over, the next
  check of the timer mounts the device, or starts to, and returns to the start state with no
  partition chosen and the timer off.
\<close>

theorem dialogue_timeout:
  assumes "devices_ok E" "dialogue_ok s" "mountstate s = MOUNTSTATE_WAITFORDEVICE" "mount_timer s \<noteq> 0" "now > mount_timer s"
  shows "returns (check_mount_timer E now s) (\<lambda>_ s'. mountstate s' = MOUNTSTATE_START \<and> mount_partition s' = None \<and>
    mount_timer s' = 0 \<and> dialogue_ok s')"
  unfolding check_mount_timer_def using assms(3-5)
  by (auto intro!: returns_mono[OF process_remount_event_returns[OF assms(1,2)]])

lemma dialogue_timeout_witness:
  "returns (check_mount_timer wii 9 (initial_state\<lparr>mountstate := MOUNTSTATE_WAITFORDEVICE, mount_partition := Some PA_SD, mount_timer := 8\<rparr>))
    (\<lambda>_ s'. mountstate s' = MOUNTSTATE_START)"
proof -
  let ?s = "initial_state\<lparr>mountstate := MOUNTSTATE_WAITFORDEVICE, mount_partition := Some PA_SD, mount_timer := 8\<rparr>"
  have "dialogue_ok ?s" using initial_fs_wf by (simp add: dialogue_ok_def fs_wf_def is_fat_def del: initial_fs_wf)
  from dialogue_timeout[OF wii_devices this, of 9] show ?thesis by (auto elim!: returns_mono)
qed

text \<open>
  C36: polling the removable devices always comes back, whatever they answer, and leaves the
  dialogue alone.
\<close>

theorem polling_returns:
  assumes "devices_ok E" "fs_wf s"
  shows "returns (check_removable_devices E now s) (\<lambda>_ s'. dialogue_same s s' \<and> fs_wf s')"
  by (rule returns_mono[OF check_removable_devices_returns[OF assms]])
     (auto simp: dialogue_same_def intro: fs_wf_frame[OF assms(2)])

lemma polling_returns_witness:
  "returns (check_removable_devices wii 1 initial_state) (\<lambda>_ s'. mountstate s' = MOUNTSTATE_START)"
  by (rule returns_mono[OF polling_returns[OF wii_devices initial_fs_wf]])
     (simp add: dialogue_same_def initial_state_def)

end
