(* ===== verification/Scanning.thy ===== *)
theory Scanning
  imports Ports
begin

text \<open>
  The number formats of \<open>sscanf\<close> read back what the formats of \<open>sprintf\<close> have printed.
\<close>

section \<open>Digits\<close>

lemma digit_nat: "d < 10 \<Longrightarrow> (of_char (digit d) :: nat) = 48 + d"
  by (simp add: digit_def of_char_of)

lemma digit_value_digit [simp]: "d < 10 \<Longrightarrow> digit_value (digit d) = d"
  by (simp add: digit_value_def digit_nat)

definition is_digit :: "char \<Rightarrow> bool" where
  "is_digit c \<longleftrightarrow> (\<exists>d < 10. c = digit d)"

lemma is_digit_facts:
  assumes "is_digit c"
  shows "digit_value c < 10" "\<not> isspace c" "c \<noteq> CHR ''-''" "c \<noteq> CHR ''+''"
proof -
  obtain d where d: "d < 10" "c = digit d" using assms by (auto simp: is_digit_def)
  then have n: "(of_char c :: nat) = 48 + d" by (simp add: digit_nat)
  show "digit_value c < 10" using d by simp
  have "c \<noteq> x" if "(of_char x :: nat) < 48" for x using n that by auto
  then show "c \<noteq> CHR ''-''" "c \<noteq> CHR ''+''" and "\<not> isspace c" using n by (auto simp: isspace_def)
qed

lemma dec_digits: "c \<in> set (dec n) \<Longrightarrow> is_digit c"
proof (induction n rule: dec.induct)
  case (1 n)
  have "n mod 10 < 10" by simp
  then have "is_digit (digit (n mod 10))" unfolding is_digit_def by blast
  then show ?case using 1 by (subst (asm) (2) dec.simps) (auto simp: is_digit_def[of "digit n"] split: if_splits)
qed

lemma dec_Cons: "\<exists>c cs. dec n = c # cs \<and> is_digit c"
  using dec_digits[of "hd (dec n)" n] dec_not_Nil[of n] by (cases "dec n") auto

lemma numeral_value_snoc: "numeral_value b (ds @ [d]) = b * numeral_value b ds + digit_value d"
  by (simp add: numeral_value_def)

lemma numeral_value_dec [simp]: "numeral_value 10 (dec n) = n"
proof (induction n rule: dec.induct)
  case (1 n)
  show ?case
  proof (cases "n < 10")
    case True
    then show ?thesis by (subst dec.simps) (simp add: numeral_value_def)
  next
    case False
    then have "dec n = dec (n div 10) @ [digit (n mod 10)]" by (subst dec.simps) simp
    then show ?thesis using 1[OF False] by (simp add: numeral_value_snoc)
  qed
qed

lemma dec_first: "dec n = CHR ''0'' # cs \<Longrightarrow> n = 0"
proof -
  assume d: "dec n = CHR ''0'' # cs"
  have "0 < n \<Longrightarrow> \<exists>c cs. dec n = c # cs \<and> c \<noteq> digit 0"
  proof (induction n rule: dec.induct)
    case (1 n)
    show ?case
    proof (cases "n < 10")
      case True
      then have "digit n \<noteq> digit 0" using 1(2) digit_value_digit[of n] digit_value_digit[of 0] by force
      then show ?thesis using True by (subst dec.simps) simp
    next
      case False
      have "0 < n div 10" using False by simp
      then obtain c cs where "dec (n div 10) = c # cs" "c \<noteq> digit 0" using 1(1)[OF False] by blast
      then show ?thesis using False by (subst dec.simps) simp
    qed
  qed
  moreover have "CHR ''0'' = digit 0" by code_simp
  ultimately show "n = 0" using d by fastforce
qed

section \<open>Scanning\<close>

definition stops :: "string \<Rightarrow> bool" where
  "stops rest \<longleftrightarrow> (case rest of [] \<Rightarrow> True | c # cs \<Rightarrow> 10 \<le> digit_value c)"

lemma takeWhile_dec: "takeWhile (\<lambda>c. digit_value c < 10) (dec n @ rest) = dec n @ takeWhile (\<lambda>c. digit_value c < 10) rest"
  by (rule takeWhile_append2) (auto dest: dec_digits is_digit_facts(1))

lemma split_sign_dec: "split_sign (dec n @ rest) = (False, dec n @ rest)"
  using dec_Cons[of n] is_digit_facts(3,4) by auto

lemma dropWhile_dec: "dropWhile isspace (dec n @ rest) = dec n @ rest"
  using dec_Cons[of n] is_digit_facts(2) by auto

lemma scan_u3_dec:
  assumes "n < 1000" "stops rest"
  shows "scan_u3 (dec n @ rest) = Some (of_nat n, rest)"
proof -
  have l: "length (dec n) \<le> 3" using assms(1) dec_length[of n 3] by simp
  let ?r = "take (3 - length (dec n)) rest"
  have t: "take 3 (dec n @ rest) = dec n @ ?r" using l by simp
  have stop: "takeWhile (\<lambda>c. digit_value c < 10) ?r = []"
    using assms(2) by (cases rest) (auto simp: stops_def take_Cons' )
  show ?thesis
    unfolding scan_u3_def Let_def dropWhile_dec t split_sign_dec prod.case takeWhile_dec stop by simp
qed

lemma scan_list_dec:
  assumes "list_all (\<lambda>n. n < 1000) (n # ns)" "stops rest"
  shows "scan_list (length (n # ns)) (dec n @ concat (map (\<lambda>n. CHR '','' # dec n) ns) @ rest) = Some (map of_nat (n # ns))"
  using assms
proof (induction ns arbitrary: n)
  case Nil
  then show ?case by (simp add: scan_u3_dec)
next
  case (Cons m ns)
  have "stops (CHR '','' # x)" for x by (simp add: stops_def digit_value_def)
  then show ?case using Cons by (simp add: scan_u3_dec)
qed

text \<open>\<open>%lli\<close> reads a number in the base that its first characters tell; \<open>%lli\<close> prints no leading zero.\<close>

lemma scan_lli_dec:
  assumes "n < 2 ^ 63"
  shows "scan_lli (dec n) = Some (int n)"
proof -
  note d = dropWhile_dec[of n "[]", simplified] split_sign_dec[of n "[]", simplified]
    takeWhile_dec[of n "[]", unfolded append_Nil2 takeWhile.simps]
  show ?thesis
  proof (cases "hd (dec n) = CHR ''0''")
    case True
    then have "n = 0" using dec_first[of n] dec_not_Nil[of n] by (cases "dec n") auto
    have "dec 0 = ''0''" by code_simp
    then have "dec n = ''0''" using \<open>n = 0\<close> by simp
    then show ?thesis using \<open>n = 0\<close> d by (simp add: scan_lli_def numeral_value_def digit_value_def)
  next
    case False
    then have "dec n ! 0 \<noteq> CHR ''0''" using dec_not_Nil[of n] by (metis hd_conv_nth)
    moreover have "int n < 2 ^ 63" using assms by simp
    ultimately show ?thesis using False by (simp add: scan_lli_def Let_def d)
  qed
qed

section \<open>The reply codes\<close>

lemma digit_chars: "digit 0 = CHR ''0''" "digit 1 = CHR ''1''" "digit 2 = CHR ''2''" "digit 3 = CHR ''3''"
  "digit 4 = CHR ''4''" "digit 5 = CHR ''5''" "digit 6 = CHR ''6''" "digit 7 = CHR ''7''" "digit 8 = CHR ''8''"
  "digit 9 = CHR ''9''"
  by code_simp+

lemma dec_codes: "dec 150 = ''150''" "dec 213 = ''213''" "dec 502 = ''502''" "dec 503 = ''503''" "dec 520 = ''520''"
  "dec 250 = ''250''" "dec 530 = ''530''" "dec 4096 = ''4096''"
  by (simp_all add: dec.simps digit_chars digit_chars(2)[simplified])

end
