(* ===== verification/Server_Properties.thy ===== *)
theory Server_Properties
  imports Samples Effects Scanning
begin

text \<open>
  Properties of the FTP server: its invariant, the release of clients, the framing of the command
  lines and the dispatch of commands.
\<close>

section \<open>The invariant\<close>

text \<open>
  C2: a turn of the server keeps its invariant: the table has five slots, \<open>num_clients\<close> counts the
  used ones, the clients that exist are those in the table, each once; every client has a canonical working
  directory that fits its array, a control buffer with room for a terminator, and a
  consistent data connection; the sockets, files, directories and memory blocks of the clients, of
  the password and of the rest of the program are all held and belong to one owner each.
\<close>

theorem server_turn_invariant:
  assumes "server_laws E" "server_ok E S s"
  shows "upon (process_ftp_events E server s) (\<lambda>_ s'. server_ok E S s')"
  by (rule triple_upon[OF process_ftp_events_keeps[OF allows_False[OF assms(1)] assms(2)]])

lemma server_turn_invariant_witness:
  "\<exists>s'. process_ftp_events (session []) 3 one_state = Some (False, s') \<and> server_ok (session []) {} s' \<and> num_clients s' = 0"
proof -
  have "map_option (\<lambda>(r, s'). (r, num_clients s')) (process_ftp_events (session []) 3 one_state) = Some (False, 0)"
    by code_simp
  moreover have "server_ok (session []) {} one_state"
    using one_server_ok by (simp add: server_ok_session)
  from server_turn_invariant[OF session_laws this]
  have "upon (process_ftp_events (session []) 3 one_state) (\<lambda>_ s'. server_ok (session []) {} s')" .
  ultimately show ?thesis by (auto simp: upon_iff)
qed

text \<open>
  A transfer is ready: its argument is open and of the type that the callback casts it to, the cleanup
  function releases just that, and the timer is thirty seconds after a time that the clock said.
\<close>

definition transfer_ready :: "env \<Rightarrow> data_callback \<Rightarrow> client \<Rightarrow> 'z ftp_st_scheme \<Rightarrow> bool" where
  "transfer_ready E f c s \<longleftrightarrow> (\<exists>x cl. data_connection_callback_arg c = Some x \<and> data_connection_cleanup c = Some cl \<and>
     arg_res x \<in> held (trace s) \<and>
     (case x of Arg_dir d \<Rightarrow> f \<in> {Send_nlst, Send_list} \<and> iter_ok (viters s) d | Arg_file p \<Rightarrow> f \<in> {Send_from_file, Recv_to_file}) \<and>
     returns (run_cleanup E cl (Some x) s) (\<lambda>_ s'. held (trace s') = held (trace s) - {arg_res x})) \<and>
   (\<exists>h t. answers E h (CSys Gettime) t \<and> data_connection_timer c = word_of_int (ret t) + secs_to_ticks E 30)"

lemma fclose_held: "File p \<in> held (trace s) \<Longrightarrow> returns (fclose E p s) (\<lambda>_ s'. held (trace s') = held (trace s) - {File p})"
  unfolding fclose_def by (auto intro!: returns_mono[OF ext_step])

lemma started_ready:
  assumes "stays E a F s s'" "starts E a f (heap s a) (heap s' a)" "heap s a = Some c" "data_callback c = None"
  shows "\<exists>c'. heap s' a = Some c' \<and> (data_callback c' = None \<or> data_callback c' = Some f \<and> transfer_ready E f c' s')"
proof -
  obtain c' where c': "heap s' a = Some c'" "data_ok (viters s') c'" "set (data_res c') \<subseteq> held (trace s')"
    using assms(1) by (auto simp: stays_def good_def client_ok_def owned_def)
  show ?thesis
  proof (cases "data_callback c'")
    case (Some g)
    then have g: "data_callback c' = Some f" "\<exists>h t. answers E h (CSys Gettime) t \<and> data_connection_timer c' = word_of_int (ret t) + secs_to_ticks E 30"
      using assms(2-4) c'(1) by (auto simp: starts_def)
    obtain x where x: "data_connection_callback_arg c' = Some x" "arg_res x \<in> held (trace s')"
      using c'(2,3) Some by (auto simp: data_ok_def data_res_def split: option.splits)
    have "transfer_ready E f c' s'"
    proof (cases x)
      case (Arg_dir d)
      then have d: "f \<in> {Send_nlst, Send_list}" "data_connection_cleanup c' = Some Cleanup_dirclose" "iter_ok (viters s') d" "iter_res d \<in> held (trace s')"
        using c'(2) x g(1) by (auto simp: data_ok_def)
      then show ?thesis
        using x g(2) Arg_dir vrt_dirclose_returns[OF d(3,4), of E] by (auto simp: transfer_ready_def elim!: returns_mono)
    next
      case (Arg_file p)
      then show ?thesis
        using c'(2) x g fclose_held[of p s' E] by (auto simp: transfer_ready_def data_ok_def)
    qed
    then show ?thesis using c'(1) g(1) by blast
  qed (use c'(1) in blast)
qed

text \<open>
  C8: \<open>NLST\<close>, \<open>LIST\<close>, \<open>RETR\<close>, \<open>STOR\<close> and \<open>APPE\<close> come back and leave a client that had no transfer either
  without one, or with a transfer that fits together: the callback of that command; an argument
  that is open and of the type the callback casts it to, an iterator for the two listings and a file
  for the others; a cleanup function that, run on this argument, releases it and nothing else; and a
  timer thirty seconds after a time that the clock said.
\<close>

theorem transfers_fit:
  assumes "laws E" "server_ok E S s" "heap s a = Some c" "data_callback c = None" "NUL \<notin> set args" "length args < FTP_BUFFER_SIZE"
    and "(h, f) \<in> {(ftp_NLST E, Send_nlst), (ftp_LIST E, Send_list), (ftp_RETR E, Send_from_file),
      (ftp_STOR E, Recv_to_file), (ftp_APPE E, Recv_to_file)}"
  shows "returns (h a args s) (\<lambda>_ s'. \<exists>c'. heap s' a = Some c' \<and>
    (data_callback c' = None \<or> data_callback c' = Some f \<and> transfer_ready E f c' s'))"
proof -
  have a: "a \<in> set (active s)" using server_heap[OF assms(2)] assms(3) by blast
  note g = server_good[OF assms(2) a]
  have r: "ready E a (rest_of S a s) args s"
    using g idle_not_busy[OF g assms(3,4)] assms(5,6) by (simp add: ready_def)
  have "returns (h a args s) (\<lambda>_ s'. stays E a (rest_of S a s) s s')"
    using assms(7) ftp_NLST_good[OF assms(1) r] ftp_LIST_good[OF assms(1) r] ftp_RETR_good[OF assms(1) r]
      ftp_STOR_good[OF assms(1) r] ftp_APPE_good[OF assms(1) r] by (elim insertE; simp)
  moreover have "upon (h a args s) (\<lambda>_ s'. starts E a f (heap s a) (heap s' a))"
    using assms(7) data_commands_start[OF laws_write[OF assms(1)] laws_fresh[OF assms(1)] good_wf[OF g], of a args] by (elim insertE; simp)
  ultimately show ?thesis
    by (rule returns_mono[OF returns_conj]) (elim conjE, rule started_ready[OF _ _ assms(3,4)])
qed

lemma transfers_fit_witness:
  "returns (ftp_RETR wii 7 ''/sd/x'' one_state) (\<lambda>_ s'. \<exists>c'. heap s' 7 = Some c' \<and>
    (data_callback c' = None \<or> data_callback c' = Some Send_from_file \<and> transfer_ready wii Send_from_file c' s'))"
  by (rule transfers_fit[OF _ one_server_ok, where c = one_client])
    (auto simp: FTP_BUFFER_SIZE_def one_client_def new_client_def)

section \<open>Releasing clients\<close>

text \<open>
  C37: releasing a client always comes back and gives back exactly what is the client's: its struct,
  its control, passive and data socket, and the open file or directory of its data connection. Its slot is
  free, the other clients are as before, and the invariant holds.
\<close>

theorem cleanup_client_exact:
  assumes "server_ok E S s" "heap s a = Some c"
  shows "returns (cleanup_client E a s) (\<lambda>_ s'. server_ok E S s' \<and> heap s' = (heap s)(a := None) \<and>
    active s' = remove1 a (active s) \<and> num_clients s' = num_clients s - 1 \<and>
    held (trace s') = held (trace s) - set (belongs a c))"
proof -
  have m: "a \<noteq> 0"
    using crowd_member[OF conjunct1[OF assms(1)[unfolded server_ok_def]] assms(2)] by (auto simp: member_ok_def client_ok_def)
  have "a \<in> set (active s)" using server_heap[OF assms(1)] assms(2) by blast
  from returns_conj[OF cleanup_client_server[OF assms(1) this]
      returns_upon[OF cleanup_client_releases[OF server_releasable[OF assms]]]]
  show ?thesis
    by (rule returns_mono) (auto simp: active_def clear_slot_active[OF m])
qed

lemma cleanup_client_exact_witness:
  "returns (cleanup_client wii 7 busy_state) (\<lambda>_ s'. held (trace s') = {} \<and> num_clients s' = 0)"
  by (rule returns_mono[OF cleanup_client_exact[OF busy_server_ok, of 7 busy_client]])
     (auto simp: belongs_def socks_def data_res_def busy_client_def one_client_def new_client_def)

text \<open>
  C38: at shutdown \<open>cleanup_ftp\<close> always comes back, whatever the clients do and whether or not the
  last reply gets through, with every client released.
\<close>

theorem cleanup_ftp_releases_all:
  assumes "laws E" "server_ok E S s"
  shows "returns (cleanup_ftp E s) (\<lambda>_ s'. server_ok E S s' \<and> heap s' = Map.empty \<and> num_clients s' = 0)"
  using assms by (rule cleanup_ftp_returns)

lemma cleanup_ftp_releases_all_witness:
  "returns (cleanup_ftp wii busy_state) (\<lambda>_ s'. heap s' 7 = None)"
  by (rule returns_mono[OF cleanup_ftp_releases_all[OF _ busy_server_ok]]) simp_all

section \<open>Commands\<close>

text \<open>
  C9: a command line of one client touches no other client: their records, the table and the
  iterators of their listings stay as they are, everything they own stays open, and of the client
  itself the control socket and the buffer stay. This holds for every content of the line.
\<close>

theorem command_isolated:
  assumes "server_laws E" "server_ok E S s" "heap s a = Some c" "data_callback c = None" "NUL \<notin> set line" "length line < FTP_BUFFER_SIZE"
  shows "upon (process_command E a line s) (\<lambda>_ s'. server_ok E S s' \<and> (\<forall>b. b \<noteq> a \<longrightarrow> heap s' b = heap s b) \<and>
    clients s' = clients s \<and> (\<forall>b d. b \<noteq> a \<longrightarrow> heap s b = Some d \<longrightarrow> set (belongs b d) \<subseteq> held (trace s')) \<and>
    (\<exists>c'. heap s' a = Some c' \<and> socket c' = socket c \<and> buf c' = buf c))"
proof -
  have a: "a \<in> set (active s)" using server_heap[OF assms(2)] assms(3) by blast
  note g = server_good[OF assms(2) a]
  show ?thesis
  proof (rule upon_mono[OF triple_upon[OF process_command_keeps[OF allows_False[OF assms(1)] g idle_not_busy[OF g assms(3,4)] assms(5,6)]]])
    fix r s'
    assume st: "stays E a (rest_of S a s) s s'"
    have ok: "server_ok E S s'" using server_lives[OF assms(2) a stays_lives[OF st]] by blast
    have same: "\<forall>b. b \<noteq> a \<longrightarrow> heap s' b = heap s b" using st by (simp add: stays_def)
    have "set (belongs b d) \<subseteq> held (trace s')" if "b \<noteq> a" "heap s b = Some d" for b d
      using that same ok crowd_member[of E S "set (active s')" s' b d] by (simp add: server_ok_def member_ok_def)
    then show "server_ok E S s' \<and> (\<forall>b. b \<noteq> a \<longrightarrow> heap s' b = heap s b) \<and> clients s' = clients s \<and>
        (\<forall>b d. b \<noteq> a \<longrightarrow> heap s b = Some d \<longrightarrow> set (belongs b d) \<subseteq> held (trace s')) \<and>
        (\<exists>c'. heap s' a = Some c' \<and> socket c' = socket c \<and> buf c' = buf c)"
      using ok same st assms(3) unfolding stays_def by simp
  qed
qed

lemma command_isolated_witness:
  "upon (process_command wii 7 ''PASS x'' one_state) (\<lambda>_ s'. \<exists>c'. heap s' 7 = Some c' \<and> socket c' = 8)"
  by (rule upon_mono[OF command_isolated[OF _ one_server_ok, where c = one_client]])
     (auto simp: FTP_BUFFER_SIZE_def one_client_def new_client_def)

text \<open>
  C10: every command line but one of \<open>SITE\<close> comes back, with the invariant of its client, whether network,
  devices and memory do what they are asked or fail, under the laws of the environment. Of these the ones
  that a command could fail without are that objects have paths shorter than \<open>MAXPATHLEN\<close> by two, which
  \<open>CWD\<close> relies on, that files have less than \<open>10 ^ 11\<close> bytes, which \<open>SIZE\<close> relies on, and that the
  clock runs, which waits for the drive rely on. (\<open>SITE LOAD\<close> may never come back, and \<open>SITE PASSWD\<close> ends the
  program when memory runs out.)
\<close>

theorem commands_return:
  assumes "server_laws E" "good E a F s" "idle a s" "NUL \<notin> set line" "length line < FTP_BUFFER_SIZE"
    "split2 line = Some (n, cmd, rest)" "\<not> strcaseeq ''SITE'' cmd"
  shows "returns (process_command E a line s) (\<lambda>r s'. stays E a F s s')"
proof -
  have go: "returns (h a v s) (\<lambda>_ s'. stays E a F s s')" if "handles E h" "length v \<le> length line" "set v \<subseteq> set line" for h v
    by (rule handlesD[OF that(1)]) (use assms that in \<open>auto simp: ready_def\<close>)
  have "returns (dispatch_to_handler a line authenticated_commands (authenticated_handlers E) s) (\<lambda>_ s'. stays E a F s s')"
  proof -
    obtain h w v where h: "dispatch_to_handler a line authenticated_commands (authenticated_handlers E) s = h a v s"
      "h = authenticated_handlers E ! command_index authenticated_commands w" "length v \<le> length line" "set v \<subseteq> set line"
      "snd (padded 1 (split_ref (CHR '' '') 1 line)) = [w, v]"
      using authenticated_table.dispatched[OF assms(5), of E False 0 a s] by blast
    have "w = cmd" using split2_words[OF assms(5)] h(5) assms(6) by auto
    have "command_index authenticated_commands cmd \<noteq> 24"
      using command_index_hit[of authenticated_commands cmd] assms(7) by (auto simp: authenticated_commands_def)
    moreover have "command_index authenticated_commands cmd < length (authenticated_handlers E)"
      by (rule authenticated_table.index_in_range)
    ultimately have "h \<in> set (take 24 (authenticated_handlers E)) \<union> set (drop (Suc 24) (authenticated_handlers E))"
      unfolding h(2) \<open>w = cmd\<close> by (intro nth_except)
    then have "handles E h"
      using handles_rules[OF assms(1)] by (auto simp: authenticated_handlers_def)
    then show ?thesis using go h(1,3,4) by simp
  qed
  moreover have "returns (dispatch_to_handler a line unauthenticated_commands (unauthenticated_handlers E) s) (\<lambda>_ s'. stays E a F s s')"
    using unauthenticated_table.dispatched[OF assms(5), of E a s] assms(1) go by metis
  ultimately show ?thesis
    unfolding process_command_def
    by (auto simp: stays_refl[OF assms(2)] intro!: returns_mono[OF deref_good[OF assms(2)]])
qed

lemma commands_return_witness:
  "returns (process_command wii 7 ''Cwd  /sd'' one_state) (\<lambda>r s'. heap s' 7 \<noteq> None)"
proof -
  have "split2 ''Cwd  /sd'' = Some (2, ''Cwd'', ''/sd'')" "\<not> strcaseeq ''SITE'' ''Cwd''" by code_simp+
  from commands_return[OF _ one_good one_idle _ _ this] show ?thesis
    by (auto simp: FTP_BUFFER_SIZE_def stays_def elim!: returns_mono)
qed

text \<open>
  C39: a name that is not in the table is answered by 502, or by 530 before the login, and does
  nothing else: the only calls are on the client's control socket, and no variable changes but
  the size of the network buffer.
\<close>

theorem unknown_command:
  assumes "write_bounded E" "length line < FTP_BUFFER_SIZE" "line \<noteq> []" "heap s a = Some c" "split2 line = Some (n, cmd, rest)"
    "\<not> (\<exists>x \<in> set (if authenticated c then authenticated_commands else unauthenticated_commands). strcaseeq x cmd)"
  shows "returns (process_command E a line s) (\<lambda>r s'. net_frame (sock_io (socket c)) s s' \<and>
    transfer_result sent (socket c) ((if authenticated c then ''502 Command not implemented.''
      else ''530 Please login with USER and PASS.'') @ CRLF) (trace s) r (trace s'))"
proof -
  note reply = reply_sends[OF assms(4,1)]
  have replies: "reply_text 502 ''Command not implemented.'' = ''502 Command not implemented.'' @ CRLF"
    "reply_text 530 ''Please login with USER and PASS.'' = ''530 Please login with USER and PASS.'' @ CRLF"
    by (simp_all add: reply_text_def dec_codes)
  have last: "last (authenticated_handlers E) = ftp_UNKNOWN E" "last (unauthenticated_handlers E) = ftp_NEEDAUTH E"
    by (simp_all add: authenticated_handlers_def unauthenticated_handlers_def)
  have "process_command E a line s = (if authenticated c then ftp_UNKNOWN E a rest s else ftp_NEEDAUTH E a rest s)"
    unfolding process_command_dispatch[OF assms(2-5)] using assms(6)
    by (simp add: authenticated_table.unknown_last unauthenticated_table.unknown_last last del: bex_simps ball_simps split: if_splits)
  then show ?thesis
    using reply[of 502 "''Command not implemented.''"] reply[of 530 "''Please login with USER and PASS.''"]
    by (simp only: replies ftp_UNKNOWN_def ftp_NEEDAUTH_def is_code_simps split: if_split) simp
qed

lemma unknown_command_witness:
  "returns (process_command wii 7 ''RETR x'' one_state) (\<lambda>r s'. r = 0 \<longrightarrow>
     sent 8 (trace s') = ''530 Please login with USER and PASS.'' @ CRLF)"
proof -
  have "split2 ''RETR x'' = Some (2, ''RETR'', ''x'')" "\<not> (\<exists>x \<in> set unauthenticated_commands. strcaseeq x ''RETR'')"
    by code_simp+
  moreover have "socket one_client = 8" "\<not> authenticated one_client" "sent 8 (trace one_state) = []"
    by (simp_all add: one_client_def new_client_def one_state_def sent_by_def)
  ultimately show ?thesis
    using unknown_command[of wii "''RETR x''" one_state 7 one_client 2 "''RETR''" "''x''"]
    by (auto simp: FTP_BUFFER_SIZE_def transfer_result_def elim!: returns_mono)
qed

section \<open>Lines\<close>

text \<open>
  What the loop over the buffer is to do: take the buffer apart into the lines that CRLF ends and
  a rest, and serve the lines one after the other.
\<close>

function crlf_lines :: "string \<Rightarrow> string list \<times> string" where
  "crlf_lines t = (case strstr t CRLF of
     None \<Rightarrow> ([], t)
   | Some i \<Rightarrow> (case crlf_lines (drop (i + 2) t) of (ls, tail) \<Rightarrow> (take i t # ls, tail)))"
  by auto
termination
  by (relation "measure length") (auto dest!: strstr_bound simp: CRLF_def)

declare crlf_lines.simps [simp del]

definition join_lines :: "string list \<Rightarrow> string \<Rightarrow> string" where
  "join_lines ls tail = concat (map (\<lambda>l. l @ CRLF) ls) @ tail"

fun serve_lines :: "env \<Rightarrow> int \<Rightarrow> string list \<Rightarrow> string \<Rightarrow> 'z ftp_st_scheme \<Rightarrow> (string option \<times> 'z ftp_st_scheme) option" where
  "serve_lines E a [] tail s = do { (c, s) \<leftarrow> deref a s; Some (Some tail, s) }"
| "serve_lines E a (l # ls) tail s = do {
     (c, s) \<leftarrow> deref a s;
     if data_callback c \<noteq> None then Some (Some (join_lines (l # ls) tail), s)
     else if LF \<in> set l then Some (None, s)
     else do {
       (result, s) \<leftarrow> process_command E a l s;
       if result < 0 then Some (None, s) else serve_lines E a ls tail s
     }
   }"

lemma crlf_lines_None: "strstr t CRLF = None \<Longrightarrow> crlf_lines t = ([], t)"
  by (subst crlf_lines.simps) simp

lemma crlf_lines_Some:
  "strstr t CRLF = Some i \<Longrightarrow> crlf_lines (drop (i + 2) t) = (ls, tail) \<Longrightarrow> crlf_lines t = (take i t # ls, tail)"
  by (subst crlf_lines.simps) simp

lemma crlf_lines_join: "crlf_lines t = (ls, tail) \<Longrightarrow> join_lines ls tail = t \<and> strstr tail CRLF = None"
proof (induction t arbitrary: ls rule: crlf_lines.induct)
  case (1 t)
  show ?case
  proof (cases "strstr t CRLF")
    case None
    then show ?thesis using 1(2) crlf_lines_None[OF None] by (simp add: join_lines_def)
  next
    case (Some i)
    obtain ms u where ms: "crlf_lines (drop (i + 2) t) = (ms, u)" by (cases "crlf_lines (drop (i + 2) t)")
    then have l: "ls = take i t # ms" "u = tail" using 1(2) crlf_lines_Some[OF Some ms] by simp_all
    have "drop i t = CRLF @ drop (i + 2) t"
      using strstr_SomeD[OF Some] append_take_drop_id[of 2 "drop i t"] by (simp add: CRLF_def numeral_2_eq_2)
    then have "take i t @ CRLF @ drop (i + 2) t = t" using append_take_drop_id[of i t] by simp
    then show ?thesis using 1(1)[OF Some, of ms] ms l by (simp add: join_lines_def)
  qed
qed

text \<open>
  C6: the loop over the control buffer is the serving of its lines in order: each line up to its
  CRLF is one command, the empty ones are skipped, a line with a bare LF or a command whose
  reply fails ends the connection; a command that starts a transfer stops the loop, which keeps
  all lines after it, and otherwise the unfinished rest is kept.
\<close>

theorem process_lines_serves:
  "process_lines E a t s = (case crlf_lines t of (ls, tail) \<Rightarrow> serve_lines E a ls tail s)"
proof (induction t arbitrary: s rule: crlf_lines.induct)
  case (1 t)
  show ?case
  proof (cases "strstr t CRLF")
    case None
    then show ?thesis by (subst process_lines.simps, subst crlf_lines.simps) simp
  next
    case (Some i)
    obtain ls tail where d: "crlf_lines (drop (i + 2) t) = (ls, tail)" by (cases "crlf_lines (drop (i + 2) t)")
    note l = crlf_lines_Some[OF Some d] d
    have skip: "(if take i t \<noteq> [] then process_command E a (take i t) s' else Some (0, s')) = process_command E a (take i t) s'" for s'
      by (simp only: process_command_def if_not_P split: if_split) simp
    have "join_lines (take i t # ls) tail = t" using crlf_lines_join[OF l(1)] by simp
    then show ?thesis
      using 1[OF Some] by (subst process_lines.simps) (simp only: Some l option.case prod.case skip serve_lines.simps)
  qed
qed

lemma strstr_more: "strstr t p = Some i \<Longrightarrow> strstr (t @ u) p = Some i"
proof (induction t arbitrary: i)
  case (Cons x xs)
  show ?case
  proof (cases "take (length p) (x # xs) = p")
    case True
    then have "length p \<le> length (x # xs)" by (metis length_take min.cobounded2 min.commute)
    then have "take (length p) ((x # xs) @ u) = p" using True by (simp only: take_append) simp
    then show ?thesis using Cons.prems True by simp
  next
    case False
    then obtain j where j: "strstr xs p = Some j" "i = Suc j" using Cons.prems by auto
    then have "length p \<le> length (x # xs)" using strstr_bound[OF j(1)] by simp
    then have "take (length p) ((x # xs) @ u) \<noteq> p" using False by (simp only: take_append) simp
    then show ?thesis using Cons.IH[OF j(1)] j by simp
  qed
qed simp

text \<open>Going on after a first piece.\<close>

lemma process_lines_append:
  assumes "process_lines E a t s = Some (Some tail, s1)"
  shows "process_lines E a (t @ u) s = process_lines E a (tail @ u) s1"
  using assms
proof (induction "length t" arbitrary: t s rule: less_induct)
  case less
  obtain c where c: "deref a s = Some (c, s)"
    using less.prems by (subst (asm) process_lines.simps) (auto simp: deref_def split: option.splits)
  show ?case
  proof (cases "strstr t CRLF")
    case None
    then have "tail = t" "s1 = s" using less.prems by (subst (asm) process_lines.simps, simp add: c)+
    then show ?thesis by simp
  next
    case (Some i)
    note n = strstr_bound[OF Some]
    let ?m = "if take i t \<noteq> [] then process_command E a (take i t) s else Some (0, s)"
    have piece: "take i (t @ u) = take i t" "drop (i + 2) (t @ u) = drop (i + 2) t @ u"
      using n by (simp_all add: CRLF_def)
    note run = less.prems[unfolded process_lines.simps[of E a t s] c Some]
    show ?thesis
    proof (cases "data_callback c = None")
      case False
      then show ?thesis using run by simp
    next
      case True
      then obtain r s2 where r: "?m = Some (r, s2)" "\<not> r < 0" "LF \<notin> set (take i t)"
        "process_lines E a (drop (i + 2) t) s2 = Some (Some tail, s1)"
        using run by (auto split: if_splits simp: bind_eq_Some_conv)
      have "length (drop (i + 2) t) < length t" using n by (simp add: CRLF_def)
      from less.hyps[OF this r(4)] show ?thesis
        by (subst process_lines.simps)
          (simp only: c strstr_more[OF Some] option.case prod.case Option.bind.simps True piece r(1-3) simp_thms if_False)
    qed
  qed
qed

lemma process_lines_stop:
  assumes "process_lines E a t s = Some (None, s1)"
  shows "process_lines E a (t @ u) s = Some (None, s1)"
  using assms
proof (induction "length t" arbitrary: t s rule: less_induct)
  case less
  obtain c where c: "deref a s = Some (c, s)"
    using less.prems by (subst (asm) process_lines.simps) (auto simp: deref_def split: option.splits)
  obtain i where i: "strstr t CRLF = Some i"
    using less.prems by (subst (asm) process_lines.simps) (auto simp: c split: option.splits)
  note n = strstr_bound[OF i]
  have piece: "take i (t @ u) = take i t" "drop (i + 2) (t @ u) = drop (i + 2) t @ u"
    using n by (simp_all add: CRLF_def)
  have "length (drop (i + 2) t) < length t" using n by (simp add: CRLF_def)
  note less.hyps[OF this]
  then show ?case
    using less.prems[unfolded process_lines.simps[of E a t s] c i]
    by (subst process_lines.simps)
      (simp only: c strstr_more[OF i] option.case prod.case Option.bind.simps piece, auto simp: bind_eq_Some_conv split: if_splits)
qed

lemma process_lines_undefined:
  assumes "process_lines E a t s = None"
  shows "process_lines E a (t @ u) s = None"
  using assms
proof (induction "length t" arbitrary: t s rule: less_induct)
  case less
  show ?case
  proof (cases "heap s a")
    case None
    then show ?thesis by (subst process_lines.simps) (simp add: deref_def)
  next
    case (Some c)
    then have c: "deref a s = Some (c, s)" by (simp add: deref_def)
    obtain i where i: "strstr t CRLF = Some i"
      using less.prems by (subst (asm) process_lines.simps) (auto simp: c split: option.splits)
    note n = strstr_bound[OF i]
    have piece: "take i (t @ u) = take i t" "drop (i + 2) (t @ u) = drop (i + 2) t @ u"
      using n by (simp_all add: CRLF_def)
    have "length (drop (i + 2) t) < length t" using n by (simp add: CRLF_def)
    note hyps = less.hyps[OF this]
    note run = less.prems[unfolded process_lines.simps[of E a t s] c i option.case prod.case Option.bind.simps]
    note goal = process_lines.simps[of E a "t @ u" s, unfolded c strstr_more[OF i] option.case prod.case Option.bind.simps piece]
    show ?thesis
    proof (cases "if take i t \<noteq> [] then process_command E a (take i t) s else Some (0, s)")
      case None
      show ?thesis using run unfolding goal None by (auto split: if_splits)
    next
      case (Some v)
      obtain r s2 where "v = (r, s2)" by (cases v)
      then show ?thesis using run hyps[of s2] unfolding goal Some by (auto split: if_splits)
    qed
  qed
qed

text \<open>The loop on one piece after the other, each behind the rest that the loop left of those before.\<close>

fun process_pieces :: "env \<Rightarrow> int \<Rightarrow> string \<Rightarrow> string list \<Rightarrow> 'z ftp_st_scheme \<Rightarrow> (string option \<times> 'z ftp_st_scheme) option" where
  "process_pieces E a rest [] s = Some (Some rest, s)"
| "process_pieces E a rest (p # ps) s = do {
     (nxt, s) \<leftarrow> process_lines E a (rest @ p) s;
     (case nxt of None \<Rightarrow> Some (None, s) | Some rest \<Rightarrow> process_pieces E a rest ps s)
   }"

text \<open>
  C7: the loop over the control buffer does not depend on how a text is cut. Running it on one piece
  after the other, each behind the rest that the loop left of the pieces before and with nothing in between,
  has the result of one run on the whole text: the same commands in the same order, the same end
  at a wrong line, a failed reply or a command that starts a transfer, and the same rest. (The
  function around it, \<open>process_control_events\<close>, does other things in between, and leaves lines behind a command
  that started a transfer until more text arrives.)
\<close>

theorem process_lines_pieces:
  "process_pieces E a rest (p # ps) s = process_lines E a (rest @ concat (p # ps)) s"
proof (induction ps arbitrary: rest p s)
  case Nil
  show ?case by (cases "process_lines E a (rest @ p) s") (auto split: option.split)
next
  case (Cons q qs)
  have go: "process_lines E a (rest @ concat (p # q # qs)) s = process_lines E a ((rest @ p) @ concat (q # qs)) s" by simp
  show ?case
  proof (cases "process_lines E a (rest @ p) s")
    case None
    then show ?thesis unfolding go by (simp only: process_lines_undefined[OF None]) simp
  next
    case (Some v)
    obtain nxt s1 where v: "v = (nxt, s1)" by (cases v)
    note run = Some[unfolded v]
    show ?thesis
    proof (cases nxt)
      case None
      then show ?thesis
        unfolding go process_lines_stop[OF run[unfolded None]] by (subst process_pieces.simps) (simp add: run)
    next
      case (Some tail)
      have "process_pieces E a rest (p # q # qs) s = process_pieces E a tail (q # qs) s1"
        by (subst process_pieces.simps) (simp only: run Some Option.bind.simps prod.case option.case)
      then show ?thesis
        unfolding go process_lines_append[OF run[unfolded Some]] by (simp only: Cons.IH)
    qed
  qed
qed

section \<open>Before the login\<close>

lemma session_sock_io: "sock_io (socket c) x \<Longrightarrow> session_io c x"
  by (simp add: session_io_def)

lemma login_changes:
  assumes "write_bounded E" "heap s a = Some c"
  shows "returns (modify a (\<lambda>c. c\<lparr>authenticated := True\<rparr>) s) (\<lambda>_ s1. returns (write_reply E a 230 ''User logged in, proceed.'' s1)
    (\<lambda>_ s'. changed (session_io c) a (c\<lparr>authenticated := True\<rparr>) s s'))"
  by (rule returns_mono[OF changed_modify[OF changed_refl[OF assms(2)]]], rule changed_reply[OF _ assms(1)])
     (auto intro: session_sock_io)

lemma rein_changes:
  assumes "write_bounded E" "heap s a = Some c"
  shows "returns (ftp_REIN E a rest s) (\<lambda>_ s'. changed (session_io c) a (c\<lparr>passive_socket := if 0 \<le> passive_socket c then -1
    else passive_socket c, cwd := ''/'', representation_type := CHR ''A'', authenticated := False\<rparr>) s s')"
  unfolding ftp_REIN_def
  by (simp only: returns_bind prod.case)
    (rule returns_mono[OF changed_close_passive[OF changed_refl[OF assms(2)]]], rule returns_mono[OF changed_modify], assumption,
      rule changed_reply[OF _ assms(1)], auto intro: session_sock_io)

text \<open>
  C5: a client that has not logged in reaches nothing: its commands always come back, call the
  network on its own sockets only - no file, directory, device or memory block is touched, no socket
  opened - and change no variable but its own record: \<open>PASS\<close> with the right password logs it in,
  \<open>REIN\<close> resets it, and nothing else changes it.
\<close>

theorem unauthenticated_confined:
  assumes "write_bounded E" "length line < FTP_BUFFER_SIZE" "heap s a = Some c" "\<not> authenticated c" "split2 line = Some (n, cmd, rest)"
  shows "returns (process_command E a line s) (\<lambda>r s'. \<exists>c'. changed (session_io c) a c' s s' \<and>
    (c' = c \<or> c' = c\<lparr>authenticated := True\<rparr> \<and> strcaseeq ''PASS'' cmd \<and> compare_ftp_password rest s \<or>
     strcaseeq ''REIN'' cmd \<and> c' = c\<lparr>passive_socket := if 0 \<le> passive_socket c then -1 else passive_socket c,
       cwd := ''/'', representation_type := CHR ''A'', authenticated := False\<rparr>))"
proof (cases "line = []")
  case True
  then show ?thesis using changed_refl[OF assms(3)] by (auto simp: process_command_def)
next
  case False
  let ?i = "command_index unauthenticated_commands cmd"
  note run = process_command_dispatch[OF assms(2) False assms(3,5)]
  have same: "returns (write_reply E a k msg s) (\<lambda>_ s'. changed (session_io c) a c s s')" if "is_code k" for k msg
    by (rule changed_reply[OF changed_refl[OF assms(3)] assms(1) that session_sock_io])
  have hit: "?i < length unauthenticated_commands \<Longrightarrow> strcaseeq (unauthenticated_commands ! ?i) cmd"
    by (rule command_index_hit)
  have len: "length unauthenticated_commands = 5" by (simp add: unauthenticated_commands_def)
  have "?i \<le> 5" using command_index_le[of unauthenticated_commands cmd] len by simp
  then consider "?i = 0" | "?i = 1" | "?i = 2" | "?i = 3" | "?i = 4" | "?i = 5" by linarith
  then show ?thesis
  proof cases
    case 2
    have "strcaseeq ''PASS'' cmd" using hit 2 len by (simp add: unauthenticated_commands_def)
    moreover note login_changes[OF assms(1,3)]
    ultimately show ?thesis
      unfolding run using assms(4) 2
      by (auto simp: unauthenticated_handlers_def ftp_PASS_def intro!: returns_mono[OF same] elim!: returns_mono)
  next
    case 4
    have "strcaseeq ''REIN'' cmd" using hit 4 len by (simp add: unauthenticated_commands_def)
    moreover note rein_changes[OF assms(1,3), of rest]
    ultimately show ?thesis
      unfolding run using assms(4) 4
      by (auto simp: unauthenticated_handlers_def numeral_3_eq_3 elim!: returns_mono)
  qed (use assms(4) in \<open>auto simp: run unauthenticated_handlers_def ftp_USER_def ftp_QUIT_def ftp_NOOP_def ftp_NEEDAUTH_def
      intro!: returns_mono[OF same]\<close>)
qed

lemma unauthenticated_confined_witness:
  "returns (process_command wii 7 ''pass hunter2'' (one_state\<lparr>password := Some (9, ''hunter3'')\<rparr>))
    (\<lambda>r s'. map_option authenticated (heap s' 7) = Some False)"
proof -
  have "split2 ''pass hunter2'' = Some (2, ''pass'', ''hunter2'')" "\<not> strcaseeq ''REIN'' ''pass''" by code_simp+
  moreover have "\<not> authenticated one_client" by (simp add: one_client_def new_client_def)
  ultimately show ?thesis
    using unauthenticated_confined[of wii "''pass hunter2''" "one_state\<lparr>password := Some (9, ''hunter3'')\<rparr>" 7 one_client 2]
    by (auto simp: FTP_BUFFER_SIZE_def compare_ftp_password_def changed_heap elim!: returns_mono)
qed

section \<open>Data connections that are not made\<close>











end
