(* ===== verification/Session_Properties.thy ===== *)
theory Session_Properties
  imports Samples Effects Scanning Naming
begin

text \<open>Properties of the commands of a session: login, ports, positions, sizes and renaming.\<close>

section \<open>Numbers on the wire\<close>

lemma byte_small: "unat (x AND 0xff :: u32) < 1000" "unat (y AND 0xff :: u16) < 1000"
proof -
  have "x AND 0xff \<le> 0xff" "y AND 0xff \<le> 0xff" by (rule word_and_le1)+
  then show "unat (x AND 0xff) < 1000" "unat (y AND 0xff) < 1000" by (simp_all add: word_le_nat_alt)
qed

lemma low_byte: "0xff = (mask 8 :: u32)" "0xff = (mask 8 :: u16)"
  by (simp_all add: mask_eq_exp_minus_1)

lemma word_of_bytes:
  "push_bit 24 (drop_bit 24 ip AND 0xff) OR push_bit 16 (drop_bit 16 ip AND 0xff) OR
   push_bit 8 (drop_bit 8 ip AND 0xff) OR (ip AND 0xff) = (ip :: u32)"
proof (rule bit_word_eqI)
  fix n assume "n < LENGTH(32)"
  then show "bit (push_bit 24 (drop_bit 24 ip AND 0xff) OR push_bit 16 (drop_bit 16 ip AND 0xff) OR
      push_bit 8 (drop_bit 8 ip AND 0xff) OR (ip AND 0xff)) n = bit ip n"
  proof -
    consider "n < 8" | "8 \<le> n" "n < 16" | "16 \<le> n" "n < 24" | "24 \<le> n" by linarith
    then show ?thesis
      unfolding low_byte by cases (use \<open>n < LENGTH(32)\<close> in \<open>simp only: bit_simps, auto\<close>)+
  qed
qed

lemma port_of_bytes: "port_number (ucast (drop_bit 8 port AND 0xff)) (ucast (port AND 0xff)) = port"
proof (rule bit_word_eqI)
  fix n assume "n < LENGTH(16)"
  then show "bit (port_number (ucast (drop_bit 8 port AND 0xff)) (ucast (port AND 0xff))) n = bit port n"
    unfolding port_number_def low_byte by (simp only: bit_simps) auto
qed

text \<open>
  C21: a client that sends back the six numbers of a \<open>PASV\<close> reply in a \<open>PORT\<close> command names the
  same address and port: the scanner of \<open>PORT\<close> reads what \<open>PASV\<close> prints, for every address and
  port.
\<close>

theorem passive_reply_parses:
  "\<exists>vs. scan_list 6 (drop (length ''Entering Passive Mode ('') (passive_reply ip port)) = Some vs \<and>
     push_bit 24 (vs ! 0) OR push_bit 16 (vs ! 1) OR push_bit 8 (vs ! 2) OR (vs ! 3) = ip \<and>
     port_number (vs ! 4) (vs ! 5) = port"
proof -
  let ?ns = "[unat (drop_bit 16 ip AND 0xff), unat (drop_bit 8 ip AND 0xff), unat (ip AND 0xff),
    unat (drop_bit 8 port AND 0xff), unat (port AND 0xff)]"
  let ?n = "unat (drop_bit 24 ip AND 0xff)"
  have "drop (length ''Entering Passive Mode ('') (passive_reply ip port) =
      dec ?n @ concat (map (\<lambda>n. CHR '','' # dec n) ?ns) @ '').''"
    by (simp add: passive_reply_def)
  moreover have "scan_list (length (?n # ?ns)) (dec ?n @ concat (map (\<lambda>n. CHR '','' # dec n) ?ns) @ '').'') =
      Some (map of_nat (?n # ?ns))"
    using byte_small by (intro scan_list_dec) (simp_all add: stops_def digit_value_def)
  moreover have "length (?n # ?ns) = 6" by simp
  ultimately have "scan_list 6 (drop (length ''Entering Passive Mode ('') (passive_reply ip port)) = Some (map of_nat (?n # ?ns))"
    by (simp only:)
  moreover have "push_bit 24 (map of_nat (?n # ?ns) ! 0) OR push_bit 16 (map of_nat (?n # ?ns) ! 1) OR
      push_bit 8 (map of_nat (?n # ?ns) ! 2) OR (map of_nat (?n # ?ns) ! 3) = ip"
    using word_of_bytes[of ip] by simp
  moreover have "port_number (map of_nat (?n # ?ns) ! 4) (map of_nat (?n # ?ns) ! 5) = port"
    using port_of_bytes[of port] by simp
  ultimately show ?thesis by blast
qed

text \<open>
  C20: \<open>REST\<close> stores every position of 63 bits that a client sends in decimal, changes nothing else,
  and calls nothing but the client's control socket.
\<close>

theorem rest_sets_marker:
  assumes "heap s a = Some c" "write_bounded E" "n < 2 ^ 63"
  shows "returns (ftp_REST E a (dec n) s) (\<lambda>r s'. changed (sock_io (socket c)) a (c\<lparr>restart_marker := int n\<rparr>) s s')"
proof -
  have "length (dec n) \<le> 19" by (rule dec_length_mono[OF assms(3)]) simp_all
  then have fit: "sprintf FTP_BUFFER_SIZE (''Restart position accepted ('' @ dec_int (int n) @ '').'') =
      Some (''Restart position accepted ('' @ dec_int (int n) @ '').'')"
    by (simp add: sprintf_def FTP_BUFFER_SIZE_def dec_int_def)
  have pos: "\<not> int n < 0" by simp
  have reply: "returns (write_reply E a 350 msg s1) (\<lambda>_ s'. changed (sock_io (socket c)) a (c\<lparr>restart_marker := int n\<rparr>) s s')"
    if "changed (sock_io (socket c)) a (c\<lparr>restart_marker := int n\<rparr>) s s1" for s1 msg
    by (rule changed_reply[OF that assms(2)]) simp_all
  show ?thesis
    unfolding ftp_REST_def scan_lli_dec[OF assms(3)] option.case
    by (simp only: pos if_False fit bind.bind_lunit returns_bind prod.case)
      (rule returns_mono[OF changed_modify[OF changed_refl[OF assms(1)]]], erule reply)
qed

lemma rest_sets_marker_witness:
  "returns (ftp_REST wii 7 ''4096'' one_state) (\<lambda>r s'. map_option restart_marker (heap s' 7) = Some 4096)"
  using rest_sets_marker[of one_state 7 one_client wii 4096]
  by (auto simp: dec_codes dest!: changed_heap elim!: returns_mono)

text \<open>
  C19: the array of \<open>SIZE\<close> for the digits has room for eleven: the size of a file of \<open>10 ^ 11\<close> bytes or more
  is written past its end, and every smaller one is sent in full.
\<close>

theorem size_bound:
  assumes "heap s a = Some c" "write_bounded E" "vrt_stat E (cwd c) path (garbage_stat E) s = Some ((0, st), s1)"
    "heap s1 a = Some c"
  shows "if 10 ^ 11 \<le> unat (st_size st) then ftp_SIZE E a path s = None
    else returns (ftp_SIZE E a path s) (\<lambda>r s'. transfer_result sent (socket c)
      (''213 '' @ dec (unat (st_size st)) @ CRLF) (trace s1) r (trace s'))"
proof (cases "10 ^ 11 \<le> unat (st_size st)")
  case True
  then have "11 < length (dec (unat (st_size st)))" by (rule dec_length_ge)
  then show ?thesis
    using True assms(1,3) by (simp add: ftp_SIZE_def deref_def sprintf_def)
next
  case False
  then have fit: "length (dec (unat (st_size st))) \<le> 11" by (intro dec_length_mono[of _ "10 ^ 11"]) simp_all
  have t: "reply_text 213 m = ''213 '' @ m @ CRLF" for m by (simp add: reply_text_def dec_codes)
  from reply_sends[OF assms(4,2), of 213 "dec (unat (st_size st))"]
  have "returns (write_reply E a 213 (dec (unat (st_size st))) s1) (\<lambda>r s'. transfer_result sent (socket c)
      (''213 '' @ dec (unat (st_size st)) @ CRLF) (trace s1) r (trace s'))"
    unfolding t by (rule returns_mono) simp_all
  then show ?thesis
    using False fit assms(1,3) by (simp add: ftp_SIZE_def deref_def sprintf_def)
qed

lemma size_bound_witness:
  "ftp_SIZE (sample_env (\<lambda>h c. case c of CFile (Stat q) \<Rightarrow> Some ((ok 0)\<lparr>stat_out := \<lparr>st_mode = 0, st_size = 10 ^ 11, st_mtime = 0\<rparr>\<rparr>)
     | _ \<Rightarrow> None)) 7 ''sd/x'' one_state = None"
proof -
  let ?E = "sample_env (\<lambda>h c. case c of CFile (Stat q) \<Rightarrow> Some ((ok 0)\<lparr>stat_out := \<lparr>st_mode = 0, st_size = 10 ^ 11, st_mtime = 0\<rparr>\<rparr>)
     | _ \<Rightarrow> None)"
  have "map_option (\<lambda>((r, st), s1). (r, st_size st, heap s1 7)) (vrt_stat ?E ''/'' ''sd/x'' (garbage_stat ?E) one_state) =
      Some (0, 10 ^ 11, Some one_client)"
    by code_simp
  moreover have "write_bounded ?E" by (rule sample_bounded) (auto split: file_call.splits)
  moreover have "cwd one_client = ''/''" "heap one_state 7 = Some one_client" by (simp_all add: one_client_def new_client_def)
  ultimately show ?thesis
    using size_bound[of one_state 7 one_client ?E "''sd/x''"] by (auto split: if_splits)
qed

section \<open>Passwords\<close>

text \<open>
  C23: after \<open>SITE PASSWD p\<close> a client is logged in by \<open>PASS\<close> with exactly \<open>p\<close>, after \<open>SITE
  NOPASSWD\<close> by any; a wrong password changes nothing. (Setting a password needs memory.)
\<close>

theorem password_decides:
  assumes "heap s a = Some c" "set (pw_res s) \<subseteq> held (trace s)" "write_bounded E"
    "\<And>h n. ret (answer E h (CMem (Malloc n))) \<noteq> 0"
  shows "returns (do { (_, s1) \<leftarrow> set_ftp_password E pw s; ftp_PASS E a q s1 }) (\<lambda>r s'. heap s' = (heap s)(a \<mapsto>
    c\<lparr>authenticated := authenticated c \<or> (case pw of None \<Rightarrow> True | Some p \<Rightarrow> q = p)\<rparr>))"
proof -
  have set: "returns (set_ftp_password E pw s) (\<lambda>_ s1. heap s1 = heap s \<and> map_option snd (password s1) = pw)"
    unfolding set_ftp_password_def free_def malloc_def
    using assms(2,4) by (auto simp: returns_ext Let_def pw_res_def split: option.splits)
  have reply: "returns (write_reply E a k msg s1) (\<lambda>_ s'. heap s' = (heap s)(a \<mapsto> d))"
    if "heap s1 = (heap s)(a \<mapsto> d)" "is_code k" for d k msg s1
    by (rule returns_mono[OF reply_sends[OF _ assms(3) that(2)]]) (auto simp: that dest!: net_frame_upper(1) simp: upper_def)
  have login: "returns (ftp_PASS E a q s1) (\<lambda>r s'. heap s' = (heap s)(a \<mapsto>
      c\<lparr>authenticated := authenticated c \<or> (case pw of None \<Rightarrow> True | Some p \<Rightarrow> q = p)\<rparr>))"
    if s1: "heap s1 = heap s" "map_option snd (password s1) = pw" for s1
  proof -
    have cmp: "compare_ftp_password q s1 \<longleftrightarrow> (case pw of None \<Rightarrow> True | Some p \<Rightarrow> q = p)"
      using s1(2) by (auto simp: compare_ftp_password_def split: option.splits)
    have same: "heap s1 = (heap s)(a \<mapsto> c\<lparr>authenticated := authenticated c\<rparr>)"
      using s1(1) assms(1) by (auto simp: fun_eq_iff)
    show ?thesis
      unfolding ftp_PASS_def cmp modify_def
      using reply[OF same] s1(1) assms(1) by (simp add: reply)
  qed
  show ?thesis
    by (simp only: returns_bind prod.case) (rule returns_mono[OF set], elim conjE, rule login)
qed

lemma password_decides_witness:
  "returns (do { (_, s1) \<leftarrow> set_ftp_password wii (Some ''secret'') one_state; ftp_PASS wii 7 ''Secret'' s1 })
    (\<lambda>r s'. map_option authenticated (heap s' 7) = Some False)"
proof -
  have "ret (answer wii h (CMem (Malloc n))) \<noteq> 0" for h n
    using next_id_pos[of h] by (simp add: wii_def wii_script_def)
  moreover have "\<not> authenticated one_client" by (simp add: one_client_def new_client_def)
  ultimately show ?thesis
    by (intro returns_mono[OF password_decides[where c = one_client]]) (auto simp: pw_res_def)
qed

section \<open>Renaming\<close>

text \<open>An error reply, whatever the text of the error.\<close>

lemma error_sends:
  assumes "heap s a = Some c" "write_bounded E" "is_code n"
    and "\<And>x. sock_io (socket c) x \<Longrightarrow> C x" "\<And>m. C (CSys (Strerror m))"
  shows "returns (write_error E a n m s) (\<lambda>r s'. talks C s s' \<and> (\<exists>msg. transfer_result sent (socket c) (reply_text n msg) (trace s) r (trace s')))"
proof -
  have reply: "returns (write_reply E a n msg s1) (\<lambda>r s'. talks C s s' \<and>
      (\<exists>msg. transfer_result sent (socket c) (reply_text n msg) (trace s) r (trace s')))"
    if t: "talks C s s1" "trace s1 = trace s @ [(CSys (Strerror m), x)]" for msg s1 x
  proof (rule returns_mono[OF reply_sends[OF _ assms(2,3)]])
    show "heap s1 a = Some c" using t(1) assms(1) by (simp add: talks_def)
    fix r s' assume r: "net_frame (sock_io (socket c)) s1 s' \<and> transfer_result sent (socket c) (reply_text n msg) (trace s1) r (trace s')"
    have "sent (socket c) (trace s1) = sent (socket c) (trace s)" using t(2) by simp
    then have "transfer_result sent (socket c) (reply_text n msg) (trace s) r (trace s')"
      using r transfer_result_again by blast
    moreover have "talks C s1 s'" using r assms(4) by (blast intro: talks_net_frame)
    ultimately show "talks C s s' \<and> (\<exists>msg. transfer_result sent (socket c) (reply_text n msg) (trace s) r (trace s'))"
      using talks_trans[OF t(1)] by blast
  qed
  have told: "returns (ext E (CSys (Strerror m)) s) (\<lambda>x s1. talks C s s1 \<and> trace s1 = trace s @ [(CSys (Strerror m), x)])"
    by (rule returns_conj[OF talks_ext[where C = C and s = s, OF talks_refl] returns_upon[OF returns_mono[OF ext_law]]]) (simp_all add: assms(5))
  show ?thesis
    unfolding write_error_def strerror_def
    by (simp only: returns_bind prod.case returns_simps) (rule returns_mono[OF told], elim conjE, erule (1) reply)
qed

text \<open>
  C22: \<open>RNTO\<close> uses a source path at most once. Without an earlier \<open>RNFR\<close> it only sends the reply 503.
  After one it runs \<open>vrt_rename\<close> from the path of the \<open>RNFR\<close> to its argument, which makes no call but
  memory management and \<open>rename\<close> from the real path of the former to the real path of the latter; if that
  call was made and succeeded the client is sent 250, else 550. It leaves no memory behind, and
  forgets the source path whether or not the rename worked.
\<close>

theorem rename_once:
  assumes "fresh E" "write_bounded E" "fs_wf s" "heap s a = Some c"
  shows "returns (ftp_RNTO E a path s) (\<lambda>r s'. heap s' = (heap s)(a \<mapsto> c\<lparr>pending_rename := []\<rparr>) \<and> held (trace s') = held (trace s) \<and>
    (if pending_rename c = [] then net_frame (sock_io (socket c)) s s' \<and>
       transfer_result sent (socket c) (''503 RNFR required first.'' @ CRLF) (trace s) r (trace s')
     else \<exists>x s1. vrt_rename E (cwd c) (pending_rename c) path s = Some (x, s1) \<and>
       frame (renames s (cwd c) (pending_rename c) path) s s1 \<and>
       (x = 0 \<longrightarrow> (\<exists>p q y. real_call s (cwd c) (pending_rename c) p \<and> real_call s (cwd c) path q \<and>
          called s (CFile (Rename p q)) y s1 \<and> ret y = 0)) \<and>
       logs (\<lambda>x. sock_io (socket c) x \<or> (\<exists>n. x = CSys (Strerror n))) s1 s' \<and>
       (if x = 0 then transfer_result sent (socket c) (''250 Rename successful.'' @ CRLF) (trace s1) r (trace s')
        else \<exists>msg. transfer_result sent (socket c) (reply_text 550 msg) (trace s1) r (trace s'))))"
proof (cases "pending_rename c = []")
  case True
  have t: "reply_text 503 ''RNFR required first.'' = ''503 RNFR required first.'' @ CRLF" by (simp add: reply_text_def dec_codes)
  have same: "c\<lparr>pending_rename := []\<rparr> = c" using True by simp
  show ?thesis
    unfolding ftp_RNTO_def deref_def assms(4) option.case same
    using True reply_sends[OF assms(4,2), of 503 "''RNFR required first.''", unfolded t] assms(4)
    by (auto simp: upper_def fun_upd_idem elim!: returns_mono dest: net_frame_upper)
next
  case False
  let ?C = "\<lambda>x. sock_io (socket c) x \<or> (\<exists>n. x = CSys (Strerror n))"
  let ?R = "\<lambda>x s1 r s'. if x = 0 then transfer_result sent (socket c) (''250 Rename successful.'' @ CRLF) (trace s1) r (trace s')
        else \<exists>msg. transfer_result sent (socket c) (reply_text 550 msg) (trace s1) r (trace s')"
  obtain x s1 where run: "vrt_rename E (cwd c) (pending_rename c) path s = Some (x, s1)"
    and f: "frame (renames s (cwd c) (pending_rename c) path) s s1" "held (trace s1) = held (trace s)"
    and x: "x = -1 \<or> (\<exists>p q y. real_call s (cwd c) (pending_rename c) p \<and> real_call s (cwd c) path q \<and>
          called s (CFile (Rename p q)) y s1 \<and> ret y = x)"
    using vrt_rename_acts[OF assms(1,3), of "cwd c" "pending_rename c" path] unfolding returns_iff by blast
  have h: "heap s1 = heap s" using base_more_upper[OF frame_more[OF f(1)]] by (simp add: upper_def)
  then have c1: "heap s1 a = Some c" using assms(4) by simp
  have t: "reply_text 250 ''Rename successful.'' = ''250 Rename successful.'' @ CRLF" by (simp add: reply_text_def dec_codes)
  have reply: "returns (if x = 0 then write_reply E a 250 ''Rename successful.'' s1 else write_error E a 550 (errno s1) s1)
      (\<lambda>r s2. talks ?C s1 s2 \<and> ?R x s1 r s2)"
    using error_sends[OF c1 assms(2), of 550 ?C "errno s1"]
      returns_conj[OF talks_reply[OF talks_refl c1 assms(2), of 250 ?C "''Rename successful.''"]
        returns_upon[OF reply_sends[OF c1 assms(2), of 250 "''Rename successful.''", unfolded t]]]
    by (auto elim!: returns_mono)
  have finish: "returns (modify a (\<lambda>c. c\<lparr>pending_rename := []\<rparr>) s2) (\<lambda>_ s'. logs ?C s1 s' \<and> trace s' = trace s2 \<and>
      heap s' = (heap s)(a \<mapsto> c\<lparr>pending_rename := []\<rparr>) \<and> held (trace s') = held (trace s))" if "talks ?C s1 s2" for s2
    using that c1 h f(2) by (simp add: talks_def modify_def logs_def)
  show ?thesis
    unfolding ftp_RNTO_def deref_def assms(4) option.case
    apply (simp only: False if_False returns_bind prod.case returns_simps run)
    apply (rule returns_mono[OF reply], elim conjE)
    apply (rule returns_mono[OF finish], assumption, elim conjE)
    using f(1) x apply auto
    done
qed

lemma rename_once_witness:
  "returns (ftp_RNTO wii 7 ''b'' (one_state\<lparr>heap := [7 \<mapsto> one_client\<lparr>pending_rename := ''/sd/a''\<rparr>]\<rparr>))
    (\<lambda>r s'. map_option pending_rename (heap s' 7) = Some [])"
proof -
  have "fs_wf (one_state\<lparr>heap := [7 \<mapsto> one_client\<lparr>pending_rename := ''/sd/a''\<rparr>]\<rparr>)"
    using one_wf by (simp add: fs_wf_def del: one_wf)
  then show ?thesis
    by (intro returns_mono[OF rename_once[where c = "one_client\<lparr>pending_rename := ''/sd/a''\<rparr>"]]) auto
qed

section \<open>A file that is left open\<close>

text \<open>
  C25: when no socket can be had for an active data connection but the reply 520 gets through, the
  command counts as a success: the file that was opened for the transfer is not closed, and no
  record of the client mentions it, so that nothing will ever close it.
\<close>

theorem failed_transfer_keeps_file:
  assumes "write_bounded E" "heap s a = Some c" "passive_socket c < 0" "File f \<in> held (trace s)"
    and "\<And>h. ret (answer E h (CNet Net_socket)) < 0"
    and "\<And>h b. ret (answer E h (CNet (Net_write (socket c) b))) = int (length b)"
    and "100 \<le> unat (NET_BUFFER_SIZE s)"
  shows "returns (transfer_file E a callback f s) (\<lambda>r s'. r = 0 \<and> File f \<in> held (trace s') \<and> heap s' = heap s)"
proof -
  have short: "length (reply_text 150 ''Transferring data.'') \<le> 100"
    "length (reply_text 520 ''Closing data connection, error occurred during transfer.'') \<le> 100"
    by (simp_all add: reply_text_def CRLF_def dec_codes)
  let ?C = "\<lambda>x. sock_io (socket c) x \<or> x = CNet Net_socket"
  have no_socket: "returns (prepare_data_connection_active E a s1) (\<lambda>r s'. r < 0 \<and> talks ?C s1 s' \<and> NET_BUFFER_SIZE s' = NET_BUFFER_SIZE s1)" for s1
    unfolding prepare_data_connection_active_def
    using assms(5) by (simp add: returns_ext Let_def talks_def logs_def)
  have told: "returns (write_reply E a n msg s1) (\<lambda>r s'. r = 0 \<and> NET_BUFFER_SIZE s' = NET_BUFFER_SIZE s \<and> talks ?C s s')"
    if "talks ?C s s1" "NET_BUFFER_SIZE s1 = NET_BUFFER_SIZE s" "is_code n" "length (reply_text n msg) \<le> 100" for n msg s1
  proof (rule returns_mono[OF reply_all[where C = ?C, OF _ assms(1) that(3) assms(6)]])
    show "heap s1 a = Some c" "length (reply_text n msg) \<le> unat (NET_BUFFER_SIZE s1)"
      using that assms(2,7) by (simp_all add: talks_def)
  qed (use that talks_trans[OF that(1)] in auto)
  have here: "deref a s1 = Some (c, s1)" if "talks ?C s s1" for s1
    using that assms(2) by (simp add: deref_def talks_def)
  have np: "(0 \<le> passive_socket c) = False" using assms(3) by simp
  have prep: "returns (prepare_data_connection E a callback arg cl s) (\<lambda>r s'. r = 0 \<and> talks ?C s s')" for arg cl
    unfolding prepare_data_connection_def
    apply (simp only: returns_bind prod.case)
    apply (rule returns_mono[OF told[OF talks_refl refl]], simp, rule short(1), elim conjE)
    apply (simp only: less_irrefl if_False returns_bind prod.case here returns_simps np)
    apply (rule returns_mono[OF no_socket], elim conjE)
    apply (simp only: if_True)
    apply (rule returns_mono[OF told], erule (1) talks_trans, simp, simp, rule short(2), simp)
    done
  show ?thesis
    unfolding transfer_file_def
    by (simp only: returns_bind prod.case) (rule returns_mono[OF prep], use assms(4) in \<open>auto simp: talks_def\<close>)
qed

lemma failed_transfer_keeps_file_witness:
  "returns (transfer_file (sample_env (\<lambda>h c. if c = CNet Net_socket then Some (ok (-1)) else None)) 7 Send_from_file 10
      (one_state\<lparr>trace := trace one_state @ [(CFile (Fopen ''sd:/x'' ''rb''), ok 10)]\<rparr>))
    (\<lambda>r s'. r = 0 \<and> File 10 \<in> held (trace s') \<and> map_option data_connection_callback_arg (heap s' 7) = Some None)"
proof -
  let ?E = "sample_env (\<lambda>h c. if c = CNet Net_socket then Some (ok (-1)) else None)"
  have "write_bounded ?E" by (rule sample_bounded) (auto split: if_splits)
  moreover have "passive_socket one_client < 0" "data_connection_callback_arg one_client = None"
    by (simp_all add: one_client_def new_client_def)
  moreover have "NET_BUFFER_SIZE one_state = 32768"
    by (simp add: one_state_def initial_state_def MAX_NET_BUFFER_SIZE_def)
  ultimately show ?thesis
    by (intro returns_mono[OF failed_transfer_keeps_file[where c = one_client]]) auto
qed

end
