(* ===== verification/Program_Properties.thy ===== *)
theory Program_Properties
  imports Samples Program Effects
begin

text \<open>Properties of the whole program: its main loop, its end, the pads, and the loader.\<close>

section \<open>The main loop\<close>

text \<open>
  C1: from power-on, at the head of every turn of the main loop, the server's invariant holds, with
  the listening socket as one more resource that no client owns; there is such a socket unless the
  network is taken to be down. A turn keeps this through the events of clients, pads, timers and
  devices and through a loss of the network, where the old socket is released and a new one made;
  it ends the loop only when a reset was requested, and with the socket it had.
\<close>

theorem main_loop_invariant:
  assumes "server_laws E" "main_reach E argv down server s"
  shows "server_ok E (listening server) s \<and> (down \<or> 0 \<le> server) \<and>
    upon (main_turn E down server s) (\<lambda>r s'. case r of
      Inl k \<Rightarrow> k = server \<and> reset_flag s' \<and> server_ok E (listening k) s'
    | Inr (down', k) \<Rightarrow> server_ok E (listening k) s' \<and> (down' \<or> 0 \<le> k))"
proof -
  have "ready_server E initial_state"
    using initial_server_ok[of E] by (simp add: ready_server_def initial_state_def)
  from main_reach_keeps[OF assms(2,1) this] show ?thesis
    using triple_upon[OF main_turn_keeps[OF allows_False[OF assms(1)]], of server s down] by (simp add: turn_ok_def[abs_def] cong: sum.case_cong)
qed

lemma main_loop_invariant_witness:
  "\<exists>s. main_reach wii [] True (-1) s \<and> server_ok wii {} s"
proof -
  obtain s where r: "main_reach wii [] True (-1) s"
    using wii_starts by (auto simp: returns_iff intro: main_reach.enter)
  from main_loop_invariant[OF _ this] show ?thesis using r by (auto simp: listening_def)
qed

text \<open>
  C3: while the network is up, every turn of the main loop comes back with the invariant: no operation works
  on released memory or on a closed file, and no transfer, listing or batch of commands goes on for
  ever, for every behaviour of buttons, clients, files and devices within these bounds. The outside has
  a bounded number of bytes, entries and connections to offer. Neither of the two ends the program has
  on purpose occurs: memory for a password runs out, or an executable takes over. The library hands out
  what is not held, transfers no more than it is asked to, and its clock runs. And what the outside
  names fits the arrays of the program, which is a law here and not a result: paths of objects are
  shorter than \<open>MAXPATHLEN\<close> by two, files have less than \<open>10 ^ 11\<close> bytes, entries of directories less than
  \<open>10 ^ 12\<close> and names shorter than \<open>MAXPATHLEN\<close>, and a time has at most twelve characters.
\<close>

theorem main_turn_returns:
  assumes "server_laws E" "lasting E N" "server_ok E (listening server) s" "0 \<le> server"
  shows "returns (main_turn E False server s) (\<lambda>r s'. case r of
      Inl k \<Rightarrow> k = server \<and> reset_flag s' \<and> server_ok E (listening k) s'
    | Inr (down, k) \<Rightarrow> server_ok E (listening k) s' \<and> (down \<or> 0 \<le> k))"
  using main_turn_keeps[OF allows_True[OF assms(1,2)], of server s False] assms(3,4)
  by (simp add: triple_True turn_ok_def[abs_def] cong: sum.case_cong)

lemma main_turn_returns_witness:
  "returns (main_turn (session (''LIST'' @ CRLF @ ''SITE LOAD x'' @ CRLF)) False 3 up_state)
    (\<lambda>_ s'. \<exists>k. server_ok wii (listening k) s')"
  by (rule returns_mono[OF main_turn_returns[OF session_laws session_lasting]]) (auto split: sum.splits prod.splits)

text \<open>
  C4: the shutdown always comes to its end, with every client released and the listening socket
  closed, whatever devices and network answer.
\<close>

theorem shutdown_completes:
  assumes "laws E" "server_ok E (listening k) s"
  shows "returns (shutdown E k s) (\<lambda>_ s'. heap s' = Map.empty \<and> num_clients s' = 0 \<and> Sock k \<notin> held (trace s'))"
  using shutdown_returns[OF assms] by (simp only: closed_def)

lemma shutdown_completes_witness:
  "returns (shutdown wii (-1) busy_state) (\<lambda>_ s'. heap s' = Map.empty)"
  by (rule returns_mono[OF shutdown_completes]) (simp_all add: listening_def)

text \<open>
  C26: \<open>SITE LOADER\<close> ends the program: whether or not its reply gets through, the next turn of the
  main loop is the last, with the server socket as it is.
\<close>

theorem site_loader_exits:
  assumes "write_bounded E" "heap s a = Some c"
  shows "returns (ftp_SITE_LOADER E a rest s) (\<lambda>r s1. returns (main_loop E down server s1) (\<lambda>k s2. k = server))"
proof -
  have last: "returns (main_loop E down server (set_reset_flag s1)) (\<lambda>k s2. k = server)" for s1 :: "'a ftp_st_scheme"
  proof -
    have "returns (reset E (set_reset_flag s1)) (\<lambda>b s2. b)"
      by (rule returns_mono[OF reset_returns]) (auto simp: reset_frame_def set_reset_flag_def)
    then show ?thesis by (subst main_loop.simps) (auto simp: main_turn_def elim!: returns_mono)
  qed
  show ?thesis
    unfolding ftp_SITE_LOADER_def
    by (auto intro!: returns_mono[OF reply_sends[OF assms(2,1)]] last)
qed

lemma site_loader_exits_witness:
  "returns (ftp_SITE_LOADER wii 7 [] one_state) (\<lambda>r s1. returns (main_loop wii False 3 s1) (\<lambda>k s2. k = 3))"
  by (rule site_loader_exits[where c = one_client]) simp_all

section \<open>Pads\<close>

lemma fold_masks:
  "fold (\<lambda>b m. if P b then m OR f b else m) bs m AND (x :: 'w :: len word) = 0 \<longleftrightarrow>
    m AND x = 0 \<and> (\<forall>b \<in> set bs. P b \<longrightarrow> f b AND x = 0)"
proof (induction bs arbitrary: m)
  case (Cons b bs)
  have "(m OR f b) AND x = 0 \<longleftrightarrow> m AND x = 0 \<and> f b AND x = 0"
    by (simp add: bit.conj_disj_distrib2 or_eq_0_iff)
  then show ?case using Cons by auto
qed simp

text \<open>
  A button of the GameCube pad selects the same device as the button of the Wii remote that
  stands for it: the mask made for the remote has the remote's bit of a button exactly when the pad's
  bit of that button is pressed, provided that the remote's buttons have separate bits.
\<close>

lemma pad_buttons_translated:
  assumes "\<And>b. wpad_mask E b \<noteq> 0" "\<And>b b'. b \<noteq> b' \<Longrightarrow> wpad_mask E b AND wpad_mask E b' = 0" "b \<in> set device_buttons"
  shows "wpad_pressed E pressed AND wpad_mask E b \<noteq> 0 \<longleftrightarrow> pressed AND pad_mask E b \<noteq> 0"
proof -
  have "wpad_mask E b' AND wpad_mask E b = 0 \<longleftrightarrow> b' \<noteq> b" for b' using assms(1,2) by (cases "b' = b") simp_all
  then show ?thesis unfolding wpad_pressed_def fold_masks using assms(3) by auto
qed

text \<open>With the masks of libogc.\<close>

lemma pad_up_selects:
  "wpad_pressed wii 0x0008 AND wpad_mask wii Button_Up \<noteq> 0"
proof -
  have "\<forall>b. wpad_mask wii b \<noteq> 0" "\<forall>b b'. b \<noteq> b' \<longrightarrow> wpad_mask wii b AND wpad_mask wii b' = 0" by code_simp+
  moreover have "Button_Up \<in> set device_buttons" "(0x0008 :: u32) AND pad_mask wii Button_Up \<noteq> 0"
    by (simp_all add: device_buttons_def wii_def sample_env_def)
  ultimately show ?thesis using pad_buttons_translated[where E = wii and b = Button_Up and pressed = "0x0008"] by blast
qed

section \<open>The loader\<close>

lemma entry_same: "same_image d n m m' \<Longrightarrow> 256 \<le> n \<Longrightarrow> entry_point m' d = entry_point m d"
  using header_same[of d n m m' 56] by (simp add: entry_point_def)

text \<open>
  C24: loading an executable puts everything in its place, although the header is read again for
  each section: when no section overlaps the image in memory, every address that just one section
  covers holds that section's byte of the image, the argument block stands 8 bytes behind the
  entry point, every other address is as before, and the entry point is the header's.
\<close>

theorem load_dol_image_places:
  assumes "apart d n (sections d m)" "256 \<le> n" "\<And>x. in_range x (entry_point m d + 8) (length block) \<Longrightarrow> \<not> in_range x d n"
    "load_dol_image d (Some (ARGV_MAGIC, block)) m = (ep, m')"
  shows "ep = entry_point m d \<and>
    (\<forall>x. in_range x (ep + 8) (length block) \<longrightarrow> m' x = block ! unat (x - (ep + 8))) \<and>
    (\<forall>x. \<not> in_range x (ep + 8) (length block) \<longrightarrow>
       (\<forall>t \<in> set (sections d m). covers t x \<and> (\<forall>u \<in> set (sections d m). covers u x \<longrightarrow> u = t) \<longrightarrow> m' x = m (source_of d t x)) \<and>
       ((\<forall>t \<in> set (sections d m). \<not> covers t x) \<longrightarrow> m' x = m x))"
proof -
  let ?c = "copy_sections d (sections d m) m"
  have img: "same_image d n m ?c" using copy_sections_image[OF assms(1)] by (simp add: same_image_def)
  let ?m = "store_bytes ?c (entry_point m d + 8) block"
  have "same_image d n m ?m" using img assms(3) by (auto simp: same_image_def store_bytes_def)
  then have ep: "entry_point ?c d = entry_point m d" "entry_point ?m d = entry_point m d"
    using entry_same[OF _ assms(2)] img by blast+
  have "load_dol_image d (Some (ARGV_MAGIC, block)) m = (entry_point m d, ?m)"
    using ep load_all[OF assms(1,2)] by (simp add: load_dol_image_def Let_def)
  then have run: "ep = entry_point m d" "m' = ?m" using assms(4) by simp_all
  show ?thesis
    unfolding run store_bytes_def
  proof (intro conjI allI ballI impI, goal_cases)
    case (3 x t)
    have "?c x = m (source_of d t x)" by (rule copy_sections_inside[OF assms(1)]) (use 3 in blast)+
    then show ?case by (simp only: if_not_P[OF 3(1)])
  next
    case (4 x)
    then show ?case by (simp only: if_False copy_sections_outside)
  next
    case (2 x)
    then show ?case by (simp only: if_True)
  qed simp
qed

text \<open>An image with one section of four bytes.\<close>

definition small_image :: memory where
  "small_image = (\<lambda>_. 0)(0x92000002 := 1, 0x92000048 := 0x80, 0x9200004A := 0x40, 0x92000093 := 4, 0x92000103 := 7)"

lemma load_dol_image_places_witness:
  "snd (load_dol_image 0x92000000 (Some (ARGV_MAGIC, [])) small_image) 0x80004003 = 7"
proof -
  have upts: "[0..<7] = [0, 1, 2, 3, 4, 5, 6]" "[0..<11] = [0, 1, 2, 3, 4, 5, 6, 7, 8, 9, 10]" by (simp_all add: upt_rec)
  have secs: "sections 0x92000000 small_image = (0x80004000, 0x100, 4) # [(0, 0, 0), (0, 0, 0), (0, 0, 0), (0, 0, 0), (0, 0, 0), (0, 0, 0),
      (0, 0, 0), (0, 0, 0), (0, 0, 0), (0, 0, 0), (0, 0, 0), (0, 0, 0), (0, 0, 0), (0, 0, 0), (0, 0, 0), (0, 0, 0), (0, 0, 0)]"
    by (simp add: sections_def text_section_def data_section_def text_start_def text_pos_def text_size_def
      data_start_def data_pos_def data_size_def read_u32_def small_image_def upts)
  have four: "x \<in> {0x80004000, 0x80004001, 0x80004002, 0x80004003}" if "in_range x 0x80004000 4" for x :: u32
  proof -
    have "unat (x - 0x80004000) \<in> {0, 1, 2, 3}" using that by (auto simp: in_range_def)
    then have "x - 0x80004000 \<in> of_nat ` {0, 1, 2, 3}" by (rule rev_image_eqI) simp
    then show ?thesis by (auto simp: diff_eq_eq)
  qed
  have none: "\<not> covers (0, 0, 0) x" for x by (simp add: covers_def copied_def)
  have ap: "apart 0x92000000 260 (sections 0x92000000 small_image)"
    unfolding apart_def
  proof (intro ballI allI impI)
    fix t x
    assume "t \<in> set (sections 0x92000000 small_image)" and c: "covers t x"
    then have t: "t = (0x80004000, 0x100, 4)" using none by (auto simp: secs)
    then have "in_range x 0x80004000 4" using c by (simp add: covers_def)
    from four[OF this] show "\<not> in_range x 0x92000000 260 \<and> in_range (source_of 0x92000000 t x) 0x92000000 260"
      unfolding t by (elim insertE) (simp_all add: in_range_def source_of_def)
  qed
  obtain ep m' where r: "load_dol_image 0x92000000 (Some (ARGV_MAGIC, [])) small_image = (ep, m')" by fastforce
  have "covers (0x80004000, 0x100, 4) 0x80004003" by (simp add: covers_def copied_def in_range_def)
  moreover have "(0x80004000, 0x100, 4) \<in> set (sections 0x92000000 small_image)" by (simp add: secs)
  ultimately have "m' 0x80004003 = small_image (source_of 0x92000000 (0x80004000, 0x100, 4) 0x80004003)"
    using load_dol_image_places[OF ap _ _ r] none by (simp add: in_range_def secs)
  then have "m' 0x80004003 = 7" by (simp add: source_of_def small_image_def)
  then show ?thesis by (simp add: r)
qed

end
