(* ===== verification/Spec2Isabelle.thy ===== *)
theory Spec2Isabelle
  imports Ftpii Serving Preloader Listing_Properties File_Properties Server_Properties Session_Properties Program_Properties
begin

text \<open>
  ftpii, an FTP server for the Wii: a model of all of \<open>source/*.c\<close>, and what makes it correct.

  \<^bold>\<open>The program\<close> is one loop without threads (\<open>main\<close> in \<open>ftpii.c\<close>). In each turn it serves the clients
  (\<open>ftp.c\<close>), polls the pads (\<open>pad.c\<close>) and runs the timers of the devices (\<open>fs.c\<close>, \<open>dvd.c\<close>). Clients
  name files by virtual paths such as \<open>/sd/x\<close>, which \<open>vrt.c\<close> makes absolute and translates to a path
  of a device (\<open>sd:/x\<close>) that \<open>fs.c\<close> has mounted. Bytes go through the sockets of \<open>net.c\<close>. The power and
  reset buttons (\<open>reset.c\<close>) end the loop, and \<open>SITE LOAD\<close> replaces the program by an executable
  (\<open>loader.c\<close>, \<open>dol.c\<close>).

  \<^bold>\<open>How it is modelled.\<close> Operations pass the state explicitly and have results of type
  \<open>('a * state) option\<close>; \<open>None\<close> stands for undefined behaviour (an access outside an array, the use of
  a struct or a memory block that has been released, of a file or directory that has been closed),
  for leaving the process (\<open>die\<close>, a program started by the loader) and for never
  coming back. Every function that is called but not defined under \<open>source/\<close> - libogc, the C library's
  input and output, the device libraries - is a call to the environment \<open>E :: env\<close>: \<open>answer E h c\<close> is the
  reply to the call \<open>c\<close> after the history \<open>h\<close>, and the state keeps the history. So the environment is
  an arbitrary function, and what the program did is read off the history: \<open>held h\<close> is the set of
  sockets, files, directories and memory blocks it has obtained and not released, \<open>sent k h\<close> what it
  wrote to a socket. The variables of the C files are records that extend one another in the
  order of the calls: \<open>base\<close> (history, \<open>errno\<close>), \<open>reset_st\<close>, \<open>net_st\<close>, \<open>fs_st\<close>, \<open>vrt_st\<close>, \<open>ftp_st\<close>; each
  operation is polymorphic in the fields above its own, which is why it cannot touch them.
  Machine integers are words where they wrap round; \<open>s32\<close> results of calls are integers. Pointers to
  functions are datatypes with an interpreter, or lists of handlers. Structs that C allocates and
  frees are maps from addresses (\<open>heap\<close>, \<open>viters\<close>).

  \<^bold>\<open>The theories.\<close> The model:
  \<^item> \<open>Prelude\<close>: integers, C strings, \<open>sprintf\<close>, the triples \<open>returns m Q\<close> (\<open>m\<close> has a result, and \<open>Q\<close> holds of
    it) and \<open>upon m Q\<close> (if it has one), with \<open>triple b m Q\<close> for both at once, and the induction rules for loops over \<open>upon\<close>. \<open>Env\<close>: calls,
    histories, resources, and the sample environments.
  \<^item> \<open>Reset\<close> (\<open>reset.c\<close>, \<open>pad.c\<close>), \<open>Net\<close> (\<open>net.c\<close>), \<open>Dvd\<close>, \<open>Mount\<close> and \<open>Devices\<close> (\<open>dvd.c\<close>, \<open>fs.c\<close>: the drive,
    mounting, polling and the remount dialogue), \<open>Path\<close> and \<open>Vrt\<close> (\<open>vrt.c\<close>; \<open>dirname\<close> and \<open>basename\<close> of \<open>fs.c\<close>).
  \<^item> \<open>ftp.c\<close>: \<open>Split\<close> (\<open>split\<close>), \<open>Client\<close> (state of a client, replies, the commands that need nothing
    else), \<open>Ports\<close> (\<open>PASV\<close>, \<open>PORT\<close>, \<open>REST\<close>), \<open>Data\<close> (data connections), \<open>Commands\<close> (\<open>SITE\<close>, the tables, the dispatch),
    \<open>Server\<close> (accepting clients, control and data events, clean-up).
  \<^item> \<open>Loader\<close> (\<open>loader.c\<close>, \<open>dol.c\<close>), \<open>Ftpii\<close> (\<open>ftpii.c\<close>), \<open>Preloader\<close> (\<open>preloader.c\<close>).

  The proofs:
  \<^item> \<open>Ownership\<close>, \<open>Handlers\<close> and \<open>Transfers\<close> show of each command that it comes back and keeps what its client
    owns; \<open>Contract\<close> states this as the contract \<open>command_table\<close> of a table with its dispatch,
    interpreted on the three tables; \<open>Callbacks\<close> adds the callbacks of transfers, \<open>Invariant\<close> and \<open>Serving\<close> the
    invariant \<open>server_ok\<close> of the whole server; \<open>Turns\<close> the contract \<open>outer_invariant\<close> of everything outside
    the server, and \<open>Program\<close> interprets it and treats the main loop, start and end.
  \<^item> \<open>Naming\<close> shows what the operations on virtual paths do with their argument: the real path it stands for,
    the one call made on it, and what their result depends on when memory does not run out.
  \<^item> \<open>Effects\<close> and \<open>Scanning\<close> are lemmas on what single commands change and on numbers in text; \<open>Samples\<close>
    holds an environment in which all laws are true, with states of the server in it.
  \<^item> The properties, numbered C1 to C40 in the manifest, are at the end of \<open>Net\<close>, \<open>Path\<close> and \<open>Split\<close>
    and in \<open>File_Properties\<close>, \<open>Listing_Properties\<close>, \<open>Server_Properties\<close>, \<open>Session_Properties\<close> and
    \<open>Program_Properties\<close>.

  \<^bold>\<open>What is shown.\<close>
  \<^item> The server (\<open>main_loop_invariant\<close>, \<open>server_turn_invariant\<close>, \<open>unauthenticated_confined\<close> and the others of
    \<open>Server_Properties\<close>): from power-on, every slot of the table
    points to a client of its own with well-formed buffer and working directory; every socket, file,
    directory and block has one owner, so that nothing is closed twice; a command touches no other
    client; a client that has not logged in reaches nothing; every command but \<open>SITE\<close> comes back; a transfer
    that a command starts has the callback, argument and cleanup function that fit together; the
    end releases all. While the network is up every turn of the main loop comes back
    (\<open>main_turn_returns\<close>): nothing is used after its release and no loop is endless,
    provided the world is a lasting one in which names and sizes fit the arrays.
  \<^item> Functional behaviour: the lines of a control connection are those of the text between CRLFs,
    however the network cuts it; \<open>split\<close>
    gives the words; the automaton of \<open>virtual_abspath\<close> computes the usual resolution of paths and
    never leaves the root; a virtual path names one path of one device, and file commands call
    their function on no other; \<open>CWD\<close> refines a walk in a
    tree of directories; what is sent is a prefix, and all of it on success; uploads store what is read;
    listings send every entry of a directory, and of the virtual root every mounted partition.
  \<^item> The devices: mounting is reported truly; the disc that a wait is on is left alone; the dialogue
    keeps its invariant over every sequence of operations, and its timer ends it; polling returns.
  \<^item> Single commands: \<open>REST\<close>, \<open>SIZE\<close>, \<open>RNTO\<close>, \<open>PASS\<close>, \<open>PASV\<close>; the loader puts every byte in its place.

  \<^bold>\<open>Laws.\<close> What the code relies on is a hypothesis by name, and all hold together in \<open>Samples\<close>: \<open>fresh\<close>
  (what is handed out is not held already), \<open>write_bounded\<close> and \<open>read_bounded\<close> (no more bytes than asked for),
  \<open>devices_ok\<close> (\<open>fresh\<close>; the clock runs; a list of NTFS partitions has an address), \<open>names_short\<close> (the path of
  an object that exists is shorter than \<open>MAXPATHLEN\<close> by two), \<open>files_small\<close> (a file has less than \<open>10 ^ 11\<close>
  bytes) and \<open>FTP_BUFFER_SIZE \<le> MAXPATHLEN\<close>. Without \<open>names_short\<close> and \<open>files_small\<close> the C code overflows an
  array (\<open>vrt_chdir_overflows\<close> and \<open>size_bound\<close> show how). A \<open>lasting\<close> world has three more, which only the
  return of whole turns needs: \<open>finite_world\<close> (after a total amount \<open>N\<close> of bytes, entries and
  connections nothing more comes), \<open>entries_fit\<close> (the name, size and time of an entry of a directory fit the
  arrays of the listings) and \<open>process_lasts\<close> (there is memory for a password, and no executable takes
  over). Single properties add that the answers of one kind of call do not change: \<open>tree\<close> (of \<open>stat\<close>),
  \<open>mounts\<close> (whether a device can be opened) and \<open>time_stamps\<close> (of \<open>strftime\<close>); \<open>plenty\<close> says that memory does not
  run out.

  \<^bold>\<open>Loops\<close> are structural where C counts, and \<open>partial_function (option)\<close> elsewhere; there is no fuel. That
  a loop ends is part of \<open>returns\<close>, by a measure (\<open>transfer_exact\<close>: the bytes left; the wait for the
  drive: the clock). Loops that the environment can keep going for ever - a peer that
  never stops sending, a directory without an end - are under \<open>triple b\<close>: for every environment if
  \<open>b\<close> is false, and with their end, by the measure \<open>remaining\<close> of what the outside still has to offer, if
  \<open>b\<close> is true and the world is a lasting one. The waits for the network and the main loop are under
  \<open>upon\<close>, and for the main loop and the dialogue also as reachable states of a step relation (\<open>main_reach\<close>, \<open>fs_reach\<close>).

  \<^bold>\<open>Not modelled\<close>: messages on the console (\<open>printf\<close>, the blank lines of \<open>SITE CLEAR\<close>), as nothing reads
  them; cache maintenance and interrupt masking in \<open>dol.c\<close>, which have no effect on values; the
  registration of the button callbacks beyond the call, whose effect is the question
  \<open>Button_callback\<close> that \<open>Reset\<close> asks wherever a flag is read; the contents of libraries. The
  accesses of \<open>dvd_mountWait\<close> and of the timers are the fields of the state themselves.
\<close>

end
